(* ===== verification/Prelude.thy ===== *)
theory Prelude
  imports Main "HOL-Library.Word" "HOL-Library.Signed_Division"
begin

text \<open>
  What every component shares: the C integer types of the 32-bit target, error codes and
  return values, pointers and out-parameters, runs that may fault or block, counting the
  threads at a program point, and reachable states with the locale that turns an inductive
  invariant of a step relation into a fact about all reachable states.
\<close>

unbundle bit_operations_syntax

named_theorems c_arith \<comment> \<open>wrap-around functions on values that do not wrap\<close>
named_theorems plat \<comment> \<open>consequences of a sane platform configuration\<close>

section \<open>C integers\<close>

text \<open>
  Unsigned integers are words: \<open>unsigned\<close> and \<open>size_t\<close> have 32 bits, \<open>unsigned short\<close> 16.
  Signed integers are HOL integers; every operation that could leave the type's range is
  written with the wrap-around of its type: \<open>s32\<close> for \<open>int\<close> and \<open>long\<close>, \<open>s64\<close> for
  \<open>long long\<close> and \<open>int64_t\<close>, \<open>swrap n\<close> for a signed type of \<open>n\<close> bits (\<open>time_t\<close>, whose
  width the C library chooses). Signed division and remainder truncate towards zero: they
  are \<open>sdiv\<close> and \<open>smod\<close> of HOL-Library.Signed_Division.
\<close>

type_synonym u32 = "32 word"
type_synonym u16 = "16 word"

definition swrap :: "nat \<Rightarrow> int \<Rightarrow> int" where
  "swrap n x = signed_take_bit (n - 1) x"

definition s32 :: "int \<Rightarrow> int" where
  "s32 x = swrap 32 x"

definition s64 :: "int \<Rightarrow> int" where
  "s64 x = swrap 64 x"

definition fits :: "nat \<Rightarrow> int \<Rightarrow> bool" where
  "fits n x \<longleftrightarrow> - (2 ^ (n - 1)) \<le> x \<and> x < 2 ^ (n - 1)"

lemma swrap_id [c_arith]: "fits n x \<Longrightarrow> swrap n x = x"
  by (simp add: fits_def swrap_def signed_take_bit_int_eq_self)

lemma s32_id [c_arith]: "- 2147483648 \<le> x \<Longrightarrow> x < 2147483648 \<Longrightarrow> s32 x = x"
  by (simp add: s32_def swrap_def signed_take_bit_int_eq_self)

lemma s64_id [c_arith]:
  "- 9223372036854775808 \<le> x \<Longrightarrow> x < 9223372036854775808 \<Longrightarrow> s64 x = x"
  by (simp add: s64_def swrap_def signed_take_bit_int_eq_self)

lemma fits_swrap [simp]: "fits n (swrap n x)"
  by (simp add: fits_def swrap_def)

lemma fits_mono: "fits m x \<Longrightarrow> m \<le> n \<Longrightarrow> fits n x"
proof -
  assume "fits m x" and "m \<le> n"
  moreover have "(2::int) ^ (m - 1) \<le> 2 ^ (n - 1)"
    using \<open>m \<le> n\<close> by (intro power_increasing) auto
  ultimately show ?thesis unfolding fits_def by linarith
qed

lemma fits_32 [simp]: "fits 32 x \<longleftrightarrow> - 2147483648 \<le> x \<and> x < 2147483648"
  by (simp add: fits_def)

lemma fits_64 [simp]: "fits 64 x \<longleftrightarrow> - 9223372036854775808 \<le> x \<and> x < 9223372036854775808"
  by (simp add: fits_def)

text \<open>Truncating division agrees with the mathematical one on non-negative operands.\<close>

lemma sdiv_nonneg: "0 \<le> (a::int) \<Longrightarrow> 0 \<le> b \<Longrightarrow> a sdiv b = a div b"
  by (cases "a = 0"; cases "b = 0") (auto simp: signed_divide_int_def sgn_if)

lemma smod_nonneg: "0 \<le> (a::int) \<Longrightarrow> 0 < b \<Longrightarrow> a smod b = a mod b"
  by (cases "a = 0") (simp_all add: signed_modulo_int_def sgn_if)

lemma u32_bounds [simp]: "0 \<le> uint (x :: u32)" "uint (x :: u32) < 4294967296"
  using uint_lt2p [of x] by simp_all

lemma u32_le_max: "uint (x :: u32) \<le> 4294967295"
  using u32_bounds(2) [of x] by linarith

lemma u32_unat_less: "unat (x :: u32) < 4294967296"
  using unsigned_less [of x, where ?'a = nat] by simp

lemma uint_u32_of_int: "0 \<le> x \<Longrightarrow> x < 4294967296 \<Longrightarrow> uint (word_of_int x :: u32) = x"
  by (simp add: uint_word_of_int)

lemma u32_mult:
  "uint a * uint b < 4294967296 \<Longrightarrow> uint (a * b :: u32) = uint a * uint b"
  by (simp add: uint_word_ariths)

lemma u32_eq_0_iff: "(x :: u32) = 0 \<longleftrightarrow> uint x = 0"
  by (metis uint_0_iff)

lemma u32_minus_1: "unat (- 1 :: u32) = 4294967295"
  by (simp add: unsigned_minus_1_eq_mask mask_eq_exp_minus_1)

section \<open>Error codes, return values, pointers\<close>

text \<open>
  The error codes are those of \<open>errno.h\<close> that the sources return or store; the code relies
  on nothing but their being distinct and positive. A function of the API returns 0, a
  positive error code, or -1.
\<close>

datatype errno =
    EINVAL | ENOMEM | EAGAIN | EBADF | EBUSY | EDEADLK | EEXIST | EMSGSIZE
  | ENAMETOOLONG | ENOENT | ENOTSUP | EPERM | ETIMEDOUT

datatype ret = OK | MinusOne | Err errno

text \<open>A pointer that may be \<open>NULL\<close>: \<open>None\<close> is the null pointer, \<open>Some x\<close> points to \<open>x\<close>.\<close>

type_synonym 'a ptr = "'a option"

text \<open>
  A call returns, faults (undefined behaviour: a null dereference, a write past the end of
  a buffer) or blocks forever.
\<close>

datatype 'a run = Returns 'a | Faults | Blocks

fun run_bind :: "'a run \<Rightarrow> ('a \<Rightarrow> 'b run) \<Rightarrow> 'b run" where
  "run_bind (Returns x) f = f x"
| "run_bind Faults f = Faults"
| "run_bind Blocks f = Blocks"

lemma run_bind_Returns_iff:
  "run_bind m f = Returns y \<longleftrightarrow> (\<exists>x. m = Returns x \<and> f x = Returns y)"
  by (cases m) auto

section \<open>Counting threads at a program point\<close>

text \<open>
  A state machine keeps a program counter per thread; an invariant counts the threads whose
  counter satisfies a predicate. One thread moves at a time, so one rule covers every step.
\<close>

definition threads_at :: "('t \<Rightarrow> 'pc) \<Rightarrow> ('pc \<Rightarrow> bool) \<Rightarrow> 't set" where
  "threads_at pcs Q = {t. Q (pcs t)}"

definition num_at :: "('t \<Rightarrow> 'pc) \<Rightarrow> ('pc \<Rightarrow> bool) \<Rightarrow> nat" where
  "num_at pcs Q = card (threads_at pcs Q)"

lemma threads_at_upd:
  "threads_at (pcs(t := p)) Q =
     (if Q p then insert t (threads_at pcs Q) else threads_at pcs Q - {t})"
  by (auto simp: threads_at_def)

lemma finite_threads_at_upd [simp]:
  "finite (threads_at (pcs(t := p)) Q) \<longleftrightarrow> finite (threads_at pcs Q)"
  by (simp add: threads_at_upd)

lemma num_at_upd:
  assumes "finite (threads_at pcs Q)"
  shows "num_at (pcs(t := p)) Q + of_bool (Q (pcs t)) = num_at pcs Q + of_bool (Q p)"
proof (cases "Q (pcs t)")
  case True
  then have "t \<in> threads_at pcs Q" by (simp add: threads_at_def)
  with assms True show ?thesis
    using card_Suc_Diff1 [OF assms \<open>t \<in> threads_at pcs Q\<close>]
    by (auto simp: num_at_def threads_at_upd insert_absorb)
next
  case False
  then have "t \<notin> threads_at pcs Q" by (simp add: threads_at_def)
  with assms False show ?thesis
    by (auto simp: num_at_def threads_at_upd)
qed

lemma num_at_same: "Q (pcs t) = Q p \<Longrightarrow> num_at (pcs(t := p)) Q = num_at pcs Q"
  by (auto simp: num_at_def threads_at_upd threads_at_def intro!: arg_cong [where f = card])

lemma num_at_enter:
  "finite (threads_at pcs Q) \<Longrightarrow> \<not> Q (pcs t) \<Longrightarrow> Q p \<Longrightarrow>
     num_at (pcs(t := p)) Q = Suc (num_at pcs Q)"
  using num_at_upd [of pcs Q t p] by simp

lemma num_at_leave:
  "finite (threads_at pcs Q) \<Longrightarrow> Q (pcs t) \<Longrightarrow> \<not> Q p \<Longrightarrow>
     Suc (num_at (pcs(t := p)) Q) = num_at pcs Q"
  using num_at_upd [of pcs Q t p] by simp

lemma num_at_leave1:
  "finite (threads_at pcs Q) \<Longrightarrow> Q (pcs t) \<Longrightarrow> \<not> Q p \<Longrightarrow>
     num_at (pcs(t := p)) Q = num_at pcs Q - 1"
  using num_at_leave [of pcs Q t p] by simp

lemmas num_at_moves = num_at_same num_at_enter num_at_leave1

lemma finite_at:
  "finite (threads_at pcs (\<lambda>pc. pc \<noteq> i)) \<Longrightarrow> \<not> Q i \<Longrightarrow> finite (threads_at pcs Q)"
  by (erule rev_finite_subset) (auto simp: threads_at_def)

lemma num_at_pos: "finite (threads_at pcs Q) \<Longrightarrow> Q (pcs t) \<Longrightarrow> 0 < num_at pcs Q"
  by (auto simp: num_at_def threads_at_def card_gt_0_iff)

lemma num_at_less:
  assumes "finite (threads_at pcs R)" and "\<And>pc. Q pc \<Longrightarrow> R pc" and "R (pcs t)" and "\<not> Q (pcs t)"
  shows "num_at pcs Q < num_at pcs R"
  unfolding num_at_def using assms
  by (intro psubset_card_mono) (auto simp: threads_at_def)

section \<open>Reachable states and invariants\<close>

inductive reachable :: "('s \<Rightarrow> bool) \<Rightarrow> ('s \<Rightarrow> 's \<Rightarrow> bool) \<Rightarrow> 's \<Rightarrow> bool"
  for init :: "'s \<Rightarrow> bool" and step :: "'s \<Rightarrow> 's \<Rightarrow> bool" where
  reach_init: "init s \<Longrightarrow> reachable init step s"
| reach_step: "reachable init step s \<Longrightarrow> step s s' \<Longrightarrow> reachable init step s'"

text \<open>
  The interface between a state machine and the facts about its reachable states: a machine
  indexed by parameters \<open>p\<close> (the kernel it runs on), an assumption \<open>ok\<close> on the parameters,
  and an invariant that the initial states satisfy and every step keeps.
\<close>

locale invariant_system =
  fixes ok :: "'p \<Rightarrow> bool"
    and init :: "'p \<Rightarrow> 's \<Rightarrow> bool"
    and step :: "'p \<Rightarrow> 's \<Rightarrow> 's \<Rightarrow> bool"
    and inv :: "'p \<Rightarrow> 's \<Rightarrow> bool"
  assumes inv_init: "ok p \<Longrightarrow> init p s \<Longrightarrow> inv p s"
    and inv_step: "ok p \<Longrightarrow> inv p s \<Longrightarrow> step p s s' \<Longrightarrow> inv p s'"
begin

lemma inv_reachable:
  assumes "ok p" and "reachable (init p) (step p) s"
  shows "inv p s"
  using assms(2) by induction (auto intro: inv_init inv_step assms(1))

lemma inv_steps:
  assumes "ok p" and "reachable (init p) (step p) s" and "(step p)\<^sup>*\<^sup>* s s'"
  shows "inv p s'"
  using assms(3)
proof induction
  case base
  from assms(1,2) show ?case by (rule inv_reachable)
next
  case (step s' s'')
  with assms(1) show ?case by (blast intro: inv_step)
qed

end

section \<open>Simulation\<close>

text \<open>
  Sequences of calls of a component, and of the abstract specification it implements: each
  call has a result, and the results are collected in order.
\<close>

fun run_calls :: "('c \<Rightarrow> 'w \<Rightarrow> ('r \<times> 'w) run) \<Rightarrow> 'c list \<Rightarrow> 'w \<Rightarrow> ('r list \<times> 'w) run" where
  "run_calls exec [] w = Returns ([], w)"
| "run_calls exec (c # cs) w =
     run_bind (exec c w) (\<lambda>(r, w). run_bind (run_calls exec cs w) (\<lambda>(rs, w). Returns (r # rs, w)))"

fun spec_calls :: "('c \<Rightarrow> 'a \<Rightarrow> 'r \<times> 'a) \<Rightarrow> 'c list \<Rightarrow> 'a \<Rightarrow> 'r list \<times> 'a" where
  "spec_calls spec [] a = ([], a)"
| "spec_calls spec (c # cs) a =
     (case spec c a of (r, a) \<Rightarrow> (case spec_calls spec cs a of (rs, a) \<Rightarrow> (r # rs, a)))"

text \<open>
  A functional simulation: on well-formed states every valid call returns, keeps the state
  well-formed, and does under the abstraction what the specification does.
\<close>

locale simulation =
  fixes ok :: "'p \<Rightarrow> bool"
    and wf :: "'p \<Rightarrow> 'w \<Rightarrow> bool"
    and valid :: "'p \<Rightarrow> 'c \<Rightarrow> bool"
    and abstr :: "'p \<Rightarrow> 'w \<Rightarrow> 'a"
    and exec :: "'p \<Rightarrow> 'c \<Rightarrow> 'w \<Rightarrow> ('r \<times> 'w) run"
    and spec :: "'p \<Rightarrow> 'c \<Rightarrow> 'a \<Rightarrow> 'r \<times> 'a"
  assumes sim: "ok p \<Longrightarrow> wf p w \<Longrightarrow> valid p c \<Longrightarrow>
    \<exists>r w'. exec p c w = Returns (r, w') \<and> wf p w' \<and> spec p c (abstr p w) = (r, abstr p w')"
begin

lemma sim_calls:
  assumes "ok p" and "wf p w" and "list_all (valid p) cs"
  shows "\<exists>rs w'. run_calls (exec p) cs w = Returns (rs, w') \<and> wf p w' \<and>
    spec_calls (spec p) cs (abstr p w) = (rs, abstr p w')"
  using assms(2,3)
proof (induction cs arbitrary: w)
  case Nil
  then show ?case by simp
next
  case (Cons c cs)
  with sim [OF assms(1), of w c] obtain r u where u: "exec p c w = Returns (r, u)" "wf p u"
    "spec p c (abstr p w) = (r, abstr p u)" by auto
  with Cons obtain rs w' where "run_calls (exec p) cs u = Returns (rs, w')" "wf p w'"
    "spec_calls (spec p) cs (abstr p u) = (rs, abstr p w')" by force
  with u show ?case by simp
qed

lemma sim_returns:
  assumes "ok p" and "wf p w" and "list_all (valid p) cs"
    and "run_calls (exec p) cs w = Returns (rs, w')"
  shows "wf p w'" and "spec_calls (spec p) cs (abstr p w) = (rs, abstr p w')"
  using sim_calls [OF assms(1-3)] assms(4) by auto

end

end
