(* ===== verification/Kernel.thy ===== *)
theory Kernel
  imports Prelude
begin

text \<open>
  The hyperC kernel as the library sees it. Its sources (the \<open>hcos/*.h\<close> headers and the
  kernel behind them) are not part of this repository, so everything the library takes from
  it is a parameter: configuration constants, and the operations on kernel objects as
  records of functions. The predicates at the end of each section state the documented
  behaviour the library relies on; they are hypotheses of the theorems that need them, and
  the reference kernels at the end of the file show that they can hold together.
\<close>

section \<open>Configuration\<close>

text \<open>
  \<open>tmr_hz\<close> is the tick rate, \<open>time_bits\<close> the width of \<open>time_t\<close> (the C library's choice),
  \<open>WAIT\<close> the timeout that blocks forever, \<open>WAIT_NO\<close> the timeout that does not block,
  \<open>CFG_TPRI_NUM\<close> the number of task priorities.
\<close>

record platform =
  tmr_hz :: u32
  time_bits :: nat
  WAIT :: u32
  WAIT_NO :: u32
  CFG_TPRI_NUM :: int

text \<open>
  A sane configuration ticks at least once a second and at most once a nanosecond (outside
  this range the code divides by zero), and has a \<open>time_t\<close> of 32 to 64 bits.
\<close>

definition platform_ok :: "platform \<Rightarrow> bool" where
  "platform_ok P \<longleftrightarrow> 0 < uint (tmr_hz P) \<and> uint (tmr_hz P) \<le> 1000000000 \<and>
     32 \<le> time_bits P \<and> time_bits P \<le> 64"

lemma platform_hz [plat]: "platform_ok P \<Longrightarrow> 0 < uint (tmr_hz P)"
  "platform_ok P \<Longrightarrow> uint (tmr_hz P) \<le> 1000000000"
  by (simp_all add: platform_ok_def)

lemma platform_time [plat]: "platform_ok P \<Longrightarrow> 32 \<le> time_bits P"
  "platform_ok P \<Longrightarrow> time_bits P \<le> 64"
  by (simp_all add: platform_ok_def)

lemma fits_time32: "platform_ok P \<Longrightarrow> fits 32 x \<Longrightarrow> fits (time_bits P) x"
  using fits_mono platform_time(1) by blast

lemma fits_time64: "platform_ok P \<Longrightarrow> fits (time_bits P) x \<Longrightarrow> fits 64 x"
  using fits_mono platform_time(2) by blast

section \<open>Counting semaphores\<close>

text \<open>
  \<open>sem_take\<close> is the moment a call of \<open>sem_get\<close> succeeds: the semaphore after it, or
  \<open>None\<close> while there is nothing to take. \<open>sem_get t s\<close> is a whole call with timeout \<open>t\<close>:
  whether it returned 0, and the semaphore afterwards (with whatever other threads did to
  it while the caller waited). \<open>sem_val\<close> is the field \<open>val\<close>.
\<close>

record 's sem_ops =
  sem_init :: "u32 \<Rightarrow> 's"
  sem_val :: "'s \<Rightarrow> nat"
  sem_post :: "'s \<Rightarrow> 's"
  sem_post_n :: "'s \<Rightarrow> u32 \<Rightarrow> 's"
  sem_take :: "'s \<Rightarrow> 's option"
  sem_get :: "'s \<Rightarrow> u32 \<Rightarrow> bool \<times> 's"

definition counting_sem :: "'s sem_ops \<Rightarrow> bool" where
  "counting_sem S \<longleftrightarrow>
     (\<forall>n. sem_val S (sem_init S n) = unat n) \<and>
     (\<forall>s. sem_val S (sem_post S s) = Suc (sem_val S s)) \<and>
     (\<forall>s n. sem_val S (sem_post_n S s n) = sem_val S s + unat n) \<and>
     (\<forall>s. sem_take S s = None \<longleftrightarrow> sem_val S s = 0) \<and>
     (\<forall>s s'. sem_take S s = Some s' \<longrightarrow> Suc (sem_val S s') = sem_val S s)"

text \<open>A call with timeout 0 takes the semaphore at once or fails and leaves it alone.\<close>

definition polling_sem :: "'s sem_ops \<Rightarrow> bool" where
  "polling_sem S \<longleftrightarrow>
     (\<forall>s. sem_get S s 0 = (case sem_take S s of None \<Rightarrow> (False, s) | Some s' \<Rightarrow> (True, s')))"

lemma counting_semD:
  assumes "counting_sem S"
  shows "sem_val S (sem_init S n) = unat n"
    and "sem_val S (sem_post S s) = Suc (sem_val S s)"
    and "sem_val S (sem_post_n S s n) = sem_val S s + unat n"
    and "sem_take S s = None \<longleftrightarrow> sem_val S s = 0"
    and "sem_take S s = Some s' \<Longrightarrow> Suc (sem_val S s') = sem_val S s"
  using assms unfolding counting_sem_def by blast+

section \<open>Mutexes\<close>

text \<open>
  \<open>own\<close> is the field \<open>own\<close>, the task that holds the mutex. \<open>mut_take t\<close> is the moment task
  \<open>t\<close> gets it (\<open>None\<close> while it cannot), \<open>mut_lock t m n\<close> a whole call with timeout \<open>n\<close>.
\<close>

record ('t, 'm) mut_ops =
  mut_init :: "'m"
  own :: "'m \<Rightarrow> 't option"
  mut_take :: "'t \<Rightarrow> 'm \<Rightarrow> 'm option"
  mut_lock :: "'t \<Rightarrow> 'm \<Rightarrow> u32 \<Rightarrow> bool \<times> 'm"
  mut_unlock :: "'m \<Rightarrow> 'm"

text \<open>
  A mutex starts free, a free mutex goes to the task that takes it, a mutex held by one task
  cannot be taken by another, and unlocking a mutex that was taken once frees it. What a
  task gets that takes its own mutex is left open.
\<close>

definition mutex_laws :: "('t, 'm) mut_ops \<Rightarrow> bool" where
  "mutex_laws M \<longleftrightarrow>
     own M (mut_init M) = None \<and>
     (\<forall>t m. own M m = None \<longrightarrow> (\<exists>m'. mut_take M t m = Some m')) \<and>
     (\<forall>t m m'. own M m = None \<longrightarrow> mut_take M t m = Some m' \<longrightarrow>
        own M m' = Some t \<and> own M (mut_unlock M m') = None) \<and>
     (\<forall>t u m. own M m = Some u \<longrightarrow> u \<noteq> t \<longrightarrow> mut_take M t m = None)"

lemma mutex_lawsD:
  assumes "mutex_laws M"
  shows "own M (mut_init M) = None"
    and "own M m = None \<Longrightarrow> \<exists>m'. mut_take M t m = Some m'"
    and "own M m = None \<Longrightarrow> mut_take M t m = Some m' \<Longrightarrow> own M m' = Some t"
    and "own M m = None \<Longrightarrow> mut_take M t m = Some m' \<Longrightarrow> own M (mut_unlock M m') = None"
    and "own M m = Some u \<Longrightarrow> u \<noteq> t \<Longrightarrow> mut_take M t m = None"
  using assms unfolding mutex_laws_def by blast+

text \<open>Whoever takes a mutex owns it then, also if he had it before.\<close>

definition taker_owns :: "('t, 'm) mut_ops \<Rightarrow> bool" where
  "taker_owns M \<longleftrightarrow> (\<forall>t m m'. mut_take M t m = Some m' \<longrightarrow> own M m' = Some t)"

text \<open>A call with the timeout \<open>w\<close> takes the mutex at once or fails and leaves it alone.\<close>

definition polling_mut :: "('t, 'm) mut_ops \<Rightarrow> u32 \<Rightarrow> bool" where
  "polling_mut M w \<longleftrightarrow>
     (\<forall>t m. mut_lock M t m w = (case mut_take M t m of None \<Rightarrow> (False, m) | Some m' \<Rightarrow> (True, m')))"

section \<open>Reference kernels\<close>

text \<open>
  The smallest kernels with the documented behaviour: a semaphore is its count, a mutex its
  owner. They instantiate the parameters in the witnesses.
\<close>

definition ref_sem :: "nat sem_ops" where
  "ref_sem = \<lparr>sem_init = unat, sem_val = (\<lambda>s. s), sem_post = Suc,
     sem_post_n = (\<lambda>s n. s + unat n),
     sem_take = (\<lambda>s. if s = 0 then None else Some (s - 1)),
     sem_get = (\<lambda>s n. if s = 0 then (False, s) else (True, s - 1))\<rparr>"

definition ref_mut :: "('t, 't option) mut_ops" where
  "ref_mut = \<lparr>mut_init = None, own = (\<lambda>m. m),
     mut_take = (\<lambda>t m. if m = None then Some (Some t) else None),
     mut_lock = (\<lambda>t m n. if m = None then (True, Some t) else (False, m)),
     mut_unlock = (\<lambda>m. None)\<rparr>"

definition ref_platform :: platform where
  "ref_platform = \<lparr>tmr_hz = 1000, time_bits = 32, WAIT = 4294967295, WAIT_NO = 0,
     CFG_TPRI_NUM = 8\<rparr>"

lemma ref_platform_sel [simp]:
  "tmr_hz ref_platform = 1000" "time_bits ref_platform = 32" "WAIT ref_platform = 4294967295"
  "WAIT_NO ref_platform = 0" "CFG_TPRI_NUM ref_platform = 8"
  by (simp_all add: ref_platform_def)

lemma ref_sem_sel [simp]:
  "sem_init ref_sem n = unat n" "sem_val ref_sem s = s" "sem_post ref_sem s = Suc s"
  "sem_post_n ref_sem s n = s + unat n"
  "sem_take ref_sem s = (if s = 0 then None else Some (s - 1))"
  "sem_get ref_sem s n = (if s = 0 then (False, s) else (True, s - 1))"
  by (simp_all add: ref_sem_def)

lemma ref_mut_sel [simp]:
  "mut_init ref_mut = None" "own ref_mut m = m"
  "mut_take ref_mut t m = (if m = None then Some (Some t) else None)"
  "mut_lock ref_mut t m n = (if m = None then (True, Some t) else (False, m))"
  "mut_unlock ref_mut m = None"
  by (simp_all add: ref_mut_def)

lemma ref_sem_counting [simp]: "counting_sem ref_sem"
  by (auto simp: counting_sem_def ref_sem_def split: if_splits)

lemma ref_sem_polling [simp]: "polling_sem ref_sem"
  by (simp add: polling_sem_def ref_sem_def)

lemma ref_mut_laws [simp]: "mutex_laws ref_mut"
  by (auto simp: mutex_laws_def ref_mut_def split: if_splits)

lemma ref_mut_taker [simp]: "taker_owns ref_mut"
  by (simp add: taker_owns_def split: if_splits)

lemma ref_mut_polling [simp]: "polling_mut ref_mut w"
  by (simp add: polling_mut_def ref_mut_def)

lemma ref_platform_ok [simp]: "platform_ok ref_platform"
  by (simp add: platform_ok_def ref_platform_def)

end
