(* ===== verification/Threads.thy ===== *)
theory Threads
  imports Kernel
begin

text \<open>
  Threads that run the code of a component against its shared state. The code of one call is
  a function from the shared state and a program counter to the next ones (\<open>None\<close> while the
  call is blocked); threads interleave at every access to the shared state. Barriers,
  condition variables and thread exit are programs in this sense.
\<close>

section \<open>Programs and their interleavings\<close>

text \<open>
  \<open>expire\<close> is what a call does whose timeout in the kernel runs out (\<open>None\<close> where it does not
  wait, or waits forever), \<open>entry\<close> are the points at which a call may start, \<open>idle\<close> is the
  counter of a thread that is not in a call, \<open>result\<close> the value of a call about to return.
\<close>

record ('t, 'sh, 'pc, 'r) program =
  code :: "'t \<Rightarrow> 'sh \<Rightarrow> 'pc \<Rightarrow> ('sh \<times> 'pc) option"
  expire :: "'t \<Rightarrow> 'sh \<Rightarrow> 'pc \<Rightarrow> ('sh \<times> 'pc) option"
  entry :: "'pc \<Rightarrow> bool"
  idle :: 'pc
  result :: "'pc \<Rightarrow> 'r option"

record ('t, 'sh, 'pc, 'r) threads =
  shared :: 'sh
  pc_of :: "'t \<Rightarrow> 'pc"
  returned :: "'r list"

datatype ('t, 'pc) action = Call 't 'pc | Move 't | Expire 't | Return 't

fun internal :: "('t, 'pc) action \<Rightarrow> bool" where
  "internal (Call t p) \<longleftrightarrow> False"
| "internal (Move t) \<longleftrightarrow> True"
| "internal (Expire t) \<longleftrightarrow> True"
| "internal (Return t) \<longleftrightarrow> True"

fun act :: "('t, 'sh, 'pc, 'r) program \<Rightarrow> ('t, 'pc) action \<Rightarrow> ('t, 'sh, 'pc, 'r) threads \<Rightarrow>
    ('t, 'sh, 'pc, 'r) threads option" where
  "act G (Call t p) s =
     (if pc_of s t = idle G \<and> entry G p then Some (s\<lparr>pc_of := (pc_of s)(t := p)\<rparr>) else None)"
| "act G (Move t) s =
     (case code G t (shared s) (pc_of s t) of
        None \<Rightarrow> None
      | Some (sh, p) \<Rightarrow> Some (s\<lparr>shared := sh, pc_of := (pc_of s)(t := p)\<rparr>))"
| "act G (Expire t) s =
     (case expire G t (shared s) (pc_of s t) of
        None \<Rightarrow> None
      | Some (sh, p) \<Rightarrow> Some (s\<lparr>shared := sh, pc_of := (pc_of s)(t := p)\<rparr>))"
| "act G (Return t) s =
     (case result G (pc_of s t) of
        None \<Rightarrow> None
      | Some r \<Rightarrow> Some (s\<lparr>pc_of := (pc_of s)(t := idle G), returned := r # returned s\<rparr>))"

inductive tstep :: "('t, 'sh, 'pc, 'r) program \<Rightarrow> ('t, 'sh, 'pc, 'r) threads \<Rightarrow>
    ('t, 'sh, 'pc, 'r) threads \<Rightarrow> bool" for G where
  tstep: "act G a s = Some s' \<Longrightarrow> tstep G s s'"

inductive istep :: "('t, 'sh, 'pc, 'r) program \<Rightarrow> ('t, 'sh, 'pc, 'r) threads \<Rightarrow>
    ('t, 'sh, 'pc, 'r) threads \<Rightarrow> bool" for G where
  istep: "act G a s = Some s' \<Longrightarrow> internal a \<Longrightarrow> istep G s s'"

inductive_simps tstep_iff: "tstep G s s'"

inductive_simps istep_iff: "istep G s s'"

inductive_cases istepE: "istep G s s'"

lemma istep_tstep: "istep G s s' \<Longrightarrow> tstep G s s'"
  by (auto simp: tstep_iff elim: istepE)

lemma isteps_tsteps: "(istep G)\<^sup>*\<^sup>* s s' \<Longrightarrow> (tstep G)\<^sup>*\<^sup>* s s'"
  by (induction rule: rtranclp_induct) (auto intro: istep_tstep rtranclp.rtrancl_into_rtrancl)

lemma tstep_cases [consumes 1, case_names call move expire return]:
  assumes "tstep G s s'"
  obtains t p where "pc_of s t = idle G" "entry G p" "s' = s\<lparr>pc_of := (pc_of s)(t := p)\<rparr>"
  | t sh p where "code G t (shared s) (pc_of s t) = Some (sh, p)"
      "s' = s\<lparr>shared := sh, pc_of := (pc_of s)(t := p)\<rparr>"
  | t sh p where "expire G t (shared s) (pc_of s t) = Some (sh, p)"
      "s' = s\<lparr>shared := sh, pc_of := (pc_of s)(t := p)\<rparr>"
  | t r where "result G (pc_of s t) = Some r"
      "s' = s\<lparr>pc_of := (pc_of s)(t := idle G), returned := r # returned s\<rparr>"
  using assms
proof (cases rule: tstep.cases)
  case (tstep a)
  then show ?thesis
    by (cases a) (auto split: if_splits option.splits intro: that)
qed

lemma istep_cases [consumes 1, case_names move expire return]:
  assumes "istep G s s'"
  obtains t sh p where "code G t (shared s) (pc_of s t) = Some (sh, p)"
      "s' = s\<lparr>shared := sh, pc_of := (pc_of s)(t := p)\<rparr>"
  | t sh p where "expire G t (shared s) (pc_of s t) = Some (sh, p)"
      "s' = s\<lparr>shared := sh, pc_of := (pc_of s)(t := p)\<rparr>"
  | t r where "result G (pc_of s t) = Some r"
      "s' = s\<lparr>pc_of := (pc_of s)(t := idle G), returned := r # returned s\<rparr>"
  using assms
proof (cases rule: istep.cases)
  case (istep a)
  then show ?thesis
    by (cases a) (auto split: if_splits option.splits intro: that)
qed

lemma istep_moveI: "code G t (shared s) (pc_of s t) = Some q \<Longrightarrow> \<exists>s'. istep G s s'"
  by (cases q) (auto intro!: exI istep [of G "Move t"])

lemma istep_expireI: "expire G t (shared s) (pc_of s t) = Some q \<Longrightarrow> \<exists>s'. istep G s s'"
  by (cases q) (auto intro!: exI istep [of G "Expire t"])

lemma istep_returnI: "result G (pc_of s t) = Some r \<Longrightarrow> \<exists>s'. istep G s s'"
  by (auto intro!: exI istep [of G "Return t"])

section \<open>Schedules\<close>

text \<open>A schedule is a list of actions; those that are not possible are skipped.\<close>

fun run_schedule :: "('t, 'sh, 'pc, 'r) program \<Rightarrow> ('t, 'pc) action list \<Rightarrow>
    ('t, 'sh, 'pc, 'r) threads \<Rightarrow> ('t, 'sh, 'pc, 'r) threads" where
  "run_schedule G [] s = s"
| "run_schedule G (a # as) s =
     run_schedule G as (case act G a s of None \<Rightarrow> s | Some s' \<Rightarrow> s')"

lemma run_schedule_append: "run_schedule G (as @ bs) s = run_schedule G bs (run_schedule G as s)"
  by (induction as arbitrary: s) simp_all

lemma reachable_schedule:
  "reachable init (tstep G) s \<Longrightarrow> reachable init (tstep G) (run_schedule G as s)"
proof (induction as arbitrary: s)
  case Nil
  then show ?case by simp
next
  case (Cons a as)
  then have "reachable init (tstep G) (case act G a s of None \<Rightarrow> s | Some s' \<Rightarrow> s')"
    by (auto split: option.splits intro: reach_step [where s = s] tstep [of G a])
  with Cons.IH show ?case by simp
qed

lemma tsteps_schedule: "(tstep G)\<^sup>*\<^sup>* s (run_schedule G as s)"
proof (induction as arbitrary: s)
  case Nil
  then show ?case by simp
next
  case (Cons a as)
  have "(tstep G)\<^sup>*\<^sup>* s (case act G a s of None \<Rightarrow> s | Some s' \<Rightarrow> s')"
    by (auto split: option.splits intro: tstep [of G a])
  from rtranclp_trans [OF this Cons.IH] show ?case by simp
qed

lemma isteps_schedule: "list_all internal as \<Longrightarrow> (istep G)\<^sup>*\<^sup>* s (run_schedule G as s)"
proof (induction as arbitrary: s)
  case Nil
  then show ?case by simp
next
  case (Cons a as)
  then have "(istep G)\<^sup>*\<^sup>* s (case act G a s of None \<Rightarrow> s | Some s' \<Rightarrow> s')"
    by (auto split: option.splits intro: istep [of G a])
  moreover have "(istep G)\<^sup>*\<^sup>* u (run_schedule G as u)" for u
    using Cons by simp
  ultimately show ?case by (simp add: rtranclp_trans)
qed

lemma reachable_steps:
  assumes "(step)\<^sup>*\<^sup>* s s'" and "reachable init step s"
  shows "reachable init step s'"
  using assms by (induction rule: rtranclp_induct) (auto intro: reach_step)

section \<open>Mutual exclusion\<close>

text \<open>
  The kernel mutex \<open>m\<close> is held exactly by the thread whose counter is in the critical section
  \<open>H\<close>, and its release frees it. Locking and unlocking keep this for every kernel mutex with
  the documented behaviour.
\<close>

definition mutex_excl :: "('t, 'm) mut_ops \<Rightarrow> 'm \<Rightarrow> ('t \<Rightarrow> 'pc) \<Rightarrow> ('pc \<Rightarrow> bool) \<Rightarrow> bool" where
  "mutex_excl M m pcs H \<longleftrightarrow>
     (case own M m of
        None \<Rightarrow> \<forall>t. \<not> H (pcs t)
      | Some t \<Rightarrow> own M (mut_unlock M m) = None \<and> (\<forall>u. H (pcs u) \<longleftrightarrow> u = t))"

lemma excl_init:
  "mutex_laws M \<Longrightarrow> (\<And>t. \<not> H (pcs t)) \<Longrightarrow> mutex_excl M (mut_init M) pcs H"
  by (simp add: mutex_excl_def mutex_lawsD(1))

lemma excl_lock:
  assumes "mutex_laws M" and "mutex_excl M m pcs H" and "mut_take M t m = Some m'"
    and "\<not> H (pcs t)" and "H p"
  shows "mutex_excl M m' (pcs(t := p)) H"
proof (cases "own M m")
  case None
  with assms mutex_lawsD(3,4) [OF assms(1) None assms(3)] show ?thesis
    by (auto simp: mutex_excl_def)
next
  case (Some u)
  with assms have "u \<noteq> t" by (auto simp: mutex_excl_def)
  with mutex_lawsD(5) [OF assms(1) Some] assms(3) show ?thesis by simp
qed

lemma excl_unlock:
  assumes "mutex_excl M m pcs H" and "H (pcs t)" and "\<not> H p"
  shows "mutex_excl M (mut_unlock M m) (pcs(t := p)) H"
  using assms by (cases "own M m") (auto simp: mutex_excl_def)

lemma excl_stay: "H (pcs t) = H p \<Longrightarrow> mutex_excl M m (pcs(t := p)) H = mutex_excl M m pcs H"
  by (auto simp: mutex_excl_def split: option.split)

lemma excl_blocked:
  assumes "mutex_laws M" and "mutex_excl M m pcs H" and "mut_take M t m = None"
  shows "\<exists>u. H (pcs u)"
  using assms(2,3) mutex_lawsD(2) [OF assms(1), of m t]
  by (auto simp: mutex_excl_def split: option.splits)

text \<open>Counting inside the critical section: at most the holder is there.\<close>

lemma excl_unique:
  assumes "mutex_excl M m pcs H" and "H (pcs t)" and "H (pcs u)"
  shows "u = t"
proof (cases "own M m")
  case None
  with assms(1,2) show ?thesis by (simp add: mutex_excl_def)
next
  case (Some x)
  have "own M (mut_unlock M m) = None \<and> (\<forall>u. H (pcs u) \<longleftrightarrow> u = x)"
    using assms(1) unfolding mutex_excl_def Some option.case .
  then have "u = x" "t = x" using assms(2,3) by blast+
  then show ?thesis by simp
qed

lemma excl_alone:
  assumes "mutex_excl M m pcs H" and "H (pcs t)" and "\<And>p. Q p \<Longrightarrow> H p"
  shows "num_at pcs Q = of_bool (Q (pcs t))"
proof -
  have "threads_at pcs Q \<subseteq> {t}"
    using excl_unique [OF assms(1,2) assms(3)] unfolding threads_at_def by blast
  then have "threads_at pcs Q = (if Q (pcs t) then {t} else {})"
    by (cases "Q (pcs t)") (auto simp: threads_at_def)
  then show ?thesis by (simp add: num_at_def)
qed

section \<open>Programs whose calls end unless they block\<close>

text \<open>
  The interface: a weight of the program counters that every move of a call decreases. Then
  a run without new calls has at most as many steps as the weight of its first state.
\<close>

locale terminating_program =
  fixes prog :: "'p \<Rightarrow> ('t, 'sh, 'pc, 'r) program"
    and weight :: "'pc \<Rightarrow> nat"
  assumes code_less: "code (prog p) t sh pc = Some (sh', pc') \<Longrightarrow> weight pc' < weight pc"
    and expire_less: "expire (prog p) t sh pc = Some (sh', pc') \<Longrightarrow> weight pc' < weight pc"
    and result_pos: "result (prog p) pc = Some r \<Longrightarrow> 0 < weight pc"
    and weight_idle: "weight (idle (prog p)) = 0"
begin

definition active :: "('t, 'sh, 'pc, 'r) threads \<Rightarrow> 't set" where
  "active s = threads_at (pc_of s) (\<lambda>pc. 0 < weight pc)"

definition work :: "('t, 'sh, 'pc, 'r) threads \<Rightarrow> nat" where
  "work s = (\<Sum>t\<in>active s. weight (pc_of s t))"

lemma work_superset:
  assumes "finite A" and "active s \<subseteq> A"
  shows "work s = (\<Sum>t\<in>A. weight (pc_of s t))"
  unfolding work_def using assms
  by (intro sum.mono_neutral_left) (auto simp: active_def threads_at_def)

lemma work_less:
  assumes "finite (active s)" and "pc_of s' = (pc_of s)(t := pc)" and "weight pc < weight (pc_of s t)"
  shows "work s' < work s" and "finite (active s')"
proof -
  have t: "t \<in> active s" using assms(3) by (auto simp: active_def threads_at_def)
  have "active s' \<subseteq> active s"
    using assms t by (auto simp: active_def threads_at_def split: if_splits)
  then have "work s' = (\<Sum>u\<in>active s. weight (pc_of s' u))" and "finite (active s')"
    using assms(1) by (auto intro: work_superset finite_subset)
  moreover have "(\<Sum>u\<in>active s. weight (pc_of s' u)) < (\<Sum>u\<in>active s. weight (pc_of s u))"
    using assms t by (intro sum_strict_mono_ex1) (auto intro!: bexI [of _ t])
  ultimately show "work s' < work s" and "finite (active s')" by (simp_all add: work_def)
qed

lemma istep_less:
  assumes "finite (active s)" and "istep (prog p) s s'"
  shows "work s' < work s \<and> finite (active s')"
  using assms(2)
proof (cases rule: istep_cases)
  case (move t sh pc)
  with work_less [OF assms(1), of s' t pc] code_less show ?thesis by force
next
  case (expire t sh pc)
  with work_less [OF assms(1), of s' t pc] expire_less show ?thesis by force
next
  case (return t r)
  with work_less [OF assms(1), of s' t "idle (prog p)"] result_pos weight_idle show ?thesis by force
qed

text \<open>Every run without new calls is finite, with a bound known in advance.\<close>

lemma istep_bounded:
  assumes "finite (active s)" and "((istep (prog p)) ^^ n) s s'"
  shows "n + work s' \<le> work s \<and> finite (active s')"
  using assms(2)
proof (induction n arbitrary: s')
  case 0
  with assms(1) show ?case by simp
next
  case (Suc n)
  then obtain u where "((istep (prog p)) ^^ n) s u" "istep (prog p) u s'" by auto
  with Suc.IH [of u] istep_less [of u p s'] show ?case by linarith
qed

text \<open>So every state runs on to one in which no call can move.\<close>

lemma quiescent_exists:
  assumes "finite (active s)"
  shows "\<exists>s'. (istep (prog p))\<^sup>*\<^sup>* s s' \<and> (\<nexists>s''. istep (prog p) s' s'')"
  using assms
proof (induction "work s" arbitrary: s rule: less_induct)
  case less
  show ?case
  proof (cases "\<exists>s'. istep (prog p) s s'")
    case True
    then obtain s' where s': "istep (prog p) s s'" by blast
    with less.hyps [of s'] less.prems istep_less [OF less.prems s'] show ?thesis
      by (meson converse_rtranclp_into_rtranclp)
  next
    case False
    then show ?thesis by blast
  qed
qed

end

end
