(* ===== verification/Barrier.thy ===== *)
theory Barrier
  imports Threads
begin

text \<open>
  \<open>src/src/posix_pthread_barrier.c\<close>: barriers, over a kernel semaphore and a kernel mutex.
  \<open>pthread_barrier_wait\<close> is a program in the sense of Threads: every access to the barrier is
  a step of its own, so that the read of \<open>cur_thread\<close> after the mutex is released, the post
  and the wait interleave with other threads.
\<close>

definition PTHREAD_BARRIER_SERIAL_THREAD :: int where
  "PTHREAD_BARRIER_SERIAL_THREAD = - 2"

record ('s, 'm) pthread_barrier =
  cur_thread :: u32
  threshold :: u32
  b_sem :: 's
  b_mux :: 'm

section \<open>Operations\<close>

definition pthread_barrier_destroy ::
    "('s, 'm) pthread_barrier \<Rightarrow> ret \<times> ('s, 'm) pthread_barrier" where
  "pthread_barrier_destroy b = (OK, b)"

definition pthread_barrier_init ::
    "'s sem_ops \<Rightarrow> ('t, 'm) mut_ops \<Rightarrow> ('s, 'm) pthread_barrier \<Rightarrow> u32 \<Rightarrow>
       ret \<times> ('s, 'm) pthread_barrier" where
  "pthread_barrier_init S M b count =
     (let ret = (if count = 0 then Err EINVAL else OK)
      in if ret = OK
         then (ret, b\<lparr>b_sem := sem_init S 0, b_mux := mut_init M, cur_thread := 0, threshold := count\<rparr>)
         else (ret, b))"

text \<open>
  The points of \<open>pthread_barrier_wait\<close>. \<open>BLock\<close> is before \<open>mut_lock\<close>, \<open>BTest\<close> before the test
  of \<open>cur_thread\<close>, \<open>BFull\<close> and \<open>BUnlock cur\<close> before the two calls of \<open>mut_unlock\<close>, \<open>BReread\<close>
  before the second test, \<open>BPost\<close> before \<open>sem_post_n\<close>, \<open>BGet\<close> before \<open>sem_get\<close>; \<open>BDone r\<close>
  returns \<open>r\<close>, an error code or an \<open>int\<close>.
\<close>

datatype bpc =
    BIdle | BLock | BTest | BFull | BUnlock int | BReread int | BPost int | BGet int
  | BDone "errno + int"

fun pthread_barrier_wait ::
    "'s sem_ops \<Rightarrow> ('t, 'm) mut_ops \<Rightarrow> 't \<Rightarrow> ('s, 'm) pthread_barrier \<Rightarrow> bpc \<Rightarrow>
       (('s, 'm) pthread_barrier \<times> bpc) option" where
  "pthread_barrier_wait S M t b BIdle = None"
| "pthread_barrier_wait S M t b BLock =
     map_option (\<lambda>m. (b\<lparr>b_mux := m\<rparr>, BTest)) (mut_take M t (b_mux b))"
| "pthread_barrier_wait S M t b BTest =
     (if cur_thread b \<ge> threshold b then Some (b, BFull)
      else (let cur = cur_thread b + 1 in Some (b\<lparr>cur_thread := cur\<rparr>, BUnlock (s32 (uint cur)))))"
| "pthread_barrier_wait S M t b BFull =
     Some (b\<lparr>b_mux := mut_unlock M (b_mux b)\<rparr>, BDone (Inl EINVAL))"
| "pthread_barrier_wait S M t b (BUnlock cur) =
     Some (b\<lparr>b_mux := mut_unlock M (b_mux b)\<rparr>, BReread cur)"
| "pthread_barrier_wait S M t b (BReread cur) =
     Some (b, if cur_thread b \<ge> threshold b then BPost cur else BGet cur)"
| "pthread_barrier_wait S M t b (BPost cur) =
     Some (b\<lparr>b_sem := sem_post_n S (b_sem b) (threshold b)\<rparr>, BGet cur)"
| "pthread_barrier_wait S M t b (BGet cur) =
     map_option (\<lambda>s. (b\<lparr>b_sem := s\<rparr>,
       BDone (Inr (if cur = 1 then PTHREAD_BARRIER_SERIAL_THREAD else 0)))) (sem_take S (b_sem b))"
| "pthread_barrier_wait S M t b (BDone r) = None"

fun barrier_result :: "bpc \<Rightarrow> (errno + int) option" where
  "barrier_result (BDone r) = Some r"
| "barrier_result _ = None"

definition barrier_program ::
    "'s sem_ops \<times> ('t, 'm) mut_ops \<Rightarrow> ('t, ('s, 'm) pthread_barrier, bpc, errno + int) program" where
  "barrier_program p =
     \<lparr>code = pthread_barrier_wait (fst p) (snd p), expire = (\<lambda>_ _ _. None), entry = (\<lambda>pc. pc = BLock), idle = BIdle,
      result = barrier_result\<rparr>"

text \<open>Threads start on a barrier that \<open>pthread_barrier_init\<close> has initialised.\<close>

definition barrier_start ::
    "'s sem_ops \<times> ('t, 'm) mut_ops \<Rightarrow> ('t, ('s, 'm) pthread_barrier, bpc, errno + int) threads \<Rightarrow> bool" where
  "barrier_start p s \<longleftrightarrow>
     (\<exists>b count. pthread_barrier_init (fst p) (snd p) b count = (OK, shared s)) \<and>
     pc_of s = (\<lambda>_. BIdle) \<and> returned s = []"

abbreviation barrier_reachable where
  "barrier_reachable p \<equiv> reachable (barrier_start p) (tstep (barrier_program p))"

section \<open>Invariant\<close>

text \<open>Where a thread is: in the critical section, counted but not through, about to post, through.\<close>

fun b_holding :: "bpc \<Rightarrow> bool" where
  "b_holding BTest \<longleftrightarrow> True"
| "b_holding BFull \<longleftrightarrow> True"
| "b_holding (BUnlock cur) \<longleftrightarrow> True"
| "b_holding _ \<longleftrightarrow> False"

fun b_inside :: "bpc \<Rightarrow> bool" where
  "b_inside (BUnlock cur) \<longleftrightarrow> True"
| "b_inside (BReread cur) \<longleftrightarrow> True"
| "b_inside (BPost cur) \<longleftrightarrow> True"
| "b_inside (BGet cur) \<longleftrightarrow> True"
| "b_inside _ \<longleftrightarrow> False"

fun b_pending :: "bpc \<Rightarrow> bool" where
  "b_pending (BUnlock cur) \<longleftrightarrow> True"
| "b_pending (BReread cur) \<longleftrightarrow> True"
| "b_pending (BPost cur) \<longleftrightarrow> True"
| "b_pending _ \<longleftrightarrow> False"

fun b_posting :: "bpc \<Rightarrow> bool" where
  "b_posting (BPost cur) \<longleftrightarrow> True"
| "b_posting _ \<longleftrightarrow> False"

fun through :: "errno + int \<Rightarrow> bool" where
  "through (Inl e) \<longleftrightarrow> False"
| "through (Inr n) \<longleftrightarrow> True"

fun b_through :: "bpc \<Rightarrow> bool" where
  "b_through (BDone r) \<longleftrightarrow> through r"
| "b_through _ \<longleftrightarrow> False"

fun b_serial :: "bpc \<Rightarrow> bool" where
  "b_serial (BUnlock cur) \<longleftrightarrow> cur = 1"
| "b_serial (BReread cur) \<longleftrightarrow> cur = 1"
| "b_serial (BPost cur) \<longleftrightarrow> cur = 1"
| "b_serial (BGet cur) \<longleftrightarrow> cur = 1"
| "b_serial (BDone r) \<longleftrightarrow> r = Inr PTHREAD_BARRIER_SERIAL_THREAD"
| "b_serial _ \<longleftrightarrow> False"

text \<open>Threads that are through, and calls that returned the serial value.\<close>

definition passed :: "('t, 'sh, bpc, errno + int) threads \<Rightarrow> nat" where
  "passed s = num_at (pc_of s) b_through + length (filter through (returned s))"

definition serials :: "('t, 'sh, bpc, errno + int) threads \<Rightarrow> nat" where
  "serials s = num_at (pc_of s) b_serial +
     count_list (returned s) (Inr PTHREAD_BARRIER_SERIAL_THREAD)"

text \<open>
  The books of a barrier: \<open>n\<close> threads counted of \<open>c\<close>, value \<open>v\<close> of the semaphore, and the
  numbers of threads inside, with the post still ahead of them, at the post, through, and
  with the serial value.
\<close>

definition books :: "nat \<Rightarrow> nat \<Rightarrow> nat \<Rightarrow> nat \<Rightarrow> nat \<Rightarrow> nat \<Rightarrow> nat \<Rightarrow> nat \<Rightarrow> bool" where
  "books n c v ins pend post thr ser \<longleftrightarrow>
     0 < c \<and> n \<le> c \<and> n = ins + thr \<and> post \<le> pend \<and> ser = of_bool (0 < n) \<and>
     (n < c \<longrightarrow> v = 0 \<and> post = 0 \<and> thr = 0) \<and>
     (n = c \<longrightarrow> 0 < pend \<or> c \<le> v + thr)"

lemma books_enter:
  "books n c v ins pend post thr ser \<Longrightarrow> n < c \<Longrightarrow>
     books (Suc n) c v (Suc ins) (Suc pend) post thr (if n = 0 then Suc ser else ser)"
  by (auto simp: books_def)

lemma books_see_full:
  "books n c v ins pend post thr ser \<Longrightarrow> c \<le> n \<Longrightarrow> post < pend \<Longrightarrow>
     books n c v ins pend (Suc post) thr ser"
  by (auto simp: books_def)

lemma books_see_open:
  "books n c v ins pend post thr ser \<Longrightarrow> n < c \<Longrightarrow> books n c v ins (pend - Suc 0) post thr ser"
  by (auto simp: books_def)

lemma books_post:
  "books n c v ins pend post thr ser \<Longrightarrow> 0 < post \<Longrightarrow>
     books n c (v + c) ins (pend - Suc 0) (post - Suc 0) thr ser"
  by (auto simp: books_def)

lemma books_get:
  "books n c (Suc v) ins pend post thr ser \<Longrightarrow> 0 < ins \<Longrightarrow>
     books n c v (ins - Suc 0) pend post (Suc thr) ser"
  by (auto simp: books_def)

definition barrier_counts :: "'s sem_ops \<Rightarrow>
    ('t, ('s, 'm) pthread_barrier, bpc, errno + int) threads \<Rightarrow> bool" where
  "barrier_counts S s \<longleftrightarrow>
     finite (threads_at (pc_of s) (\<lambda>pc. pc \<noteq> BIdle)) \<and>
     books (unat (cur_thread (shared s))) (unat (threshold (shared s))) (sem_val S (b_sem (shared s)))
       (num_at (pc_of s) b_inside) (num_at (pc_of s) b_pending) (num_at (pc_of s) b_posting)
       (passed s) (serials s)"

definition barrier_inv :: "'s sem_ops \<times> ('t, 'm) mut_ops \<Rightarrow>
    ('t, ('s, 'm) pthread_barrier, bpc, errno + int) threads \<Rightarrow> bool" where
  "barrier_inv p s \<longleftrightarrow>
     barrier_counts (fst p) s \<and> mutex_excl (snd p) (b_mux (shared s)) (pc_of s) b_holding"

definition kernel_ok :: "'s sem_ops \<times> ('t, 'm) mut_ops \<Rightarrow> bool" where
  "kernel_ok p \<longleftrightarrow> counting_sem (fst p) \<and> mutex_laws (snd p)"

lemma s32_u32_eq_1: "s32 (uint (w :: u32)) = 1 \<longleftrightarrow> w = 1"
proof
  assume "s32 (uint w) = 1"
  then have "take_bit 32 (signed_take_bit 31 (uint w)) = take_bit 32 (1 :: int)"
    by (simp add: s32_def swrap_def)
  then have "uint w = 1"
    by (simp add: take_bit_signed_take_bit take_bit_int_eq_self)
  then show "w = 1" by (simp add: word_uint_eq_iff)
qed (simp add: c_arith)

lemma barrier_mutex_step:
  assumes "mutex_laws M" and "mutex_excl M (b_mux (shared s)) (pc_of s) b_holding"
    and "tstep (barrier_program (S, M)) s s'"
  shows "mutex_excl M (b_mux (shared s')) (pc_of s') b_holding"
  using assms(3)
proof (cases rule: tstep_cases)
  case (call t p)
  with assms(2) show ?thesis by (simp add: barrier_program_def excl_stay)
next
  case (expire t sh p)
  then show ?thesis by (simp add: barrier_program_def)
next
  case (return t r)
  with assms(2) show ?thesis
    by (cases "pc_of s t") (simp_all add: barrier_program_def excl_stay)
next
  case (move t sh p)
  then show ?thesis
    using assms(1,2)
    by (cases "pc_of s t")
      (auto simp: barrier_program_def excl_stay excl_unlock Let_def intro: excl_lock split: if_splits)
qed

lemma unat_add_1: "(a :: u32) < b \<Longrightarrow> unat (a + 1) = Suc (unat a)"
  using u32_unat_less [of b] by (simp add: word_less_nat_alt unat_word_ariths)

lemma Suc_pred_add: "0 < n \<Longrightarrow> Suc (n - Suc 0 + l) = n + l"
  by simp

lemma at_places:
  assumes "finite (threads_at pcs (\<lambda>pc. pc \<noteq> BIdle))"
  shows "finite (threads_at pcs b_inside)" "finite (threads_at pcs b_pending)"
    "finite (threads_at pcs b_posting)" "finite (threads_at pcs b_through)"
    "finite (threads_at pcs b_serial)"
  using assms by (auto intro: finite_at)

lemmas barrier_simps = barrier_program_def barrier_counts_def passed_def serials_def num_at_moves
  at_places

lemma barrier_counts_finite:
  "barrier_counts S s \<Longrightarrow> finite (threads_at (pc_of s) (\<lambda>pc. pc \<noteq> BIdle))"
  by (simp add: barrier_counts_def)

lemma barrier_counts_pos:
  assumes "barrier_counts S s" and "Q (pc_of s t)" and "\<not> Q BIdle"
  shows "0 < num_at (pc_of s) Q"
  using finite_at [OF barrier_counts_finite [OF assms(1)], of Q] assms by (intro num_at_pos)

text \<open>The moves that change the books.\<close>

lemma barrier_counts_enter:
  assumes "barrier_counts S s" and "pc_of s t = BTest"
    and "code (barrier_program (S, M)) t (shared s) BTest = Some (sh, p)"
  shows "barrier_counts S (s\<lparr>shared := sh, pc_of := (pc_of s)(t := p)\<rparr>)"
proof (cases "cur_thread (shared s) \<ge> threshold (shared s)")
  case True
  with assms show ?thesis by (auto simp: barrier_simps)
next
  case False
  let ?c = "cur_thread (shared s)"
  have less: "?c < threshold (shared s)" using False by (simp add: not_le)
  have first: "s32 (uint (?c + 1)) = 1 \<longleftrightarrow> unat ?c = 0"
    by (simp add: s32_u32_eq_1 unat_eq_0)
  have "books (Suc (unat ?c)) (unat (threshold (shared s))) (sem_val S (b_sem (shared s)))
      (Suc (num_at (pc_of s) b_inside)) (Suc (num_at (pc_of s) b_pending))
      (num_at (pc_of s) b_posting) (passed s)
      (if unat ?c = 0 then Suc (serials s) else serials s)"
    using assms(1) less by (intro books_enter) (simp_all add: barrier_counts_def word_less_nat_alt)
  with assms(2,3) barrier_counts_finite [OF assms(1)] False less first show ?thesis
    by (auto simp: barrier_simps Let_def unat_add_1)
qed

lemma barrier_counts_reread:
  assumes "barrier_counts S s" and "pc_of s t = BReread cur"
    and "code (barrier_program (S, M)) t (shared s) (BReread cur) = Some (sh, p)"
  shows "barrier_counts S (s\<lparr>shared := sh, pc_of := (pc_of s)(t := p)\<rparr>)"
proof -
  have "num_at (pc_of s) b_posting < num_at (pc_of s) b_pending"
    by (rule num_at_less [where t = t])
      (use barrier_counts_finite [OF assms(1)] assms(2) in
        \<open>auto simp: at_places elim: b_posting.elims\<close>)
  with assms show ?thesis
    by (auto simp: barrier_simps word_le_nat_alt not_le split: if_splits
        intro: books_see_full books_see_open)
qed

lemma barrier_counts_get:
  assumes "counting_sem S" and "barrier_counts S s" and "pc_of s t = BGet cur"
    and "code (barrier_program (S, M)) t (shared s) (BGet cur) = Some (sh, p)"
  shows "barrier_counts S (s\<lparr>shared := sh, pc_of := (pc_of s)(t := p)\<rparr>)"
proof -
  from assms(4) obtain z where z: "sem_take S (b_sem (shared s)) = Some z"
      "sh = shared s\<lparr>b_sem := z\<rparr>"
      "p = BDone (Inr (if cur = 1 then PTHREAD_BARRIER_SERIAL_THREAD else 0))"
    by (auto simp: barrier_program_def)
  have v: "sem_val S (b_sem (shared s)) = Suc (sem_val S z)"
    using counting_semD(5) [OF assms(1) z(1)] by simp
  have "0 < num_at (pc_of s) b_inside"
    using barrier_counts_pos [OF assms(2), of b_inside t] assms(3) by simp
  with assms(2) have "books (unat (cur_thread (shared s))) (unat (threshold (shared s)))
      (sem_val S z) (num_at (pc_of s) b_inside - Suc 0) (num_at (pc_of s) b_pending)
      (num_at (pc_of s) b_posting) (Suc (passed s)) (serials s)"
    by (intro books_get) (simp_all add: barrier_counts_def v)
  with assms(3) z barrier_counts_finite [OF assms(2)] show ?thesis
    by (auto simp: barrier_simps PTHREAD_BARRIER_SERIAL_THREAD_def)
qed

lemma barrier_counts_step:
  assumes "counting_sem S" and "barrier_counts S s"
    and "tstep (barrier_program (S, M)) s s'"
  shows "barrier_counts S s'"
  using assms(3)
proof (cases rule: tstep_cases)
  case (call t p)
  with assms(2) show ?thesis by (simp add: barrier_simps)
next
  case (expire t sh p)
  then show ?thesis by (simp add: barrier_program_def)
next
  case (return t r)
  with assms(2) barrier_counts_pos [OF assms(2), of b_through t]
    barrier_counts_pos [OF assms(2), of b_serial t]
  show ?thesis
    by (cases "pc_of s t"; cases r) (auto simp: barrier_simps Suc_pred_add)
next
  case (move t sh p)
  note pos = barrier_counts_pos [OF assms(2), of b_posting t]
  show ?thesis
  proof (cases "pc_of s t")
    case (BPost cur)
    with pos move assms(2) show ?thesis
      by (auto simp: barrier_simps counting_semD(3) [OF assms(1)] intro: books_post)
  qed (use move assms(2) barrier_counts_enter [OF assms(2), of t M sh p]
      barrier_counts_reread [OF assms(2), of t _ M sh p]
      barrier_counts_get [OF assms(1,2), of t _ M sh p] in \<open>auto simp: barrier_simps\<close>)
qed

lemma barrier_inv_start:
  assumes "kernel_ok p" and "barrier_start p s"
  shows "barrier_inv p s"
proof -
  from assms(2) obtain b count where
    b: "pthread_barrier_init (fst p) (snd p) b count = (OK, shared s)" and
    s: "pc_of s = (\<lambda>_. BIdle)" "returned s = []"
    by (auto simp: barrier_start_def)
  from b have count: "count \<noteq> 0" and
    sh: "shared s = b\<lparr>b_sem := sem_init (fst p) 0, b_mux := mut_init (snd p), cur_thread := 0,
      threshold := count\<rparr>"
    by (auto simp: pthread_barrier_init_def Let_def split: if_splits)
  have "barrier_counts (fst p) s"
    using counting_semD(1) [of "fst p" 0] assms(1) count
    by (simp add: barrier_counts_def books_def passed_def serials_def num_at_def threads_at_def s sh
        kernel_ok_def unat_gt_0)
  moreover have "mutex_excl (snd p) (b_mux (shared s)) (pc_of s) b_holding"
    using assms(1) by (simp add: s sh excl_init kernel_ok_def)
  ultimately show ?thesis by (simp add: barrier_inv_def)
qed

interpretation bs: invariant_system kernel_ok barrier_start
  "\<lambda>p. tstep (barrier_program p)" barrier_inv
proof unfold_locales
  fix p :: "'s sem_ops \<times> ('t, 'm) mut_ops" and s s'
  assume p: "kernel_ok p"
  show "barrier_inv p s" if "barrier_start p s"
    using p that by (rule barrier_inv_start)
  assume inv: "barrier_inv p s" and step: "tstep (barrier_program p) s s'"
  have "barrier_counts (fst p) s'"
    by (rule barrier_counts_step [of _ _ "snd p"]) (use p inv step in \<open>simp_all add: kernel_ok_def barrier_inv_def\<close>)
  moreover have "mutex_excl (snd p) (b_mux (shared s')) (pc_of s') b_holding"
    by (rule barrier_mutex_step [of _ s "fst p"]) (use p inv step in \<open>simp_all add: kernel_ok_def barrier_inv_def\<close>)
  ultimately show "barrier_inv p s'" by (simp add: barrier_inv_def)
qed

text \<open>A call has at most seven steps.\<close>

fun b_weight :: "bpc \<Rightarrow> nat" where
  "b_weight BIdle = 0"
| "b_weight (BDone r) = 1"
| "b_weight (BGet cur) = 2"
| "b_weight (BPost cur) = 3"
| "b_weight (BReread cur) = 4"
| "b_weight BFull = 5"
| "b_weight (BUnlock cur) = 5"
| "b_weight BTest = 6"
| "b_weight BLock = 7"

interpretation bt: terminating_program barrier_program b_weight
proof unfold_locales
  fix p :: "'s sem_ops \<times> ('t, 'm) mut_ops" and t sh pc sh' pc' and r :: "errno + int"
  show "b_weight pc' < b_weight pc" if "code (barrier_program p) t sh pc = Some (sh', pc')"
    using that by (cases pc) (auto simp: barrier_program_def Let_def split: if_splits)
  show "b_weight pc' < b_weight pc" if "expire (barrier_program p) t sh pc = Some (sh', pc')"
    using that by (simp add: barrier_program_def)
  show "0 < b_weight pc" if "result (barrier_program p) pc = Some r"
    using that by (cases pc) (auto simp: barrier_program_def)
  show "b_weight (idle (barrier_program p)) = 0"
    by (simp add: barrier_program_def)
qed

section \<open>A full barrier\<close>

definition barrier_full :: "('t, ('s, 'm) pthread_barrier, bpc, errno + int) threads \<Rightarrow> bool" where
  "barrier_full s \<longleftrightarrow> threshold (shared s) \<le> cur_thread (shared s)"

text \<open>Calls that have not been counted, and can only return an error from now on.\<close>

fun b_refused :: "bpc \<Rightarrow> bool" where
  "b_refused (BDone r) \<longleftrightarrow> r = Inl EINVAL"
| "b_refused (BUnlock cur) \<longleftrightarrow> False"
| "b_refused (BReread cur) \<longleftrightarrow> False"
| "b_refused (BPost cur) \<longleftrightarrow> False"
| "b_refused (BGet cur) \<longleftrightarrow> False"
| "b_refused _ \<longleftrightarrow> True"

lemma full_step:
  assumes "barrier_full s" and "tstep (barrier_program p) s s'"
  shows "barrier_full s' \<and> threshold (shared s') = threshold (shared s) \<and>
    (b_refused (pc_of s t) \<longrightarrow> b_refused (pc_of s' t))"
  using assms(2)
proof (cases rule: tstep_cases)
  case (call u pc)
  with assms(1) show ?thesis by (simp add: barrier_program_def barrier_full_def)
next
  case (expire u sh pc)
  then show ?thesis by (simp add: barrier_program_def)
next
  case (return u r)
  with assms(1) show ?thesis by (simp add: barrier_program_def barrier_full_def)
next
  case (move u sh pc)
  with assms(1) show ?thesis
    by (cases "pc_of s u")
      (auto simp: barrier_program_def barrier_full_def Let_def split: if_splits)
qed

lemma full_steps:
  assumes "(tstep (barrier_program p))\<^sup>*\<^sup>* s s'" and "barrier_full s"
  shows "barrier_full s' \<and> threshold (shared s') = threshold (shared s) \<and>
    (b_refused (pc_of s t) \<longrightarrow> b_refused (pc_of s' t))"
  using assms
proof (induction rule: rtranclp_induct)
  case base
  then show ?case by simp
next
  case (step u v)
  with full_step [OF _ step.hyps(2), of t] show ?case by auto
qed

text \<open>When no call can move on a full barrier, none is left.\<close>

lemma quiescent_at:
  assumes "mutex_laws M" and "mutex_excl M (b_mux (shared s)) (pc_of s) b_holding"
    and "\<nexists>s'. istep (barrier_program (S, M)) s s'"
  shows "pc_of s t = BIdle \<or>
    (\<exists>cur. pc_of s t = BGet cur) \<and> sem_take S (b_sem (shared s)) = None"
proof -
  have stuck: "code (barrier_program (S, M)) u (shared s) (pc_of s u) = None"
    "result (barrier_program (S, M)) (pc_of s u) = None" for u
    using istep_moveI [of "barrier_program (S, M)" u s] istep_returnI [of "barrier_program (S, M)" s u]
      assms(3) by (meson not_None_eq)+
  have "\<not> b_holding (pc_of s u)" for u
    using stuck(1) [of u] by (cases "pc_of s u") (auto simp: barrier_program_def Let_def split: if_splits)
  then have "mut_take M t (b_mux (shared s)) \<noteq> None"
    using excl_blocked [OF assms(1,2)] by blast
  with stuck [of t] show ?thesis
    by (cases "pc_of s t") (auto simp: barrier_program_def Let_def split: if_splits)
qed

lemma quiescent_full:
  assumes "kernel_ok p" and "barrier_inv p s" and "barrier_full s"
    and "\<nexists>s'. istep (barrier_program p) s s'"
  shows "pc_of s t = BIdle \<and> passed s = unat (threshold (shared s)) \<and> serials s = 1"
proof -
  obtain S M where p: "p = (S, M)" by force
  have laws: "counting_sem S" "mutex_laws M" using assms(1) by (simp_all add: p kernel_ok_def)
  have counts: "barrier_counts S s" using assms(2) by (simp add: p barrier_inv_def)
  have excl: "mutex_excl M (b_mux (shared s)) (pc_of s) b_holding"
    using assms(2) by (simp add: p barrier_inv_def)
  note at = quiescent_at [OF laws(2) excl assms(4) [unfolded p]]
  have "\<not> b_pending (pc_of s u)" for u using at [of u] by auto
  then have "num_at (pc_of s) b_pending = 0" by (simp add: num_at_def threads_at_def)
  moreover have "unat (cur_thread (shared s)) = unat (threshold (shared s))"
    using counts assms(3) by (auto simp: barrier_counts_def books_def barrier_full_def word_le_nat_alt)
  ultimately have b: "unat (threshold (shared s)) \<le> sem_val S (b_sem (shared s)) + passed s"
      "unat (threshold (shared s)) = num_at (pc_of s) b_inside + passed s"
      "serials s = 1"
    using counts by (auto simp: barrier_counts_def books_def)
  have "pc_of s u = BIdle" for u
  proof (rule ccontr)
    assume "pc_of s u \<noteq> BIdle"
    with at [of u] obtain cur where u: "pc_of s u = BGet cur" "sem_take S (b_sem (shared s)) = None"
      by auto
    then have "sem_val S (b_sem (shared s)) = 0" by (simp add: counting_semD(4) [OF laws(1)])
    with b have "num_at (pc_of s) b_inside = 0" by simp
    with barrier_counts_pos [OF counts, of b_inside u] u show False by simp
  qed
  with b show ?thesis by (simp add: num_at_def threads_at_def)
qed

lemma all_idle_passed:
  assumes "\<And>t. pc_of s t = BIdle"
  shows "passed s = length (filter through (returned s))"
    and "serials s = count_list (returned s) (Inr PTHREAD_BARRIER_SERIAL_THREAD)"
  using assms by (simp_all add: passed_def serials_def num_at_def threads_at_def)

section \<open>Properties\<close>

text \<open>
  C1: barrier safety, in every interleaving of any number of threads. The barrier never
  counts more than \<open>threshold\<close> threads; no call gets through (is about to return or has
  returned something other than an error) before exactly \<open>threshold\<close> have been counted; at
  most \<open>threshold\<close> calls ever get through, and once one thread is counted exactly one call
  has or has had the serial value.
\<close>

theorem barrier_safety:
  assumes "kernel_ok p" and "barrier_reachable p s"
  shows "cur_thread (shared s) \<le> threshold (shared s) \<and>
    (passed s = 0 \<or> cur_thread (shared s) = threshold (shared s)) \<and>
    passed s \<le> unat (threshold (shared s)) \<and>
    unat (cur_thread (shared s)) = num_at (pc_of s) b_inside + passed s \<and>
    serials s = of_bool (cur_thread (shared s) \<noteq> 0)"
  using bs.inv_reachable [OF assms]
  by (auto simp: barrier_inv_def barrier_counts_def books_def word_le_nat_alt word_unat_eq_iff)

definition ref_barrier :: "(nat, (nat, nat option) pthread_barrier, bpc, errno + int) threads" where
  "ref_barrier =
     \<lparr>shared = \<lparr>cur_thread = 0, threshold = 2, b_sem = 0, b_mux = None\<rparr>, pc_of = (\<lambda>_. BIdle),
      returned = []\<rparr>"

lemma ref_barrier_start: "barrier_start (ref_sem, ref_mut) ref_barrier"
  by (auto simp: barrier_start_def ref_barrier_def pthread_barrier_init_def Let_def
      intro!: exI [of _ "\<lparr>cur_thread = 0, threshold = 2, b_sem = 0, b_mux = None\<rparr>"] exI [of _ 2])

lemma ref_barrier_run:
  "barrier_reachable (ref_sem, ref_mut) (run_schedule (barrier_program (ref_sem, ref_mut)) as ref_barrier)"
  by (intro reachable_schedule reach_init ref_barrier_start)

lemma ref_kernel_ok: "kernel_ok (ref_sem, ref_mut)"
  by (simp add: kernel_ok_def)

text \<open>One thread enters and waits; it also shows the schedule that fills the barrier.\<close>

definition enter1 :: "(nat, bpc) action list" where
  "enter1 = [Call 1 BLock, Move 1, Move 1, Move 1, Move 1]"

definition enter2 :: "(nat, bpc) action list" where
  "enter2 = enter1 @ [Call 2 BLock, Move 2, Move 2]"

lemmas schedule_simps = ref_barrier_def enter1_def enter2_def barrier_program_def Let_def fun_upd_def

theorem barrier_safety_witness:
  "passed (run_schedule (barrier_program (ref_sem, ref_mut)) enter1 ref_barrier) = 0"
  using barrier_safety [OF ref_kernel_ok ref_barrier_run, of enter1]
  by (simp add: schedule_simps)

text \<open>
  C2: a full barrier opens. From any reachable state in which \<open>threshold\<close> threads have been
  counted, and in whatever order the threads run, calls in progress come to an end: a run
  without new calls is finite with a bound fixed in advance, such a run exists that cannot be
  continued, and in every one that cannot be continued all calls have returned, exactly
  \<open>threshold\<close> of them without error and exactly one of them with the serial value.
\<close>

theorem barrier_opens:
  assumes "kernel_ok p" and "barrier_reachable p s" and "barrier_full s"
  shows "(\<exists>k. \<forall>n s'. ((istep (barrier_program p)) ^^ n) s s' \<longrightarrow> n \<le> k) \<and>
    (\<exists>s'. (istep (barrier_program p))\<^sup>*\<^sup>* s s' \<and> (\<nexists>u. istep (barrier_program p) s' u)) \<and>
    (\<forall>s'. (istep (barrier_program p))\<^sup>*\<^sup>* s s' \<longrightarrow> (\<nexists>u. istep (barrier_program p) s' u) \<longrightarrow>
       (\<forall>t. pc_of s' t = BIdle) \<and>
       length (filter through (returned s')) = unat (threshold (shared s)) \<and>
       count_list (returned s') (Inr PTHREAD_BARRIER_SERIAL_THREAD) = 1)"
proof (intro conjI allI impI)
  have "barrier_inv p s" using assms(1,2) by (rule bs.inv_reachable)
  then have fin: "finite (bt.active s)"
    unfolding bt.active_def barrier_inv_def
    by (intro finite_at [OF barrier_counts_finite]) auto
  show "\<exists>k. \<forall>n s'. ((istep (barrier_program p)) ^^ n) s s' \<longrightarrow> n \<le> k"
    using bt.istep_bounded [OF fin] by (meson add_leE)
  show "\<exists>s'. (istep (barrier_program p))\<^sup>*\<^sup>* s s' \<and> (\<nexists>u. istep (barrier_program p) s' u)"
    using fin by (rule bt.quiescent_exists)
  fix s'
  assume run: "(istep (barrier_program p))\<^sup>*\<^sup>* s s'" and stop: "\<nexists>u. istep (barrier_program p) s' u"
  note steps = isteps_tsteps [OF run]
  have inv: "barrier_inv p s'" using bs.inv_steps [OF assms(1,2) steps] .
  note full = full_steps [OF steps assms(3)]
  note q = quiescent_full [OF assms(1) inv _ stop]
  show idle: "pc_of s' t = BIdle" for t using q full by blast
  show "length (filter through (returned s')) = unat (threshold (shared s))"
    "count_list (returned s') (Inr PTHREAD_BARRIER_SERIAL_THREAD) = 1"
    using q full all_idle_passed [OF idle] by auto
qed

theorem barrier_opens_witness:
  "\<exists>s'. (istep (barrier_program (ref_sem, ref_mut)))\<^sup>*\<^sup>*
      (run_schedule (barrier_program (ref_sem, ref_mut)) enter2 ref_barrier) s' \<and>
    length (filter through (returned s')) = 2"
proof -
  have "barrier_full (run_schedule (barrier_program (ref_sem, ref_mut)) enter2 ref_barrier)"
    by (simp add: schedule_simps barrier_full_def)
  moreover have "threshold (shared (run_schedule (barrier_program (ref_sem, ref_mut)) enter2 ref_barrier)) = 2"
    by (simp add: schedule_simps)
  ultimately show ?thesis
    using barrier_opens [OF ref_kernel_ok ref_barrier_run, of enter2] by auto
qed

text \<open>
  A barrier serves once. After \<open>threshold\<close> threads have been counted nothing resets the
  barrier: in every later state it is still full, and a thread that was not counted by then
  is never counted; whatever it calls, \<open>EINVAL\<close> is all it can get.
\<close>

theorem barrier_not_reusable:
  assumes "(tstep (barrier_program p))\<^sup>*\<^sup>* s s'" and "barrier_full s" and "b_refused (pc_of s t)"
    and "pc_of s' t = BDone r"
  shows "barrier_full s' \<and> r = Inl EINVAL"
  using full_steps [OF assms(1,2), of t] assms(3,4) by simp

theorem barrier_not_reusable_witness:
  "\<exists>s s'. (tstep (barrier_program (ref_sem, ref_mut)))\<^sup>*\<^sup>* s s' \<and> barrier_full s \<and>
    pc_of s' (3 :: nat) = BDone (Inl EINVAL) \<and> barrier_full s'"
proof -
  let ?G = "barrier_program (ref_sem, ref_mut) :: (nat, (nat, nat option) pthread_barrier, bpc, errno + int) program"
  let ?s = "ref_barrier\<lparr>shared := (shared ref_barrier)\<lparr>cur_thread := 2, b_mux := Some 3\<rparr>,
    pc_of := (\<lambda>_. BIdle)(3 := BFull)\<rparr>"
  let ?s' = "ref_barrier\<lparr>shared := (shared ref_barrier)\<lparr>cur_thread := 2, b_mux := None\<rparr>,
    pc_of := (\<lambda>_. BIdle)(3 := BDone (Inl EINVAL))\<rparr>"
  have "tstep ?G ?s ?s'"
    by (rule tstep [of _ "Move 3"]) (simp add: barrier_program_def ref_barrier_def)
  then have "(tstep ?G)\<^sup>*\<^sup>* ?s ?s'" by blast
  moreover have full: "barrier_full ?s" by (simp add: barrier_full_def ref_barrier_def)
  ultimately show ?thesis
    using barrier_not_reusable [of "(ref_sem, ref_mut)" ?s ?s' 3 "Inl EINVAL"]
    by (intro exI [of _ ?s] exI [of _ ?s']) simp
qed

end
