(* ===== verification/Timespec.thy ===== *)
theory Timespec
  imports Kernel
begin

text \<open>
  \<open>src/src/utils.c\<close>: comparing and subtracting times, converting times to kernel ticks and
  nanoseconds to times. A \<open>struct timespec\<close> has a \<open>time_t\<close> and a 32-bit \<open>long\<close>;
  \<open>in_type\<close> says that a model value is a value of the C type.
\<close>

record timespec =
  tv_sec :: int
  tv_nsec :: int

definition in_type :: "platform \<Rightarrow> timespec \<Rightarrow> bool" where
  "in_type P ts \<longleftrightarrow> fits (time_bits P) (tv_sec ts) \<and> fits 32 (tv_nsec ts)"

text \<open>The unit constants of \<open>time.h\<close>; both are \<open>long long\<close>.\<close>

definition NANOSECONDS_PER_SECOND :: int where
  "NANOSECONDS_PER_SECOND = 1000000000"

definition NANOSECONDS_PER_TICK :: "platform \<Rightarrow> int" where
  "NANOSECONDS_PER_TICK P = NANOSECONDS_PER_SECOND sdiv uint (tmr_hz P)"

section \<open>Operations\<close>

definition validate_timespec :: "timespec ptr \<Rightarrow> bool" where
  "validate_timespec p =
     (case p of
        None \<Rightarrow> False
      | Some ts \<Rightarrow> 0 \<le> tv_nsec ts \<and> tv_nsec ts < NANOSECONDS_PER_SECOND)"

definition timespec_cmp :: "timespec ptr \<Rightarrow> timespec ptr \<Rightarrow> int" where
  "timespec_cmp x y =
     (case (x, y) of
        (None, None) \<Rightarrow> 0
      | (_, None) \<Rightarrow> 1
      | (None, _) \<Rightarrow> -1
      | (Some a, Some b) \<Rightarrow>
          if tv_sec a > tv_sec b then 1
          else if tv_sec a < tv_sec b then -1
          else if tv_nsec a > tv_nsec b then 1
          else if tv_nsec a < tv_nsec b then -1
          else 0)"

text \<open>
  The out-parameter is passed with its old contents and returned with its new ones. The
  result is 0, 1 when the difference would be negative, -1 on an error.
\<close>

definition timespec_sub ::
    "platform \<Rightarrow> timespec ptr \<Rightarrow> timespec ptr \<Rightarrow> timespec ptr \<Rightarrow> int \<times> timespec ptr" where
  "timespec_sub P x y result =
     (case (result, x, y) of
        (Some r, Some a, Some b) \<Rightarrow>
          (let cmp = timespec_cmp x y in
           if cmp = -1 then (1, Some r)
           else if cmp = 0 then (0, Some (r\<lparr>tv_sec := 0, tv_nsec := 0\<rparr>))
           else
             (let sec = swrap (time_bits P) (tv_sec a - tv_sec b);
                  nsec = s32 (tv_nsec a - tv_nsec b);
                  r' = (if nsec < 0
                        then r\<lparr>tv_sec := swrap (time_bits P) (sec - 1),
                               tv_nsec := s32 (nsec + s32 NANOSECONDS_PER_SECOND)\<rparr>
                        else r\<lparr>tv_sec := sec, tv_nsec := nsec\<rparr>)
              in (if tv_nsec r' < 0 then -1 else 0, Some r')))
      | _ \<Rightarrow> (-1, result))"

text \<open>
  \<open>unsigned\<close> has 32 bits on this target, so the downcast check of the code is taken. The
  output is written whether or not the conversion overflowed.
\<close>

definition timespec2ticks ::
    "platform \<Rightarrow> timespec ptr \<Rightarrow> u32 ptr \<Rightarrow> ret \<times> u32 ptr" where
  "timespec2ticks P time_spec result =
     (case (time_spec, result) of
        (Some ts, Some _) \<Rightarrow>
          if \<not> validate_timespec time_spec then (Err EINVAL, result)
          else
            (let sec_ticks = s64 (uint (tmr_hz P) * tv_sec ts);
                 npt = s32 (NANOSECONDS_PER_TICK P);
                 nanos = s32 (tv_nsec ts sdiv npt +
                              (if tv_nsec ts smod npt \<noteq> 0 then 1 else 0));
                 total_ticks = s64 (sec_ticks + nanos);
                 ret = (if total_ticks < 0 then Err EINVAL
                        else if total_ticks > 4294967295 then Err EINVAL
                        else OK)
             in (ret, Some (word_of_int total_ticks)))
      | _ \<Rightarrow> (Err EINVAL, result))"

definition abs_timespec2ticks ::
    "platform \<Rightarrow> timespec ptr \<Rightarrow> timespec ptr \<Rightarrow> u32 ptr \<Rightarrow> ret \<times> u32 ptr" where
  "abs_timespec2ticks P abs_time cur_time result =
     (if abs_time = None \<or> cur_time = None \<or> result = None then (Err EINVAL, result)
      else
        (case timespec_sub P abs_time cur_time (Some \<lparr>tv_sec = 0, tv_nsec = 0\<rparr>) of
           (r, diff) \<Rightarrow>
             if r = 1 then (Err ETIMEDOUT, result)
             else if r = -1 then (Err EINVAL, result)
             else timespec2ticks P diff result))"

definition nano2timespec :: "platform \<Rightarrow> int \<Rightarrow> timespec" where
  "nano2timespec P llSource =
     (let sec = swrap (time_bits P) (llSource sdiv NANOSECONDS_PER_SECOND);
          nsec = s32 (llSource smod NANOSECONDS_PER_SECOND)
      in if nsec < 0 then
           (let carry = s32 (nsec sdiv s32 NANOSECONDS_PER_SECOND + 1)
            in \<lparr>tv_sec = swrap (time_bits P) (sec - swrap (time_bits P) carry),
                tv_nsec = s32 (nsec + s32 (carry * s32 NANOSECONDS_PER_SECOND))\<rparr>)
         else \<lparr>tv_sec = sec, tv_nsec = nsec\<rparr>)"

section \<open>Times as numbers\<close>

text \<open>
  The specification side: a time is its total of nanoseconds, times are ordered by their
  fields, and the number of ticks that cover a time is the whole seconds in ticks plus the
  nanoseconds in ticks, rounded up.
\<close>

definition nanos :: "timespec \<Rightarrow> int" where
  "nanos ts = tv_sec ts * 1000000000 + tv_nsec ts"

definition ceil_div :: "int \<Rightarrow> int \<Rightarrow> int" where
  "ceil_div a b = (a + b - 1) div b"

definition ticks_of :: "platform \<Rightarrow> timespec \<Rightarrow> int" where
  "ticks_of P ts = uint (tmr_hz P) * tv_sec ts + ceil_div (tv_nsec ts) (NANOSECONDS_PER_TICK P)"

text \<open>The same of a duration in nanoseconds; a valid time is its total (lemma \<open>ticks_of_span\<close>).\<close>

definition span_ticks :: "platform \<Rightarrow> int \<Rightarrow> int" where
  "span_ticks P D = uint (tmr_hz P) * (D div 1000000000) +
     ceil_div (D mod 1000000000) (NANOSECONDS_PER_TICK P)"

instantiation timespec_ext :: (linorder) linorder
begin

definition less_eq_timespec_ext :: "'a timespec_ext \<Rightarrow> 'a timespec_ext \<Rightarrow> bool" where
  "less_eq_timespec_ext x y \<longleftrightarrow>
     tv_sec x < tv_sec y \<or> tv_sec x = tv_sec y \<and>
       (tv_nsec x < tv_nsec y \<or> tv_nsec x = tv_nsec y \<and> more x \<le> more y)"

definition less_timespec_ext :: "'a timespec_ext \<Rightarrow> 'a timespec_ext \<Rightarrow> bool" where
  "less_timespec_ext x y \<longleftrightarrow> x \<le> y \<and> \<not> y \<le> x"

instance
  by standard (auto simp: less_eq_timespec_ext_def less_timespec_ext_def)

end

lemma timespec_le_iff:
  "(x :: timespec) \<le> y \<longleftrightarrow> tv_sec x < tv_sec y \<or> tv_sec x = tv_sec y \<and> tv_nsec x \<le> tv_nsec y"
  by (auto simp: less_eq_timespec_ext_def)

lemma timespec_less_iff:
  "(x :: timespec) < y \<longleftrightarrow> tv_sec x < tv_sec y \<or> tv_sec x = tv_sec y \<and> tv_nsec x < tv_nsec y"
  by (auto simp: less_timespec_ext_def timespec_le_iff)

lemma validate_iff [simp]:
  "validate_timespec (Some ts) \<longleftrightarrow> 0 \<le> tv_nsec ts \<and> tv_nsec ts < 1000000000"
  by (simp add: validate_timespec_def NANOSECONDS_PER_SECOND_def)

lemma validate_None [simp]: "\<not> validate_timespec None"
  by (simp add: validate_timespec_def)

lemma nanos_less_iff:
  "validate_timespec (Some x) \<Longrightarrow> validate_timespec (Some y) \<Longrightarrow> nanos x < nanos y \<longleftrightarrow> x < y"
  by (auto simp: nanos_def timespec_less_iff)

lemma nanos_le_iff:
  "validate_timespec (Some x) \<Longrightarrow> validate_timespec (Some y) \<Longrightarrow> nanos x \<le> nanos y \<longleftrightarrow> x \<le> y"
  using nanos_less_iff [of y x] by (simp add: linorder_not_less [symmetric])

lemma npt_eq: "NANOSECONDS_PER_TICK P = 1000000000 div uint (tmr_hz P)"
  by (simp add: NANOSECONDS_PER_TICK_def NANOSECONDS_PER_SECOND_def sdiv_nonneg)

lemma npt_pos [plat]: "platform_ok P \<Longrightarrow> 1 \<le> NANOSECONDS_PER_TICK P"
  using platform_hz [of P] by (simp add: npt_eq pos_imp_zdiv_pos_iff int_one_le_iff_zero_less)

lemma npt_le [plat]: "platform_ok P \<Longrightarrow> NANOSECONDS_PER_TICK P \<le> 1000000000"
proof -
  assume P: "platform_ok P"
  have "1000000000 div uint (tmr_hz P) \<le> 1000000000 div 1"
    using platform_hz(1) [OF P] by (intro zdiv_mono2) auto
  then show ?thesis by (simp add: npt_eq)
qed

lemma npt_hz_le:
  assumes "platform_ok P"
  shows "uint (tmr_hz P) * NANOSECONDS_PER_TICK P \<le> 1000000000"
proof -
  have "uint (tmr_hz P) * (1000000000 div uint (tmr_hz P)) + 1000000000 mod uint (tmr_hz P) = 1000000000"
    by (rule mult_div_mod_eq)
  moreover have "0 \<le> 1000000000 mod uint (tmr_hz P)"
    using platform_hz(1) [OF assms] by (rule pos_mod_sign)
  ultimately show ?thesis unfolding npt_eq by linarith
qed

lemma npt_hz_eq:
  "platform_ok P \<Longrightarrow> uint (tmr_hz P) dvd 1000000000 \<Longrightarrow>
     uint (tmr_hz P) * NANOSECONDS_PER_TICK P = 1000000000"
  by (simp add: npt_eq)

lemma s32_npt [c_arith]: "platform_ok P \<Longrightarrow> s32 (NANOSECONDS_PER_TICK P) = NANOSECONDS_PER_TICK P"
  using npt_pos [of P] npt_le [of P] by (intro s32_id) auto

lemma ceil_div_code:
  assumes "0 \<le> n" and "0 < b"
  shows "n sdiv b + (if n smod b \<noteq> 0 then 1 else 0) = ceil_div n b"
proof -
  have n: "n = b * (n div b) + n mod b" by simp
  have r: "0 \<le> n mod b" "n mod b < b" using assms(2) by simp_all
  show ?thesis
  proof (cases "n mod b = 0")
    case True
    then have "n + b - 1 = b * (n div b) + (b - 1)" using n by linarith
    then have "ceil_div n b = n div b"
      unfolding ceil_div_def by (rule int_div_pos_eq) (use assms(2) in simp_all)
    with True assms show ?thesis by (simp add: sdiv_nonneg smod_nonneg)
  next
    case False
    have "n + b - 1 = b * (n div b + 1) + (n mod b - 1)"
      using n by (simp add: algebra_simps)
    then have "ceil_div n b = n div b + 1"
      unfolding ceil_div_def by (rule int_div_pos_eq) (use False r in linarith)+
    with False assms show ?thesis by (simp add: sdiv_nonneg smod_nonneg)
  qed
qed

lemma ceil_div_upper: "0 < b \<Longrightarrow> n \<le> b * ceil_div n b"
proof -
  assume b: "0 < b"
  have "n + b - 1 = b * ceil_div n b + (n + b - 1) mod b" by (simp add: ceil_div_def)
  with pos_mod_bound [OF b, of "n + b - 1"] show ?thesis by linarith
qed

lemma ceil_div_lower: "0 < b \<Longrightarrow> b * (ceil_div n b - 1) < n"
proof -
  assume b: "0 < b"
  have "n + b - 1 = b * ceil_div n b + (n + b - 1) mod b" by (simp add: ceil_div_def)
  with pos_mod_sign [OF b, of "n + b - 1"] show ?thesis by (simp add: algebra_simps)
qed

lemma ceil_div_bounds: "0 \<le> n \<Longrightarrow> 1 \<le> b \<Longrightarrow> 0 \<le> ceil_div n b \<and> ceil_div n b \<le> n"
proof -
  assume n: "0 \<le> n" and b: "1 \<le> b"
  have "0 \<le> (n + b - 1) div b"
    using n b by (simp add: pos_imp_zdiv_nonneg_iff)
  moreover have "(n + b - 1) div b \<le> n"
  proof (rule ccontr)
    assume "\<not> (n + b - 1) div b \<le> n"
    then have "b * (n + 1) \<le> b * ((n + b - 1) div b)" using b by simp
    also have "\<dots> \<le> n + b - 1"
      using ceil_div_lower [of b n] b by (simp add: ceil_div_def algebra_simps)
    finally have "b * n \<le> n - 1" by (simp add: algebra_simps)
    moreover have "1 * n \<le> b * n" using n b by (intro mult_right_mono) auto
    ultimately show False by linarith
  qed
  ultimately show ?thesis by (simp add: ceil_div_def)
qed

section \<open>Conversion to ticks\<close>

lemma ticks_of_nonneg:
  "platform_ok P \<Longrightarrow> validate_timespec (Some ts) \<Longrightarrow> 0 \<le> tv_sec ts \<Longrightarrow> 0 \<le> ticks_of P ts"
  using ceil_div_bounds [of "tv_nsec ts" "NANOSECONDS_PER_TICK P"] npt_pos [of P]
  by (simp add: ticks_of_def)

lemma hz_sec_bounds:
  assumes "platform_ok P" and "0 \<le> sec" and "sec \<le> 4294967295"
  shows "0 \<le> uint (tmr_hz P) * sec" and "uint (tmr_hz P) * sec \<le> 4294967295000000000"
proof -
  have "uint (tmr_hz P) * sec \<le> 1000000000 * 4294967295"
    using platform_hz [OF assms(1)] assms(2,3) by (intro mult_mono) auto
  then show "uint (tmr_hz P) * sec \<le> 4294967295000000000" by simp
qed (use assms in simp)

text \<open>
  Within the range of \<open>int64_t\<close> the conversion is exact: the value computed is
  \<open>ticks_of\<close>, it is accepted exactly if it fits an \<open>unsigned\<close>, and it is stored either way.
\<close>

lemma timespec2ticks_value:
  assumes "platform_ok P" and "validate_timespec (Some ts)"
    and "fits 64 (uint (tmr_hz P) * tv_sec ts)" and "fits 64 (ticks_of P ts)"
  shows "timespec2ticks P (Some ts) (Some r) =
    (if 0 \<le> ticks_of P ts \<and> ticks_of P ts \<le> 4294967295 then OK else Err EINVAL,
     Some (word_of_int (ticks_of P ts)))"
proof -
  let ?c = "ceil_div (tv_nsec ts) (NANOSECONDS_PER_TICK P)"
  have "0 \<le> ?c" "?c \<le> tv_nsec ts"
    using ceil_div_bounds [of "tv_nsec ts"] npt_pos [OF assms(1)] assms(2) by simp_all
  then have "s32 ?c = ?c" using assms(2) by (intro s32_id) auto
  moreover have "tv_nsec ts sdiv NANOSECONDS_PER_TICK P +
      (if tv_nsec ts smod NANOSECONDS_PER_TICK P \<noteq> 0 then 1 else 0) = ?c"
    using npt_pos [OF assms(1)] assms(2) by (intro ceil_div_code) auto
  moreover have "s64 (uint (tmr_hz P) * tv_sec ts) = uint (tmr_hz P) * tv_sec ts"
    "s64 (ticks_of P ts) = ticks_of P ts"
    using assms(3,4) by (simp_all add: s64_id)
  ultimately show ?thesis
    using assms(2)
    by (auto simp: timespec2ticks_def Let_def s32_npt [OF assms(1)] ticks_of_def)
qed

text \<open>The times for which nothing can wrap: up to $2^{32}$ seconds, more than a century.\<close>

lemma timespec2ticks_in_range:
  assumes "platform_ok P" and "validate_timespec (Some ts)"
    and "0 \<le> tv_sec ts" and "tv_sec ts \<le> 4294967295"
  shows "timespec2ticks P (Some ts) (Some r) =
    (if ticks_of P ts \<le> 4294967295 then OK else Err EINVAL,
     Some (word_of_int (ticks_of P ts)))"
proof -
  have b: "0 \<le> uint (tmr_hz P) * tv_sec ts" "uint (tmr_hz P) * tv_sec ts \<le> 4294967295000000000"
    using hz_sec_bounds assms by blast+
  have c: "0 \<le> ceil_div (tv_nsec ts) (NANOSECONDS_PER_TICK P)"
    "ceil_div (tv_nsec ts) (NANOSECONDS_PER_TICK P) \<le> tv_nsec ts"
    using ceil_div_bounds [of "tv_nsec ts"] npt_pos [OF assms(1)] assms(2) by simp_all
  have t: "0 \<le> ticks_of P ts" by (rule ticks_of_nonneg) fact+
  show ?thesis
    using timespec2ticks_value [OF assms(1,2), of r] b c t assms(2)
    by (simp add: ticks_of_def)
qed

text \<open>The ticks cover the time, and if ticks are whole nanoseconds no tick is wasted.\<close>

lemma ticks_of_covers:
  assumes "platform_ok P" and "validate_timespec (Some ts)"
  shows "nanos ts * uint (tmr_hz P) \<le> ticks_of P ts * 1000000000"
proof -
  let ?h = "uint (tmr_hz P)" and ?n = "NANOSECONDS_PER_TICK P"
  let ?c = "ceil_div (tv_nsec ts) ?n"
  have n: "1 \<le> ?n" by (rule npt_pos) fact
  have c: "0 \<le> ?c" using ceil_div_bounds n assms(2) by simp
  have "tv_nsec ts * ?h \<le> ?n * ?c * ?h"
    using ceil_div_upper [of ?n "tv_nsec ts"] n by (intro mult_right_mono) auto
  also have "\<dots> = ?h * ?n * ?c" by (simp add: algebra_simps)
  also have "\<dots> \<le> 1000000000 * ?c"
    using npt_hz_le [OF assms(1)] c by (intro mult_right_mono) auto
  finally show ?thesis by (simp add: nanos_def ticks_of_def algebra_simps)
qed

lemma ticks_of_tight:
  assumes "platform_ok P" and "uint (tmr_hz P) dvd 1000000000"
  shows "(ticks_of P ts - 1) * 1000000000 < nanos ts * uint (tmr_hz P)"
proof -
  let ?h = "uint (tmr_hz P)" and ?n = "NANOSECONDS_PER_TICK P"
  let ?c = "ceil_div (tv_nsec ts) ?n"
  have n: "1 \<le> ?n" and h: "0 < ?h" using npt_pos platform_hz assms(1) by auto
  have e: "?h * ?n = 1000000000" by (rule npt_hz_eq) fact+
  have "?n * (?c - 1) < tv_nsec ts" using ceil_div_lower n by simp
  then have "?h * (?n * (?c - 1)) < ?h * tv_nsec ts" using h by simp
  then have "1000000000 * (?c - 1) < ?h * tv_nsec ts" by (simp add: mult.assoc [symmetric] e)
  then show ?thesis by (simp add: nanos_def ticks_of_def algebra_simps)
qed

text \<open>
  With ticks of \<open>NANOSECONDS_PER_TICK\<close> nanoseconds, at any rate, less than one tick is added.
\<close>

lemma ticks_of_nominal:
  assumes "platform_ok P" and "0 \<le> tv_sec ts"
  shows "(ticks_of P ts - 1) * NANOSECONDS_PER_TICK P < nanos ts"
proof -
  let ?h = "uint (tmr_hz P)" and ?n = "NANOSECONDS_PER_TICK P"
  let ?c = "ceil_div (tv_nsec ts) ?n"
  have n: "1 \<le> ?n" by (rule npt_pos) fact
  have "(ticks_of P ts - 1) * ?n = ?h * ?n * tv_sec ts + ?n * (?c - 1)"
    by (simp add: ticks_of_def algebra_simps)
  also have "\<dots> < 1000000000 * tv_sec ts + tv_nsec ts"
    using npt_hz_le [OF assms(1)] assms(2) ceil_div_lower [of ?n "tv_nsec ts"] n
    by (intro add_le_less_mono mult_right_mono) auto
  finally show ?thesis by (simp add: nanos_def)
qed

lemma ticks_of_span: "validate_timespec (Some ts) \<Longrightarrow> ticks_of P ts = span_ticks P (nanos ts)"
  by (simp add: ticks_of_def span_ticks_def nanos_def div_pos_pos_trivial mod_pos_pos_trivial
      div_mult_self3 mod_mult_self3 del: mult.commute)

text \<open>The facts about the ticks of a duration that is not negative.\<close>

lemma span_time:
  obtains ts where "validate_timespec (Some ts)" and "nanos ts = D" and "tv_sec ts = D div 1000000000"
  by (rule that [of "\<lparr>tv_sec = D div 1000000000, tv_nsec = D mod 1000000000\<rparr>"])
    (simp_all add: nanos_def)

lemma span_covers: "platform_ok P \<Longrightarrow> D * uint (tmr_hz P) \<le> span_ticks P D * 1000000000"
  by (rule span_time [of D]) (use ticks_of_covers [of P] in \<open>auto simp: ticks_of_span\<close>)

lemma span_tight:
  "platform_ok P \<Longrightarrow> uint (tmr_hz P) dvd 1000000000 \<Longrightarrow>
     (span_ticks P D - 1) * 1000000000 < D * uint (tmr_hz P)"
  by (rule span_time [of D]) (metis ticks_of_tight ticks_of_span)

lemma span_nominal:
  assumes "platform_ok P" and "0 \<le> D"
  shows "(span_ticks P D - 1) * NANOSECONDS_PER_TICK P < D"
proof (rule span_time [of D])
  fix ts assume ts: "validate_timespec (Some ts)" "nanos ts = D" "tv_sec ts = D div 1000000000"
  with assms(2) have "0 \<le> tv_sec ts" by (simp add: pos_imp_zdiv_nonneg_iff)
  from ticks_of_nominal [OF assms(1) this] ts(1,2) show ?thesis by (simp add: ticks_of_span)
qed

lemma span_pos: "platform_ok P \<Longrightarrow> 0 < D \<Longrightarrow> 0 < span_ticks P D"
proof -
  assume P: "platform_ok P" and D: "0 < D"
  then have "0 < D * uint (tmr_hz P)" using platform_hz(1) by simp
  with span_covers [OF P, of D] show ?thesis by linarith
qed

lemma span_zero [simp]: "platform_ok P \<Longrightarrow> span_ticks P 0 = 0"
  using npt_pos [of P] by (simp add: span_ticks_def ceil_div_def)

lemma span_nonneg: "platform_ok P \<Longrightarrow> 0 \<le> D \<Longrightarrow> 0 \<le> span_ticks P D"
  using span_pos [of P D] by (cases "D = 0") auto

section \<open>Comparison and subtraction\<close>

lemma timespec_cmp_Some:
  "timespec_cmp (Some x) (Some y) = (if x < y then -1 else if x = y then 0 else 1)"
  by (cases x, cases y) (auto simp: timespec_cmp_def timespec_less_iff)

text \<open>
  For valid times whose seconds can be subtracted the result is the exact difference, itself
  a valid time; the borrow never leaves a negative nanosecond field.
\<close>

lemma timespec_sub_less:
  "x < y \<Longrightarrow> timespec_sub P (Some x) (Some y) (Some r) = (1, Some r)"
  by (simp add: timespec_sub_def timespec_cmp_Some)

lemma timespec_sub_ge:
  assumes "validate_timespec (Some x)" and "validate_timespec (Some y)" and "y \<le> x"
    and "fits (time_bits P) (tv_sec x - tv_sec y)"
  obtains d where "timespec_sub P (Some x) (Some y) (Some r) = (0, Some d)"
    and "validate_timespec (Some d)" and "0 \<le> tv_sec d" and "nanos d = nanos x - nanos y"
    and "tv_sec d \<le> tv_sec x - tv_sec y"
proof (cases "x = y")
  case True
  then have "timespec_sub P (Some x) (Some y) (Some r) = (0, Some (r\<lparr>tv_sec := 0, tv_nsec := 0\<rparr>))"
    by (simp add: timespec_sub_def timespec_cmp_Some)
  then show thesis by (rule that) (use True in \<open>simp_all add: nanos_def\<close>)
next
  case False
  with \<open>y \<le> x\<close> have "y < x" by simp
  then have less: "\<not> x < y" by simp
  let ?n = "tv_nsec x - tv_nsec y" and ?s = "tv_sec x - tv_sec y"
  have n: "s32 ?n = ?n" using assms(1,2) by (intro s32_id) auto
  have s: "swrap (time_bits P) ?s = ?s" using assms(4) by (rule swrap_id)
  show thesis
  proof (cases "?n < 0")
    case True
    with \<open>y < x\<close> have "1 \<le> ?s" by (auto simp: timespec_less_iff)
    then have "fits (time_bits P) (?s - 1)" using assms(4) by (auto simp: fits_def)
    then have "swrap (time_bits P) (?s - 1) = ?s - 1" by (rule swrap_id)
    moreover have "s32 (?n + s32 NANOSECONDS_PER_SECOND) = ?n + 1000000000"
      using assms(1,2) by (simp add: NANOSECONDS_PER_SECOND_def s32_id)
    ultimately have "timespec_sub P (Some x) (Some y) (Some r) =
        (0, Some (r\<lparr>tv_sec := ?s - 1, tv_nsec := ?n + 1000000000\<rparr>))"
      using True less False n s assms(1,2)
      by (simp add: timespec_sub_def timespec_cmp_Some Let_def)
    then show thesis
      by (rule that) (use True \<open>1 \<le> ?s\<close> assms(1,2) in \<open>auto simp: nanos_def\<close>)
  next
    case ge: False
    then have "timespec_sub P (Some x) (Some y) (Some r) =
        (0, Some (r\<lparr>tv_sec := ?s, tv_nsec := ?n\<rparr>))"
      using less False n s by (simp add: timespec_sub_def timespec_cmp_Some Let_def)
    then show thesis
      by (rule that) (use ge \<open>y < x\<close> assms(1,2) in \<open>auto simp: nanos_def timespec_less_iff\<close>)
  qed
qed

section \<open>Absolute deadlines\<close>

lemma abs_timespec2ticks_NULL:
  "a = None \<or> c = None \<or> r = None \<Longrightarrow> abs_timespec2ticks P a c r = (Err EINVAL, r)"
  by (auto simp: abs_timespec2ticks_def)

lemma abs_timespec2ticks_past:
  "a < c \<Longrightarrow> abs_timespec2ticks P (Some a) (Some c) (Some r) = (Err ETIMEDOUT, Some r)"
  by (simp add: abs_timespec2ticks_def timespec_sub_less)

text \<open>A deadline not in the past, within a century of the current time.\<close>

definition near :: "platform \<Rightarrow> timespec \<Rightarrow> timespec \<Rightarrow> bool" where
  "near P a c \<longleftrightarrow> validate_timespec (Some a) \<and> validate_timespec (Some c) \<and>
     fits (time_bits P) (tv_sec a - tv_sec c) \<and> tv_sec a - tv_sec c \<le> 4294967295"

lemma abs_timespec2ticks_future:
  assumes "platform_ok P" and "near P a c" and "c \<le> a" and "T = span_ticks P (nanos a - nanos c)"
  shows "abs_timespec2ticks P (Some a) (Some c) (Some r) =
      (if T \<le> 4294967295 then OK else Err EINVAL, Some (word_of_int T))"
proof -
  obtain d where d: "timespec_sub P (Some a) (Some c) (Some \<lparr>tv_sec = 0, tv_nsec = 0\<rparr>) = (0, Some d)"
    "validate_timespec (Some d)" "0 \<le> tv_sec d" "nanos d = nanos a - nanos c"
    "tv_sec d \<le> tv_sec a - tv_sec c"
    using assms(1-3) by (elim timespec_sub_ge [rotated -1]) (auto simp: near_def)
  have "tv_sec d \<le> 4294967295" using d(5) assms(2) by (simp add: near_def)
  from timespec2ticks_in_range [OF assms(1) d(2,3) this, of r] d(1) show ?thesis
    by (simp add: abs_timespec2ticks_def ticks_of_span [OF d(2)] d(4) assms(4))
qed

text \<open>
  The interface the timed waits use: a conversion of a deadline and the current time to a
  timeout. \<open>ticks p D\<close> is the number of ticks for a duration of \<open>D\<close> nanoseconds, \<open>rate\<close> the ticks
  of a second and \<open>len\<close> the nanoseconds of a tick. The contract is exact: a deadline in the past
  is reported as such, any other gives the ticks of the time left, and is refused if they do
  not fit.
\<close>

locale deadline_conversion =
  fixes ok :: "'p \<Rightarrow> bool"
    and rate :: "'p \<Rightarrow> int"
    and len :: "'p \<Rightarrow> int"
    and ticks :: "'p \<Rightarrow> int \<Rightarrow> int"
    and in_range :: "'p \<Rightarrow> timespec \<Rightarrow> timespec \<Rightarrow> bool"
    and conv :: "'p \<Rightarrow> timespec \<Rightarrow> timespec \<Rightarrow> u32 \<Rightarrow> ret \<times> u32"
  assumes past: "a < c \<Longrightarrow> conv p a c r = (Err ETIMEDOUT, r)"
    and ahead: "ok p \<Longrightarrow> in_range p a c \<Longrightarrow> c \<le> a \<Longrightarrow>
      conv p a c r = (if ticks p (nanos a - nanos c) \<le> 4294967295 then OK else Err EINVAL,
        word_of_int (ticks p (nanos a - nanos c)))"
    and order: "in_range p a c \<Longrightarrow> c < a \<longleftrightarrow> nanos c < nanos a"
    and rate: "ok p \<Longrightarrow> 0 < rate p"
    and covers: "ok p \<Longrightarrow> D * rate p \<le> ticks p D * 1000000000"
    and nominal: "ok p \<Longrightarrow> 0 \<le> D \<Longrightarrow> (ticks p D - 1) * len p < D"
    and at_once: "ok p \<Longrightarrow> ticks p 0 = 0"
begin

lemma ticks_pos: "ok p \<Longrightarrow> 0 < D \<Longrightarrow> 0 < ticks p D"
proof -
  assume p: "ok p" and D: "0 < D"
  then have "0 < D * rate p" using rate by simp
  with covers [OF p, of D] show ?thesis by linarith
qed

lemma ticks_fit:
  assumes "ok p" and "0 \<le> D" and "ticks p D \<le> 4294967295"
  shows "uint (word_of_int (ticks p D) :: u32) = ticks p D"
proof -
  have "0 \<le> ticks p D" using ticks_pos [of p D] at_once [of p] assms(1,2) by (cases "D = 0") auto
  with assms(3) show ?thesis by (intro uint_u32_of_int) simp_all
qed

text \<open>A wait of the ticks of the time left ends at or after the deadline, by less than a tick.\<close>

lemma reaches:
  "ok p \<Longrightarrow> nanos a * rate p \<le> nanos c * rate p + ticks p (nanos a - nanos c) * 1000000000"
  using covers [of p "nanos a - nanos c"] by (simp add: algebra_simps)

text \<open>A deadline that is reached gives no ticks, one that lies ahead some or an error.\<close>

lemma conv_reached:
  assumes "ok p" and "in_range p a c" and "a \<le> c"
  shows "conv p a c r = (if a < c then (Err ETIMEDOUT, r) else (OK, 0))"
proof (cases "a < c")
  case True
  then show ?thesis by (simp add: past)
next
  case False
  with assms(3) have "a = c" by simp
  with ahead [OF assms(1,2), of r] at_once [OF assms(1)] show ?thesis by simp
qed

lemma conv_ahead_pos:
  assumes "ok p" and "in_range p a c" and "c < a"
  shows "0 < ticks p (nanos a - nanos c)"
  using ticks_pos [OF assms(1)] order [OF assms(2)] assms(3) by simp

lemma span_ok: "in_range p a c \<Longrightarrow> c \<le> a \<Longrightarrow> 0 \<le> nanos a - nanos c"
  using order [of p a c] by (cases "c = a") auto

lemma conv_past_iff:
  assumes "ok p" and "in_range p a c" and "conv p a c r = (e, n)"
  shows "e = Err ETIMEDOUT \<longleftrightarrow> a < c"
  using assms past [of a c p r] ahead [of p a c r] by (cases "a < c") (auto simp: not_less split: if_splits)

end

text \<open>The conversion of the code, called with three valid pointers.\<close>

definition deadline_ticks :: "platform \<Rightarrow> timespec \<Rightarrow> timespec \<Rightarrow> u32 \<Rightarrow> ret \<times> u32" where
  "deadline_ticks P a c r =
     (case abs_timespec2ticks P (Some a) (Some c) (Some r) of
        (e, Some n) \<Rightarrow> (e, n)
      | (e, None) \<Rightarrow> (e, r))"

lemma abs_timespec2ticks_Some [simp]:
  "abs_timespec2ticks P (Some a) (Some c) (Some r) =
     (fst (deadline_ticks P a c r), Some (snd (deadline_ticks P a c r)))"
proof -
  obtain e q where q: "abs_timespec2ticks P (Some a) (Some c) (Some r) = (e, q)" by force
  then have "q \<noteq> None"
    by (auto simp: abs_timespec2ticks_def timespec2ticks_def Let_def split: prod.splits if_splits option.splits)
  with q show ?thesis by (auto simp: deadline_ticks_def)
qed

lemma deadline_ticks_past: "a < c \<Longrightarrow> deadline_ticks P a c r = (Err ETIMEDOUT, r)"
  by (simp add: deadline_ticks_def abs_timespec2ticks_past del: abs_timespec2ticks_Some)

interpretation dl: deadline_conversion platform_ok "\<lambda>P. uint (tmr_hz P)" NANOSECONDS_PER_TICK span_ticks
  near deadline_ticks
proof unfold_locales
  fix a c :: timespec and P :: platform and r :: u32
  assume asm: "platform_ok P" "near P a c" "c \<le> a"
  show "deadline_ticks P a c r = (if span_ticks P (nanos a - nanos c) \<le> 4294967295 then OK else Err EINVAL,
      word_of_int (span_ticks P (nanos a - nanos c)))"
    by (simp add: deadline_ticks_def abs_timespec2ticks_future [OF asm refl] del: abs_timespec2ticks_Some)
next
  fix a c :: timespec and P :: platform
  assume "near P a c"
  then show "c < a \<longleftrightarrow> nanos c < nanos a"
    using nanos_less_iff [of c a] by (simp add: near_def)
qed (simp_all add: deadline_ticks_past platform_hz span_covers span_nominal)

section \<open>Nanoseconds to times\<close>

lemma sdiv_floor:
  assumes "0 < (b::int)"
  shows "a sdiv b = (if a < 0 \<and> a mod b \<noteq> 0 then a div b + 1 else a div b)"
    and "a smod b = (if a < 0 \<and> a mod b \<noteq> 0 then a mod b - b else a mod b)"
proof -
  have "a sdiv b = (if a < 0 then - (- a div b) else a div b)"
    using assms by (auto simp: signed_divide_int_def sgn_if)
  moreover have "a smod b = (if a < 0 then - (- a mod b) else a mod b)"
    using assms by (auto simp: signed_modulo_int_def sgn_if)
  ultimately show "a sdiv b = (if a < 0 \<and> a mod b \<noteq> 0 then a div b + 1 else a div b)"
    and "a smod b = (if a < 0 \<and> a mod b \<noteq> 0 then a mod b - b else a mod b)"
    using assms by (simp_all add: zdiv_zminus1_eq_if zmod_zminus1_eq_if)
qed

lemma nano2timespec_floor:
  assumes "fits (time_bits P) (n div 1000000000)" and "fits (time_bits P) (n sdiv 1000000000)"
    and "fits (time_bits P) 1"
  shows "nano2timespec P n = \<lparr>tv_sec = n div 1000000000, tv_nsec = n mod 1000000000\<rparr>"
proof -
  have m: "0 \<le> n mod 1000000000" "n mod 1000000000 < 1000000000" by simp_all
  show ?thesis
  proof (cases "n < 0 \<and> n mod 1000000000 \<noteq> 0")
    case True
    let ?r = "n mod 1000000000 - 1000000000"
    have "s32 ?r = ?r" using m by (intro s32_id) linarith+
    moreover have "?r < 0" "?r sdiv 1000000000 = 0"
      using m True by (auto simp: sdiv_floor zdiv_eq_0_iff zmod_trivial_iff div_eq_minus1)
    ultimately show ?thesis
      using True assms m
      by (simp add: nano2timespec_def NANOSECONDS_PER_SECOND_def sdiv_floor Let_def s32_id swrap_id)
  next
    case False
    then have "n sdiv 1000000000 = n div 1000000000" "n smod 1000000000 = n mod 1000000000"
      by (auto simp: sdiv_floor)
    moreover have "s32 (n mod 1000000000) = n mod 1000000000" using m by (intro s32_id) linarith+
    moreover have "(n mod 1000000000 < 0) = False" using m(1) by (simp only: not_less [symmetric] simp_thms)
    ultimately show ?thesis
      using assms(1) by (simp add: nano2timespec_def NANOSECONDS_PER_SECOND_def Let_def swrap_id)
  qed
qed

lemma nano2timespec_exact:
  assumes "platform_ok P" and "fits (time_bits P) (n div 1000000000)"
  shows "validate_timespec (Some (nano2timespec P n))" and "nanos (nano2timespec P n) = n"
proof -
  have one: "fits (time_bits P) 1" using assms(1) by (intro fits_time32) simp_all
  have "n < 0 \<Longrightarrow> n div 1000000000 < 0" by (simp add: neg_imp_zdiv_neg_iff)
  moreover have "0 < (2::int) ^ (time_bits P - 1)" by simp
  ultimately have "fits (time_bits P) (n sdiv 1000000000)"
    using assms(2) by (auto simp: sdiv_floor fits_def)
  from nano2timespec_floor [OF assms(2) this one] show "validate_timespec (Some (nano2timespec P n))" and "nanos (nano2timespec P n) = n"
    by (simp_all add: nanos_def)
qed

section \<open>Properties\<close>

text \<open>
  C13: converting a valid time to ticks. As long as nothing leaves 64 bits (which no 32-bit
  \<open>time_t\<close> can make happen), the value stored is the whole seconds in ticks plus the
  nanoseconds in ticks rounded up, \<open>span_ticks\<close> of the time in nanoseconds, and the call
  succeeds exactly if that is from 0 to \<open>UINT_MAX\<close>. These ticks cover the time; with ticks of
  \<open>NANOSECONDS_PER_TICK\<close> nanoseconds they exceed it by less than one; and if the tick rate
  divides $10^9$ (not so at 32768 Hz, say) they are the least number of ticks that covers it.
\<close>

theorem timespec2ticks_correct:
  assumes "platform_ok P" and "validate_timespec (Some ts)" and "T = span_ticks P (nanos ts)"
    and "fits 64 (uint (tmr_hz P) * tv_sec ts)" and "fits 64 T"
  shows "timespec2ticks P (Some ts) (Some r) =
      (if 0 \<le> T \<and> T \<le> 4294967295 then OK else Err EINVAL, Some (word_of_int T)) \<and>
    nanos ts * uint (tmr_hz P) \<le> T * 1000000000 \<and>
    (0 \<le> tv_sec ts \<longrightarrow> (T - 1) * NANOSECONDS_PER_TICK P < nanos ts) \<and>
    (uint (tmr_hz P) dvd 1000000000 \<longrightarrow>
       (\<forall>n. nanos ts * uint (tmr_hz P) \<le> n * 1000000000 \<longrightarrow> T \<le> n))"
proof -
  have T: "ticks_of P ts = T" using ticks_of_span [OF assms(2)] assms(3) by simp
  have "T \<le> n" if "uint (tmr_hz P) dvd 1000000000" "nanos ts * uint (tmr_hz P) \<le> n * 1000000000" for n
  proof -
    have "(T - 1) * 1000000000 < n * 1000000000"
      using span_tight [OF assms(1) that(1), of "nanos ts"] that(2) unfolding assms(3)
      by (rule order.strict_trans2)
    then have "T - 1 < n" by simp
    then show "T \<le> n" by simp
  qed
  then show ?thesis
    using timespec2ticks_value [OF assms(1,2,4), of r] ticks_of_nominal [OF assms(1), of ts]
      span_covers [OF assms(1), of "nanos ts"] assms(3,5) by (auto simp: T)
qed

theorem timespec2ticks_correct_witness:
  "timespec2ticks ref_platform (Some \<lparr>tv_sec = 2, tv_nsec = 500000001\<rparr>) (Some 0) = (OK, Some 2501)"
proof -
  let ?ts = "\<lparr>tv_sec = 2, tv_nsec = 500000001\<rparr>"
  have T: "2501 = span_ticks ref_platform (nanos ?ts)"
    by (simp add: span_ticks_def ceil_div_def nanos_def NANOSECONDS_PER_TICK_def NANOSECONDS_PER_SECOND_def
        sdiv_nonneg)
  from timespec2ticks_correct [OF ref_platform_ok _ T, of 0] show ?thesis
    by (simp add: fits_def nanos_def)
qed

text \<open>
  C14: subtracting valid times whose seconds can be subtracted in \<open>time_t\<close> reports the sign of
  the difference, and if it is not negative stores the exact difference as a valid time.
\<close>

theorem timespec_sub_correct:
  assumes "validate_timespec (Some x)" and "validate_timespec (Some y)"
    and "fits (time_bits P) (tv_sec x - tv_sec y)"
  shows "case timespec_sub P (Some x) (Some y) (Some r) of
      (e, q) \<Rightarrow> if nanos x < nanos y then e = 1 \<and> q = Some r
        else e = 0 \<and> (\<exists>d. q = Some d \<and> validate_timespec q \<and> 0 \<le> tv_sec d \<and>
               nanos d = nanos x - nanos y)"
proof (cases "x < y")
  case True
  then show ?thesis using nanos_less_iff [OF assms(1,2)] by (simp add: timespec_sub_less)
next
  case False
  then have le: "y \<le> x" by simp
  obtain d where "timespec_sub P (Some x) (Some y) (Some r) = (0, Some d)"
    "validate_timespec (Some d)" "0 \<le> tv_sec d" "nanos d = nanos x - nanos y"
    using timespec_sub_ge [OF assms(1,2) le assms(3)] by metis
  with False show ?thesis using nanos_less_iff [OF assms(1,2)] by auto
qed

theorem timespec_sub_correct_witness:
  "case timespec_sub ref_platform (Some \<lparr>tv_sec = 5, tv_nsec = 1\<rparr>)
      (Some \<lparr>tv_sec = 3, tv_nsec = 2\<rparr>) (Some \<lparr>tv_sec = 0, tv_nsec = 0\<rparr>) of
      (e, q) \<Rightarrow> e = 0 \<and> (\<exists>d. q = Some d \<and> nanos d = 1999999999)"
  using timespec_sub_correct [of "\<lparr>tv_sec = 5, tv_nsec = 1\<rparr>" "\<lparr>tv_sec = 3, tv_nsec = 2\<rparr>"
      ref_platform "\<lparr>tv_sec = 0, tv_nsec = 0\<rparr>"]
  by (auto simp: nanos_def ref_platform_def split: prod.splits)

text \<open>
  C12: the timeout computed for an absolute deadline, when both times are valid, their seconds
  can be subtracted and the deadline is at most $2^{32} - 1$ seconds ahead. A deadline before
  the current time is \<open>ETIMEDOUT\<close> and leaves the output alone. For any other the output is
  \<open>T\<close>, the ticks of the time left: the call succeeds exactly if \<open>T\<close> is at most \<open>UINT_MAX\<close>,
  and otherwise returns \<open>EINVAL\<close> with \<open>T\<close> modulo $2^{32}$ in the output. \<open>T\<close> ticks reach the
  deadline, and one tick of \<open>NANOSECONDS_PER_TICK\<close> less would not; if the tick rate divides
  $10^9$ that is an exact bound.
\<close>

theorem abs_timespec2ticks_deadline:
  assumes "platform_ok P" and "near P a c" and "T = span_ticks P (nanos a - nanos c)"
  shows "abs_timespec2ticks P (Some a) (Some c) (Some r) =
      (if a < c then (Err ETIMEDOUT, Some r)
       else (if T \<le> 4294967295 then OK else Err EINVAL, Some (word_of_int T))) \<and>
    (c \<le> a \<longrightarrow> 0 \<le> T \<and>
       nanos a * uint (tmr_hz P) \<le> nanos c * uint (tmr_hz P) + T * 1000000000 \<and>
       nanos c + (T - 1) * NANOSECONDS_PER_TICK P < nanos a) \<and>
    (uint (tmr_hz P) dvd 1000000000 \<longrightarrow>
       nanos c * uint (tmr_hz P) + (T - 1) * 1000000000 < nanos a * uint (tmr_hz P))"
proof -
  have "abs_timespec2ticks P (Some a) (Some c) (Some r) =
      (if a < c then (Err ETIMEDOUT, Some r)
       else (if T \<le> 4294967295 then OK else Err EINVAL, Some (word_of_int T)))"
    using abs_timespec2ticks_past abs_timespec2ticks_future [OF assms(1,2) _ assms(3)]
    by (simp add: not_less del: abs_timespec2ticks_Some)
  moreover have "0 \<le> T" "nanos c + (T - 1) * NANOSECONDS_PER_TICK P < nanos a" if "c \<le> a"
    using span_nominal [OF assms(1) dl.span_ok [OF assms(2) that]]
      span_nonneg [OF assms(1) dl.span_ok [OF assms(2) that]] unfolding assms(3) by linarith+
  moreover have "nanos c * uint (tmr_hz P) + (T - 1) * 1000000000 < nanos a * uint (tmr_hz P)"
    if "uint (tmr_hz P) dvd 1000000000"
    using span_tight [OF assms(1) that, of "nanos a - nanos c"] assms(3) by (simp add: algebra_simps)
  ultimately show ?thesis
    using dl.reaches [OF assms(1), of a c] assms(3) by (simp del: abs_timespec2ticks_Some)
qed

theorem abs_timespec2ticks_deadline_witness:
  "near ref_platform \<lparr>tv_sec = 7, tv_nsec = 2\<rparr> \<lparr>tv_sec = 5, tv_nsec = 3\<rparr> \<and>
   abs_timespec2ticks ref_platform (Some \<lparr>tv_sec = 7, tv_nsec = 2\<rparr>)
     (Some \<lparr>tv_sec = 5, tv_nsec = 3\<rparr>) (Some 3) = (OK, Some 2000)"
proof -
  let ?a = "\<lparr>tv_sec = 7, tv_nsec = 2\<rparr> :: timespec" and ?c = "\<lparr>tv_sec = 5, tv_nsec = 3\<rparr> :: timespec"
  have n: "near ref_platform ?a ?c" by (simp add: near_def fits_def ref_platform_def)
  have T: "2000 = span_ticks ref_platform (nanos ?a - nanos ?c)"
    by (simp add: span_ticks_def ceil_div_def nanos_def NANOSECONDS_PER_TICK_def NANOSECONDS_PER_SECOND_def
        sdiv_nonneg)
  from abs_timespec2ticks_deadline [OF ref_platform_ok n T, of 3] n show ?thesis
    by (simp add: timespec_less_iff del: abs_timespec2ticks_Some)
qed

text \<open>
  Comparing valid times gives the sign of their difference in nanoseconds, and a null
  pointer sorts below every time.
\<close>

theorem timespec_cmp_sign:
  assumes "validate_timespec (Some x)" and "validate_timespec (Some y)"
  shows "timespec_cmp (Some x) (Some y) = sgn (nanos x - nanos y) \<and>
    timespec_cmp None (Some x) = -1 \<and> timespec_cmp (Some x) None = 1 \<and> timespec_cmp None None = 0"
  using nanos_less_iff [OF assms] nanos_less_iff [OF assms(2,1)]
  by (auto simp: timespec_cmp_Some sgn_if) (auto simp: timespec_cmp_def)

theorem timespec_cmp_sign_witness:
  "timespec_cmp (Some \<lparr>tv_sec = 2, tv_nsec = 0\<rparr>) (Some \<lparr>tv_sec = 1, tv_nsec = 999999999\<rparr>) = 1"
  using timespec_cmp_sign [of "\<lparr>tv_sec = 2, tv_nsec = 0\<rparr>" "\<lparr>tv_sec = 1, tv_nsec = 999999999\<rparr>"]
  by (simp add: nanos_def)

text \<open>
  C31: Converting nanoseconds to a time loses nothing, negative values included: the result
  is a valid time with the same total, whenever its seconds fit \<open>time_t\<close>.
\<close>

theorem nano2timespec_correct:
  assumes "platform_ok P" and "fits (time_bits P) (n div 1000000000)"
  shows "validate_timespec (Some (nano2timespec P n)) \<and> nanos (nano2timespec P n) = n"
  using nano2timespec_exact [OF assms] by simp

theorem nano2timespec_correct_witness:
  "validate_timespec (Some (nano2timespec ref_platform (-1))) \<and>
   nanos (nano2timespec ref_platform (-1)) = -1"
  using nano2timespec_correct [of ref_platform "-1"] by (simp add: ref_platform_def platform_ok_def fits_def)

text \<open>
  The overflow check of the conversion looks at the sign of the wrapped product only, so
  on a platform with a 64-bit \<open>time_t\<close> a delay of $2^{61}$ seconds is accepted as no delay.
\<close>

theorem timespec2ticks_wraps_silently:
  "timespec2ticks (ref_platform\<lparr>time_bits := 64\<rparr>)
     (Some \<lparr>tv_sec = 2305843009213693952, tv_nsec = 0\<rparr>) (Some r) = (OK, Some 0) \<and>
   in_type (ref_platform\<lparr>time_bits := 64\<rparr>) \<lparr>tv_sec = 2305843009213693952, tv_nsec = 0\<rparr>"
  by (simp add: timespec2ticks_def ref_platform_def in_type_def Let_def s64_def s32_def swrap_def
      NANOSECONDS_PER_TICK_def NANOSECONDS_PER_SECOND_def)

end
