(* ===== verification/Clock.thy ===== *)
theory Clock
  imports Timespec
begin

text \<open>
  \<open>src/src/posix_clock.c\<close>, \<open>posix_unistd.c\<close> and \<open>posix_sched.c\<close>: reading the clock, sleeping,
  printing and yielding. The tick counter \<open>tmr_ticks\<close> changes under the code, so a function
  takes the value of each of its reads as an argument; calls of the kernel that return
  nothing are collected in a list, in order. \<open>errno\<close> is passed in and out, \<open>None\<close> until
  something is stored in it.
\<close>

datatype kcall = TaskSleep u32 | TaskYield

type_synonym clockid = int

definition CLOCK_REALTIME :: clockid where
  "CLOCK_REALTIME = 0"

definition TIMER_ABSTIME :: int where
  "TIMER_ABSTIME = 1"

section \<open>The clock\<close>

definition clock :: "u32 \<Rightarrow> u32 \<Rightarrow> u32" where
  "clock tmr_ticks idle_load_sum = tmr_ticks - idle_load_sum"

definition clock_getcpuclockid :: "errno option \<Rightarrow> ret \<times> errno option" where
  "clock_getcpuclockid err = (MinusOne, Some EPERM)"

definition clock_getres :: "platform \<Rightarrow> clockid \<Rightarrow> timespec ptr \<Rightarrow> ret \<times> timespec ptr" where
  "clock_getres P clock_id res =
     (OK, map_option (\<lambda>r. r\<lparr>tv_sec := 0, tv_nsec := s32 (NANOSECONDS_PER_TICK P)\<rparr>) res)"

definition clock_gettime ::
    "platform \<Rightarrow> u32 \<Rightarrow> clockid \<Rightarrow> timespec ptr \<Rightarrow> ret \<times> timespec ptr" where
  "clock_gettime P tmr_ticks clock_id tp =
     (case tp of
        None \<Rightarrow> (MinusOne, None)
      | Some _ \<Rightarrow> (OK, Some (nano2timespec P (s64 (uint tmr_ticks * NANOSECONDS_PER_TICK P)))))"

definition clock_settime :: "errno option \<Rightarrow> ret \<times> errno option" where
  "clock_settime err = (MinusOne, Some EPERM)"

definition time :: "platform \<Rightarrow> u32 \<Rightarrow> int ptr \<Rightarrow> int \<times> int ptr" where
  "time P tmr_ticks tloc =
     (let xCurrentTime = swrap (time_bits P) (uint (tmr_ticks div tmr_hz P))
      in (xCurrentTime, map_option (\<lambda>_. xCurrentTime) tloc))"

section \<open>Sleeping\<close>

text \<open>The two arguments after the platform are the two reads of the tick counter.\<close>

definition clock_nanosleep ::
    "platform \<Rightarrow> u32 \<Rightarrow> u32 \<Rightarrow> clockid \<Rightarrow> int \<Rightarrow> timespec ptr \<Rightarrow> ret \<times> kcall list" where
  "clock_nanosleep P ticks1 ticks2 clock_id flags rqtp =
     (let cur = Some \<lparr>tv_sec = 0, tv_nsec = 0\<rparr>;
          ret = (if \<not> validate_timespec rqtp then Err EINVAL else OK)
      in if ret \<noteq> OK then (ret, [])
         else
           (case clock_gettime P ticks1 CLOCK_REALTIME cur of
              (r, cur) \<Rightarrow>
                if r \<noteq> OK then (Err EINVAL, [])
                else if flags AND TIMER_ABSTIME = TIMER_ABSTIME then
                  (case clock_gettime P ticks2 CLOCK_REALTIME cur of
                     (r, cur) \<Rightarrow>
                       if r = OK then (Err EINVAL, [])
                       else
                         (case abs_timespec2ticks P rqtp cur (Some 0) of
                            (OK, Some sleep) \<Rightarrow> (OK, [TaskSleep sleep])
                          | _ \<Rightarrow> (OK, [])))
                else
                  (case timespec2ticks P rqtp (Some 0) of
                     (OK, Some sleep) \<Rightarrow> (OK, [TaskSleep sleep])
                   | _ \<Rightarrow> (OK, []))))"

definition nanosleep ::
    "platform \<Rightarrow> timespec ptr \<Rightarrow> errno option \<Rightarrow> ret \<times> errno option \<times> kcall list" where
  "nanosleep P rqtp err =
     (if \<not> validate_timespec rqtp then (MinusOne, Some EINVAL, [])
      else
        (case timespec2ticks P rqtp (Some 0) of
           (OK, Some sleep) \<Rightarrow> (OK, err, [TaskSleep sleep])
         | _ \<Rightarrow> (OK, err, [])))"

text \<open>\<open>unistd\<close>: \<open>useconds_t\<close> is an unsigned type of 32 bits, and so is the product.\<close>

definition sleep :: "platform \<Rightarrow> u32 \<Rightarrow> u32 \<times> kcall list" where
  "sleep P seconds = (0, [TaskSleep (seconds * tmr_hz P)])"

definition usleep :: "platform \<Rightarrow> u32 \<Rightarrow> ret \<times> kcall list" where
  "usleep P usec = (OK, [TaskSleep ((usec * tmr_hz P) div 1000000)])"

definition sched_get_priority_max :: "platform \<Rightarrow> int \<Rightarrow> int" where
  "sched_get_priority_max P policy = CFG_TPRI_NUM P - 1"

definition sched_yield :: "ret \<times> kcall list" where
  "sched_yield = (OK, [TaskYield])"

section \<open>Printing the time\<close>







section \<open>Facts about the clock\<close>

text \<open>The 64-bit product of ticks and nanoseconds per tick never overflows.\<close>

lemma clock_ns_bounds:
  assumes "platform_ok P"
  shows "0 \<le> uint (n :: u32) * NANOSECONDS_PER_TICK P"
    and "uint n * NANOSECONDS_PER_TICK P \<le> 4294967295000000000"
proof -
  show "0 \<le> uint n * NANOSECONDS_PER_TICK P" using npt_pos [OF assms] by simp
  have "uint n * NANOSECONDS_PER_TICK P \<le> 4294967295 * 1000000000"
    using npt_pos [OF assms] npt_le [OF assms] u32_le_max [of n] by (intro mult_mono) auto
  then show "uint n * NANOSECONDS_PER_TICK P \<le> 4294967295000000000" by simp
qed

lemma clock_sec_fits:
  assumes "platform_ok P" and "1 < uint (tmr_hz P)"
  shows "fits (time_bits P) (uint (n :: u32) * NANOSECONDS_PER_TICK P div 1000000000)"
proof (rule fits_time32 [OF assms(1)])
  have "2 * NANOSECONDS_PER_TICK P \<le> uint (tmr_hz P) * NANOSECONDS_PER_TICK P"
    using assms npt_pos [OF assms(1)] by (intro mult_right_mono) auto
  then have "NANOSECONDS_PER_TICK P \<le> 500000000" using npt_hz_le [OF assms(1)] by linarith
  then have "uint n * NANOSECONDS_PER_TICK P \<le> 4294967295 * 500000000"
    using npt_pos [OF assms(1)] u32_le_max [of n] by (intro mult_mono) auto
  then have "uint n * NANOSECONDS_PER_TICK P div 1000000000 < 2147483648" by simp
  moreover have "0 \<le> uint n * NANOSECONDS_PER_TICK P div 1000000000"
    using clock_ns_bounds(1) [OF assms(1)] by (simp add: pos_imp_zdiv_nonneg_iff)
  ultimately show "fits 32 (uint n * NANOSECONDS_PER_TICK P div 1000000000)" by simp
qed

definition clock_time :: "platform \<Rightarrow> u32 \<Rightarrow> timespec" where
  "clock_time P n = nano2timespec P (s64 (uint n * NANOSECONDS_PER_TICK P))"

lemma clock_gettime_Some [simp]: "clock_gettime P n c (Some t) = (OK, Some (clock_time P n))"
  by (simp add: clock_gettime_def clock_time_def)

lemma clock_time_ns:
  assumes "platform_ok P"
  shows "s64 (uint (n :: u32) * NANOSECONDS_PER_TICK P) = uint n * NANOSECONDS_PER_TICK P"
  using clock_ns_bounds [OF assms, of n] by (intro s64_id) auto

lemma clock_time_valid:
  assumes "platform_ok P" and "1 < uint (tmr_hz P)"
  shows "validate_timespec (Some (clock_time P n))"
    and "nanos (clock_time P n) = uint n * NANOSECONDS_PER_TICK P"
    and "0 \<le> tv_sec (clock_time P n)"
proof -
  show v: "validate_timespec (Some (clock_time P n))"
    and e: "nanos (clock_time P n) = uint n * NANOSECONDS_PER_TICK P"
    using nano2timespec_exact [OF assms(1) clock_sec_fits [OF assms, of n]]
    by (simp_all add: clock_time_def clock_time_ns [OF assms(1)])
  have "0 \<le> nanos (clock_time P n)" using clock_ns_bounds(1) [OF assms(1), of n] e by simp
  with v show "0 \<le> tv_sec (clock_time P n)" by (simp add: nanos_def)
qed

lemma clock_time_mono:
  assumes "platform_ok P" and "1 < uint (tmr_hz P)" and "m \<le> n"
  shows "clock_time P m \<le> clock_time P n"
proof -
  have "uint m * NANOSECONDS_PER_TICK P \<le> uint n * NANOSECONDS_PER_TICK P"
    using npt_pos [OF assms(1)] assms(3) by (intro mult_right_mono) (auto simp: word_le_def)
  then show ?thesis
    using nanos_le_iff [OF clock_time_valid(1) clock_time_valid(1)] assms
    by (simp add: clock_time_valid(2))
qed

text \<open>The deadline zero, by which the non-blocking calls poll.\<close>

lemma clock_time_0_iff:
  assumes "platform_ok P" and "1 < uint (tmr_hz P)"
  shows "\<lparr>tv_sec = 0, tv_nsec = 0\<rparr> < clock_time P n \<or> clock_time P n = \<lparr>tv_sec = 0, tv_nsec = 0\<rparr>"
  using clock_time_valid [OF assms, of n]
  by (cases "clock_time P n") (auto simp: timespec_less_iff)

lemma deadline_zero:
  assumes "platform_ok P"
  shows "deadline_ticks P \<lparr>tv_sec = 0, tv_nsec = 0\<rparr> \<lparr>tv_sec = 0, tv_nsec = 0\<rparr> r = (OK, 0)"
proof -
  let ?z = "\<lparr>tv_sec = 0, tv_nsec = 0\<rparr> :: timespec"
  have "near P ?z ?z"
    using fits_time32 [OF assms, of 0] by (simp add: near_def)
  then show ?thesis
    using dl.conv_reached [OF assms, of ?z ?z r] by simp
qed

text \<open>Where ticks are whole nanoseconds, the time read converts back to the tick counter.\<close>

lemma clock_time_ticks:
  assumes "platform_ok P" and "1 < uint (tmr_hz P)" and "uint (tmr_hz P) dvd 1000000000"
  shows "ticks_of P (clock_time P n) = uint n"
proof -
  let ?h = "uint (tmr_hz P)" and ?t = "clock_time P n" and ?c = "NANOSECONDS_PER_TICK P"
  have n: "1 \<le> ?c" by (rule npt_pos) fact
  have e: "?h * ?c = 1000000000" by (rule npt_hz_eq) fact+
  have "tv_sec ?t * (?h * ?c) + tv_nsec ?t = uint n * ?c"
    using clock_time_valid(2) [OF assms(1,2), of n] by (simp add: nanos_def e)
  then have ns: "tv_nsec ?t = ?c * (uint n - ?h * tv_sec ?t)" by (simp add: algebra_simps)
  have "ceil_div (tv_nsec ?t) ?c = uint n - ?h * tv_sec ?t"
    unfolding ceil_div_def by (rule int_div_pos_eq [of _ _ _ "?c - 1"]) (use n ns in auto)
  then show ?thesis by (simp add: ticks_of_def)
qed

section \<open>Facts about sleeping and printing\<close>

lemma nanosleep_valid:
  assumes "platform_ok P" and "validate_timespec (Some ts)"
    and "0 \<le> tv_sec ts" and "tv_sec ts \<le> 4294967295"
  shows "nanosleep P (Some ts) err =
    (OK, err, if ticks_of P ts \<le> 4294967295 then [TaskSleep (word_of_int (ticks_of P ts))] else [])"
  using timespec2ticks_in_range [OF assms, of 0] assms(2) by (simp add: nanosleep_def)

lemma clock_nanosleep_relative:
  assumes "validate_timespec rqtp" and "flags AND TIMER_ABSTIME \<noteq> TIMER_ABSTIME"
  shows "clock_nanosleep P m n c flags rqtp = (OK, snd (snd (nanosleep P rqtp err)))"
  using assms by (auto simp: clock_nanosleep_def nanosleep_def split: prod.splits ret.splits option.splits)

lemma clock_nanosleep_absolute:
  "flags AND TIMER_ABSTIME = TIMER_ABSTIME \<Longrightarrow>
     clock_nanosleep P m n c flags rqtp = (Err EINVAL, [])"
  by (simp add: clock_nanosleep_def Let_def)













section \<open>Properties\<close>

text \<open>
  C29: \<open>clock_gettime\<close> reports the ticks since the start as a valid, non-negative time of
  exactly \<open>NANOSECONDS_PER_TICK\<close> nanoseconds per tick, later reads never report an earlier
  time, and a null pointer is refused.
\<close>

theorem clock_gettime_correct:
  assumes "platform_ok P" and "1 < uint (tmr_hz P)" and "m \<le> n"
  shows "\<exists>s t. clock_gettime P m c (Some x) = (OK, Some s) \<and> clock_gettime P n c' (Some y) = (OK, Some t) \<and>
    validate_timespec (Some t) \<and> 0 \<le> tv_sec t \<and>
    nanos t = uint n * NANOSECONDS_PER_TICK P \<and> s \<le> t \<and>
    clock_gettime P n c None = (MinusOne, None)"
  using clock_time_valid [OF assms(1,2), of n] clock_time_mono [OF assms]
  by (intro exI [of _ "clock_time P m"] exI [of _ "clock_time P n"])
    (simp_all add: clock_gettime_def [of _ _ _ None])

theorem clock_gettime_correct_witness:
  "\<exists>t. clock_gettime ref_platform 2500 CLOCK_REALTIME (Some \<lparr>tv_sec = 0, tv_nsec = 0\<rparr>) = (OK, Some t) \<and>
     nanos t = 2500000000"
  using clock_gettime_correct [of ref_platform 2500 2500 CLOCK_REALTIME
      "\<lparr>tv_sec = 0, tv_nsec = 0\<rparr>" CLOCK_REALTIME "\<lparr>tv_sec = 0, tv_nsec = 0\<rparr>"]
  by (simp add: ref_platform_def platform_ok_def NANOSECONDS_PER_TICK_def NANOSECONDS_PER_SECOND_def)

text \<open>
  C28: round trip. Provided the tick rate divides $10^9$, so that a tick is a whole number of
  nanoseconds, the time read from the clock converts back to exactly the tick counter it was
  read from. At another rate it need not (lemma \<open>clock_roundtrip_fails\<close>).
\<close>

theorem clock_ticks_roundtrip:
  assumes "platform_ok P" and "1 < uint (tmr_hz P)" and "uint (tmr_hz P) dvd 1000000000"
    and "clock_gettime P n c (Some x) = (OK, Some t)"
  shows "timespec2ticks P (Some t) (Some r) = (OK, Some n)"
proof -
  have t: "t = clock_time P n" using assms(4) by simp
  have tk: "ticks_of P t = uint n" using clock_time_ticks [OF assms(1-3)] t by simp
  have v: "validate_timespec (Some t)" "0 \<le> tv_sec t"
    using clock_time_valid [OF assms(1,2)] t by simp_all
  have "tv_sec t * 1 \<le> tv_sec t * uint (tmr_hz P)"
    using v(2) assms(2) by (intro mult_left_mono) auto
  moreover have "0 \<le> ceil_div (tv_nsec t) (NANOSECONDS_PER_TICK P)"
    using ceil_div_bounds npt_pos [OF assms(1)] v(1) by simp
  ultimately have "tv_sec t \<le> uint n" using tk by (simp add: ticks_of_def algebra_simps)
  then have "tv_sec t \<le> 4294967295" using u32_le_max [of n] by linarith
  from timespec2ticks_in_range [OF assms(1) v this, of r] show ?thesis
    using u32_le_max [of n] by (simp add: tk)
qed

theorem clock_ticks_roundtrip_witness:
  "timespec2ticks ref_platform (Some (clock_time ref_platform 4294967295)) (Some 0) =
     (OK, Some 4294967295)"
  using clock_ticks_roundtrip [of ref_platform 4294967295 CLOCK_REALTIME "\<lparr>tv_sec = 0, tv_nsec = 0\<rparr>"
      "clock_time ref_platform 4294967295" 0]
  by (simp add: ref_platform_def platform_ok_def)

text \<open>At 32768 ticks a second the clock's reading of tick 1000000 converts to 999982 ticks.\<close>

lemma clock_roundtrip_fails:
  "timespec2ticks (ref_platform\<lparr>tmr_hz := 32768\<rparr>)
     (Some (clock_time (ref_platform\<lparr>tmr_hz := 32768\<rparr>) 1000000)) (Some 0) = (OK, Some 999982)"
  by code_simp

text \<open>
  C30: \<open>nanosleep\<close>, for at most $2^{32} - 1$ seconds. An invalid time is refused with -1 and
  \<open>EINVAL\<close> and nothing sleeps. A valid one always returns 0 and leaves \<open>errno\<close> alone. If it
  makes at most \<open>UINT_MAX\<close> ticks the task sleeps once, for a number of ticks that covers the
  time and that exceeds it by less than a tick of \<open>NANOSECONDS_PER_TICK\<close> nanoseconds; if it makes
  more, the call returns 0 without having slept.
\<close>

theorem nanosleep_correct:
  assumes "platform_ok P" and "0 \<le> tv_sec ts" and "tv_sec ts \<le> 4294967295"
    and "T = span_ticks P (nanos ts)"
  shows "nanosleep P (Some ts) err =
      (if validate_timespec (Some ts)
       then (OK, err, if T \<le> 4294967295 then [TaskSleep (word_of_int T)] else [])
       else (MinusOne, Some EINVAL, [])) \<and>
    (validate_timespec (Some ts) \<and> T \<le> 4294967295 \<longrightarrow>
       uint (word_of_int T :: u32) = T \<and> nanos ts * uint (tmr_hz P) \<le> T * 1000000000 \<and>
       (T - 1) * NANOSECONDS_PER_TICK P < nanos ts)"
proof (cases "validate_timespec (Some ts)")
  case False
  then show ?thesis by (auto simp: nanosleep_def)
next
  case True
  have T: "ticks_of P ts = T" using ticks_of_span [OF True] assms(4) by simp
  have "0 \<le> T" using ticks_of_nonneg [OF assms(1) True assms(2)] by (simp add: T)
  then show ?thesis
    using nanosleep_valid [OF assms(1) True assms(2,3), of err] ticks_of_covers [OF assms(1) True]
      ticks_of_nominal [OF assms(1,2)] True
    by (simp add: T uint_u32_of_int del: validate_iff)
qed

theorem nanosleep_correct_witness:
  "nanosleep ref_platform (Some \<lparr>tv_sec = 2, tv_nsec = 3\<rparr>) None = (OK, None, [TaskSleep 2001]) \<and>
   nanosleep ref_platform (Some \<lparr>tv_sec = 2, tv_nsec = -3\<rparr>) None = (MinusOne, Some EINVAL, [])"
proof -
  have T: "2001 = span_ticks ref_platform (nanos \<lparr>tv_sec = 2, tv_nsec = 3\<rparr>)"
    by (simp add: span_ticks_def ceil_div_def nanos_def NANOSECONDS_PER_TICK_def NANOSECONDS_PER_SECOND_def
        sdiv_nonneg)
  from nanosleep_correct [OF ref_platform_ok _ _ T, of None]
    nanosleep_correct [OF ref_platform_ok _ _ refl, of "\<lparr>tv_sec = 2, tv_nsec = -3\<rparr>" None]
  show ?thesis by simp
qed

text \<open>
  \<open>clock_nanosleep\<close>. A relative sleep makes the same kernel calls as \<open>nanosleep\<close>, with
  the error returned instead of stored. An absolute sleep never sleeps: whatever the deadline
  and the clock it returns \<open>EINVAL\<close>, because a successful read of the clock is taken as a
  failure.
\<close>

theorem clock_nanosleep_modes:
  "clock_nanosleep P m n c flags rqtp =
     (if flags AND TIMER_ABSTIME = TIMER_ABSTIME then (Err EINVAL, [])
      else if validate_timespec rqtp then (OK, snd (snd (nanosleep P rqtp err)))
      else (Err EINVAL, []))"
  using clock_nanosleep_relative clock_nanosleep_absolute
  by (auto simp: clock_nanosleep_def)



text \<open>
  \<open>sleep\<close> and \<open>usleep\<close> multiply in 32 bits. As long as the product of the argument and
  the tick rate is below $2^{32}$ they sleep the exact number of ticks, rounded down for
  \<open>usleep\<close>; beyond that \<open>usleep\<close> sleeps less than requested: five seconds at 1000 ticks a
  second become 705 ticks.
\<close>

theorem sleep_usleep_ticks:
  "(uint a * uint (tmr_hz P) < 4294967296 \<longrightarrow>
      (\<exists>n. sleep P a = (0, [TaskSleep n]) \<and> uint n = uint a * uint (tmr_hz P)) \<and>
      (\<exists>n. usleep P a = (OK, [TaskSleep n]) \<and> uint n = uint a * uint (tmr_hz P) div 1000000)) \<and>
   usleep ref_platform 5000000 = (OK, [TaskSleep 705])"
proof (intro conjI impI)
  show "usleep ref_platform 5000000 = (OK, [TaskSleep 705])"
    by (simp add: usleep_def ref_platform_def)
next
  assume a: "uint a * uint (tmr_hz P) < 4294967296"
  show "\<exists>n. sleep P a = (0, [TaskSleep n]) \<and> uint n = uint a * uint (tmr_hz P)"
    using u32_mult [OF a] by (simp add: sleep_def)
next
  assume a: "uint a * uint (tmr_hz P) < 4294967296"
  have "uint ((a * tmr_hz P) div 1000000) = uint a * uint (tmr_hz P) div 1000000"
    by (simp only: uint_div_distrib u32_mult [OF a]) simp
  then show "\<exists>n. usleep P a = (OK, [TaskSleep n]) \<and> uint n = uint a * uint (tmr_hz P) div 1000000"
    by (simp add: usleep_def)
qed

theorem sleep_usleep_ticks_witness:
  "\<exists>n. usleep ref_platform 2500 = (OK, [TaskSleep n]) \<and> uint n = 2"
  using sleep_usleep_ticks [of 2500 ref_platform] by (simp add: ref_platform_def)

end
