(* ===== verification/Semaphore.thy ===== *)
theory Semaphore
  imports Clock
begin

text \<open>
  \<open>src/src/posix_semaphore.c\<close> and \<open>sem_getvalue\<close> of \<open>semaphore.h\<close>: POSIX semaphores over
  the kernel's. A call takes the semaphore and \<open>errno\<close> and returns both; \<open>tmr_ticks\<close> is the
  value of its read of the tick counter. The kernel semaphore is a parameter \<open>S\<close>.
\<close>

section \<open>Operations\<close>

definition sem_destroy :: "'s \<Rightarrow> ret \<times> 's" where
  "sem_destroy sem = (OK, sem)"

definition sem_init_posix :: "'s sem_ops \<Rightarrow> 's \<Rightarrow> int \<Rightarrow> u32 \<Rightarrow> ret \<times> 's" where
  "sem_init_posix S sem pshared val = (OK, sem_init S val)"

definition sem_getvalue :: "'s sem_ops \<Rightarrow> 's \<Rightarrow> ret \<times> int" where
  "sem_getvalue S sem = (OK, s32 (int (sem_val S sem)))"

definition sem_timedwait ::
    "platform \<Rightarrow> 's sem_ops \<Rightarrow> u32 \<Rightarrow> 's \<Rightarrow> timespec ptr \<Rightarrow> errno option \<Rightarrow>
       ret \<times> 's \<times> errno option" where
  "sem_timedwait P S tmr_ticks sem abstime err =
     (let (ret, sleep) =
        (case abstime of
           None \<Rightarrow> (OK, Some (WAIT P))
         | Some _ \<Rightarrow>
             if \<not> validate_timespec abstime then (Err EINVAL, Some 0)
             else
               (case clock_gettime P tmr_ticks CLOCK_REALTIME (Some \<lparr>tv_sec = 0, tv_nsec = 0\<rparr>) of
                  (r, cur) \<Rightarrow>
                    (let (ret, sleep) =
                       (if r \<noteq> OK then (Err EINVAL, Some (WAIT P))
                        else abs_timespec2ticks P abstime cur (Some (WAIT P)))
                     in if ret = Err ETIMEDOUT then (ret, Some 0) else (ret, sleep))))
      in case sem_get S sem (the sleep) of
           (got, sem') \<Rightarrow>
             if \<not> got then
               (MinusOne, sem', Some (case ret of Err e \<Rightarrow> e | _ \<Rightarrow> ETIMEDOUT))
             else (OK, sem', err))"

definition sem_trywait ::
    "platform \<Rightarrow> 's sem_ops \<Rightarrow> u32 \<Rightarrow> 's \<Rightarrow> errno option \<Rightarrow> ret \<times> 's \<times> errno option" where
  "sem_trywait P S tmr_ticks sem err =
     (case sem_timedwait P S tmr_ticks sem (Some \<lparr>tv_sec = 0, tv_nsec = 0\<rparr>) err of
        (ret, sem', err') \<Rightarrow>
          if ret = MinusOne \<and> err' = Some ETIMEDOUT then (ret, sem', Some EAGAIN)
          else (ret, sem', err'))"

definition sem_wait ::
    "platform \<Rightarrow> 's sem_ops \<Rightarrow> u32 \<Rightarrow> 's \<Rightarrow> errno option \<Rightarrow> ret \<times> 's \<times> errno option" where
  "sem_wait P S tmr_ticks sem err = sem_timedwait P S tmr_ticks sem None err"

section \<open>Facts\<close>

text \<open>
  What a timed wait does is one call of the kernel; \<open>wait_plan\<close> is the error it will report
  should that call fail, and the timeout of the call.
\<close>

definition wait_plan :: "platform \<Rightarrow> u32 \<Rightarrow> timespec ptr \<Rightarrow> ret \<times> u32" where
  "wait_plan P n abstime =
     (case abstime of
        None \<Rightarrow> (OK, WAIT P)
      | Some a \<Rightarrow>
          if \<not> validate_timespec abstime then (Err EINVAL, 0)
          else if a < clock_time P n then (Err ETIMEDOUT, 0)
          else deadline_ticks P a (clock_time P n) (WAIT P))"

lemma deadline_ticks_not_timedout:
  assumes "platform_ok P" and "near P a c" and "c \<le> a"
  shows "fst (deadline_ticks P a c r) \<noteq> Err ETIMEDOUT"
  using dl.ahead [OF assms, of r] by simp

lemma sem_timedwait_plan:
  assumes "\<And>a. abstime = Some a \<Longrightarrow> clock_time P n \<le> a \<Longrightarrow>
    fst (deadline_ticks P a (clock_time P n) (WAIT P)) \<noteq> Err ETIMEDOUT"
  shows "sem_timedwait P S n sem abstime err =
    (case wait_plan P n abstime of
       (ret, t) \<Rightarrow>
         (case sem_get S sem t of
            (True, sem') \<Rightarrow> (OK, sem', err)
          | (False, sem') \<Rightarrow> (MinusOne, sem', Some (case ret of Err e \<Rightarrow> e | _ \<Rightarrow> ETIMEDOUT))))"
proof (cases abstime)
  case None
  then show ?thesis by (auto simp: sem_timedwait_def wait_plan_def split: prod.splits)
next
  case (Some a)
  show ?thesis
  proof (cases "a < clock_time P n")
    case True
    with Some show ?thesis
      by (auto simp: sem_timedwait_def wait_plan_def deadline_ticks_past split: prod.splits)
  next
    case False
    with assms [OF Some] Some show ?thesis
      by (auto simp: sem_timedwait_def wait_plan_def split: prod.splits)
  qed
qed

text \<open>A try is a call of the kernel that does not wait.\<close>

lemma sem_trywait_poll:
  assumes "platform_ok P" and "1 < uint (tmr_hz P)"
  shows "sem_trywait P S n sem err =
    (case sem_get S sem 0 of
       (True, sem') \<Rightarrow> (OK, sem', err)
     | (False, sem') \<Rightarrow> (MinusOne, sem', Some EAGAIN))"
proof -
  let ?z = "\<lparr>tv_sec = 0, tv_nsec = 0\<rparr> :: timespec"
  have z: "deadline_ticks P ?z ?z (WAIT P) = (OK, 0)" by (rule deadline_zero) fact
  have "sem_timedwait P S n sem (Some ?z) err =
      (case wait_plan P n (Some ?z) of
         (ret, t) \<Rightarrow>
           (case sem_get S sem t of
              (True, sem') \<Rightarrow> (OK, sem', err)
            | (False, sem') \<Rightarrow> (MinusOne, sem', Some (case ret of Err e \<Rightarrow> e | _ \<Rightarrow> ETIMEDOUT))))"
    by (rule sem_timedwait_plan) (use clock_time_0_iff [OF assms, of n] z in \<open>auto simp: not_less [symmetric]\<close>)
  moreover have "wait_plan P n (Some ?z) = (OK, 0) \<or> wait_plan P n (Some ?z) = (Err ETIMEDOUT, 0)"
    using clock_time_0_iff [OF assms, of n] z by (auto simp: wait_plan_def)
  ultimately show ?thesis
    by (auto simp: sem_trywait_def split: prod.splits bool.splits)
qed

text \<open>A run of tries at the given clock readings, and the results.\<close>

fun trywaits :: "platform \<Rightarrow> 's sem_ops \<Rightarrow> u32 list \<Rightarrow> 's \<Rightarrow> ret list \<times> 's" where
  "trywaits P S [] sem = ([], sem)"
| "trywaits P S (n # ns) sem =
     (case sem_trywait P S n sem None of
        (r, sem', _) \<Rightarrow> (case trywaits P S ns sem' of (rs, sem'') \<Rightarrow> (r # rs, sem'')))"

lemma sem_trywait_counting:
  assumes "platform_ok P" and "1 < uint (tmr_hz P)" and "counting_sem S" and "polling_sem S"
  shows "sem_val S sem = 0 \<Longrightarrow> sem_trywait P S n sem err = (MinusOne, sem, Some EAGAIN)"
    and "sem_val S sem = Suc v \<Longrightarrow>
      \<exists>sem'. sem_trywait P S n sem err = (OK, sem', err) \<and> sem_val S sem' = v"
proof -
  have g: "sem_get S sem 0 = (case sem_take S sem of None \<Rightarrow> (False, sem) | Some s' \<Rightarrow> (True, s'))"
    using assms(4) by (simp add: polling_sem_def)
  show "sem_val S sem = 0 \<Longrightarrow> sem_trywait P S n sem err = (MinusOne, sem, Some EAGAIN)"
    using counting_semD(4) [OF assms(3), of sem] g by (simp add: sem_trywait_poll [OF assms(1,2)])
  assume v: "sem_val S sem = Suc v"
  with counting_semD(4) [OF assms(3), of sem] obtain s' where s': "sem_take S sem = Some s'" by auto
  with counting_semD(5) [OF assms(3) s'] v g
  show "\<exists>sem'. sem_trywait P S n sem err = (OK, sem', err) \<and> sem_val S sem' = v"
    by (simp add: sem_trywait_poll [OF assms(1,2)])
qed

text \<open>A timed wait in terms of its plan, and what the plan is.\<close>

lemma sem_timedwait_result:
  assumes "platform_ok P"
    and "\<And>a. abstime = Some a \<Longrightarrow> validate_timespec abstime \<Longrightarrow> near P a (clock_time P n)"
    and "wait_plan P n abstime = (ret, t)"
  shows "sem_timedwait P S n sem abstime err =
    (if fst (sem_get S sem t) then (OK, snd (sem_get S sem t), err)
     else (MinusOne, snd (sem_get S sem t), Some (case ret of Err e \<Rightarrow> e | _ \<Rightarrow> ETIMEDOUT)))"
proof (cases "validate_timespec abstime \<or> abstime = None")
  case True
  then have "sem_timedwait P S n sem abstime err =
    (case wait_plan P n abstime of
     (ret, t) \<Rightarrow>
       (case sem_get S sem t of
          (True, sem') \<Rightarrow> (OK, sem', err)
        | (False, sem') \<Rightarrow> (MinusOne, sem', Some (case ret of Err e \<Rightarrow> e | _ \<Rightarrow> ETIMEDOUT))))"
    using assms(2) deadline_ticks_not_timedout [OF assms(1)] by (intro sem_timedwait_plan) auto
  with assms(3) show ?thesis by (auto split: prod.splits bool.splits)
next
  case False
  with assms(3) show ?thesis
    by (auto simp: sem_timedwait_def wait_plan_def split: prod.splits)
qed

lemma wait_plan_outcome:
  assumes "platform_ok P" and "now = clock_time P n"
    and "\<And>a. abstime = Some a \<Longrightarrow> validate_timespec abstime \<Longrightarrow> near P a now"
  shows "wait_plan P n abstime =
    (case abstime of
       None \<Rightarrow> (OK, WAIT P)
     | Some a \<Rightarrow>
         if \<not> validate_timespec abstime then (Err EINVAL, 0)
         else if a < now then (Err ETIMEDOUT, 0)
         else (if span_ticks P (nanos a - nanos now) \<le> 4294967295 then OK else Err EINVAL,
               word_of_int (span_ticks P (nanos a - nanos now))))"
proof (cases abstime)
  case None
  then show ?thesis by (simp add: wait_plan_def)
next
  case (Some a)
  then show ?thesis
    using assms(3) [OF Some] dl.ahead [OF assms(1), of a now "WAIT P"]
    by (cases "a < now") (auto simp: wait_plan_def assms(2))
qed

section \<open>Properties\<close>

text \<open>
  C21: a timed wait is one kernel call with a timeout \<open>t\<close>. When that succeeds the wait returns 0
  and leaves \<open>errno\<close> alone, whatever was wrong with the deadline; otherwise it returns -1 with
  the \<open>errno\<close> \<open>e\<close>. Without a deadline it waits forever. With an invalid one it polls, and fails
  with \<open>EINVAL\<close>; with a passed one it polls, and fails with \<open>ETIMEDOUT\<close>. With a deadline not
  passed, at most $2^{32} - 1$ seconds ahead, \<open>t\<close> is the ticks of the time left, if they fit
  \<open>unsigned\<close>: they reach the deadline and exceed it by less than a tick, and the wait fails with
  \<open>ETIMEDOUT\<close>. If they do not fit, the code does not refuse the call at once: it waits for the
  ticks modulo $2^{32}$ and then fails with \<open>EINVAL\<close>.
\<close>

theorem sem_timedwait_correct:
  assumes "platform_ok P" and "now = clock_time P n"
    and "\<And>a. abstime = Some a \<Longrightarrow> validate_timespec abstime \<Longrightarrow> near P a now"
  shows "\<exists>t e.
    sem_timedwait P S n sem abstime err =
      (if fst (sem_get S sem t) then (OK, snd (sem_get S sem t), err)
       else (MinusOne, snd (sem_get S sem t), Some e)) \<and>
    (case abstime of
       None \<Rightarrow> t = WAIT P \<and> e = ETIMEDOUT
     | Some a \<Rightarrow>
         let T = span_ticks P (nanos a - nanos now) in
         if \<not> validate_timespec abstime then t = 0 \<and> e = EINVAL
         else if a < now then t = 0 \<and> e = ETIMEDOUT
         else if T \<le> 4294967295 then uint t = T \<and> e = ETIMEDOUT \<and>
           nanos a * uint (tmr_hz P) \<le> nanos now * uint (tmr_hz P) + uint t * 1000000000 \<and>
           nanos now + (uint t - 1) * NANOSECONDS_PER_TICK P < nanos a
         else t = word_of_int T \<and> e = EINVAL)"
proof -
  obtain ret t where plan: "wait_plan P n abstime = (ret, t)" by force
  have outcome: "(ret, t) =
    (case abstime of
       None \<Rightarrow> (OK, WAIT P)
     | Some a \<Rightarrow>
         if \<not> validate_timespec abstime then (Err EINVAL, 0)
         else if a < now then (Err ETIMEDOUT, 0)
         else (if span_ticks P (nanos a - nanos now) \<le> 4294967295 then OK else Err EINVAL,
               word_of_int (span_ticks P (nanos a - nanos now))))"
    using wait_plan_outcome [OF assms] plan by simp
  have near: "\<And>a. abstime = Some a \<Longrightarrow> validate_timespec abstime \<Longrightarrow> near P a (clock_time P n)"
    using assms(2,3) by simp
  let ?e = "case ret of Err e \<Rightarrow> e | _ \<Rightarrow> ETIMEDOUT"
  have "case abstime of
       None \<Rightarrow> t = WAIT P \<and> ?e = ETIMEDOUT
     | Some a \<Rightarrow>
         let T = span_ticks P (nanos a - nanos now) in
         if \<not> validate_timespec abstime then t = 0 \<and> ?e = EINVAL
         else if a < now then t = 0 \<and> ?e = ETIMEDOUT
         else if T \<le> 4294967295 then uint t = T \<and> ?e = ETIMEDOUT \<and>
           nanos a * uint (tmr_hz P) \<le> nanos now * uint (tmr_hz P) + uint t * 1000000000 \<and>
           nanos now + (uint t - 1) * NANOSECONDS_PER_TICK P < nanos a
         else t = word_of_int T \<and> ?e = EINVAL"
  proof (cases abstime)
    case None
    with outcome show ?thesis by simp
  next
    case (Some a)
    show ?thesis
    proof (cases "validate_timespec abstime \<and> \<not> a < now")
      case False
      with Some outcome show ?thesis by (auto simp: Let_def)
    next
      case True
      then have le: "now \<le> a" by (simp add: not_less)
      have D: "0 \<le> nanos a - nanos now" using assms(3) Some True le by (intro dl.span_ok) auto
      show ?thesis
        using Some True outcome dl.ticks_fit [OF assms(1) D] dl.reaches [OF assms(1), of a now]
          span_nominal [OF assms(1) D]
        by (simp add: Let_def split: if_splits)
    qed
  qed
  with sem_timedwait_result [OF assms(1) near plan, of S sem err] show ?thesis by blast
qed

theorem sem_timedwait_correct_witness:
  "sem_timedwait ref_platform (ref_sem\<lparr>sem_get := \<lambda>s t. (False, unat t)\<rparr>) 5 0
     (Some \<lparr>tv_sec = 2, tv_nsec = 1\<rparr>) None = (MinusOne, 1996, Some ETIMEDOUT)"
proof -
  let ?S = "ref_sem\<lparr>sem_get := \<lambda>s t. (False, unat t)\<rparr>" and ?a = "\<lparr>tv_sec = 2, tv_nsec = 1\<rparr> :: timespec"
  have now: "\<lparr>tv_sec = 0, tv_nsec = 5000000\<rparr> = clock_time ref_platform 5" by code_simp
  have T: "span_ticks ref_platform (nanos ?a - nanos \<lparr>tv_sec = 0, tv_nsec = 5000000\<rparr>) = 1996"
    by code_simp
  have "near ref_platform ?a \<lparr>tv_sec = 0, tv_nsec = 5000000\<rparr>"
    by (simp add: near_def fits_def)
  with T sem_timedwait_correct [OF ref_platform_ok now, where abstime = "Some ?a" and S = ?S and sem = 0 and err = None]
  obtain t :: u32 where t: "uint t = 1996"
    and call: "sem_timedwait ref_platform ?S 5 0 (Some ?a) None = (MinusOne, unat t, Some ETIMEDOUT)"
    by (auto simp: Let_def timespec_less_iff simp del: ref_platform_sel ref_sem_sel)
  from t have "unat t = 1996" by (simp add: unat_eq_nat_uint)
  with call show ?thesis by (simp only:)
qed

text \<open>
  C19: a semaphore initialised with \<open>v\<close> reports the value \<open>v\<close>, and of any run of
  \<open>sem_trywait\<close> calls on it, at whatever times, exactly the first \<open>v\<close> succeed; the others
  return -1. (\<open>v\<close> below $2^{31}$, so that it fits the \<open>int\<close> of \<open>sem_getvalue\<close>.)
\<close>

theorem sem_trywait_exactly_value:
  assumes "platform_ok P" and "1 < uint (tmr_hz P)" and "counting_sem S" and "polling_sem S"
    and "unat v < 2147483648"
  shows "sem_getvalue S (snd (sem_init_posix S sem pshared v)) = (OK, int (unat v)) \<and>
    fst (trywaits P S ns (snd (sem_init_posix S sem pshared v))) =
      replicate (min (length ns) (unat v)) OK @ replicate (length ns - unat v) MinusOne"
proof -
  have "fst (trywaits P S ns s) =
      replicate (min (length ns) (sem_val S s)) OK @ replicate (length ns - sem_val S s) MinusOne" for s
  proof (induction ns arbitrary: s)
    case Nil
    then show ?case by simp
  next
    case (Cons n ns)
    show ?case
    proof (cases "sem_val S s")
      case 0
      with sem_trywait_counting(1) [OF assms(1-4)] Cons.IH [of s] show ?thesis
        by (auto split: prod.splits)
    next
      case (Suc k)
      then obtain s' where s': "sem_trywait P S n s None = (OK, s', None)" "sem_val S s' = k"
        using sem_trywait_counting(2) [OF assms(1-4)] by blast
      with Suc Cons.IH [of s'] show ?thesis by (auto split: prod.splits)
    qed
  qed
  moreover have "sem_val S (sem_init S v) = unat v" by (rule counting_semD(1)) fact
  moreover have "s32 (int (unat v)) = int (unat v)"
    using assms(5) by (intro s32_id) linarith+
  ultimately show ?thesis
    by (simp add: sem_init_posix_def sem_getvalue_def)
qed

theorem sem_trywait_exactly_value_witness:
  "fst (trywaits ref_platform ref_sem [7, 8, 9] (snd (sem_init_posix ref_sem 0 0 2))) =
     replicate 2 OK @ replicate 1 MinusOne"
proof -
  have "unat (2 :: u32) = 2" by simp
  with sem_trywait_exactly_value [of ref_platform ref_sem 2 0 0 "[7, 8, 9]"] show ?thesis
    by (simp del: trywaits.simps replicate.simps)
qed

end
