(* ===== verification/Mutex.thy ===== *)
theory Mutex
  imports Semaphore
begin

text \<open>
  \<open>src/src/posix_pthread_mutex.c\<close> and the mutex types of \<open>pthread.h\<close> and \<open>hcos_types.h\<close>.
  The kernel mutex inside a \<open>pthread_mutex_t\<close> is a parameter \<open>M\<close>; \<open>t\<close> is the calling task
  (\<open>_task_cur\<close>).
\<close>

definition PTHREAD_MUTEX_NORMAL :: u32 where
  "PTHREAD_MUTEX_NORMAL = 0"

definition PTHREAD_MUTEX_ERRORCHECK :: u32 where
  "PTHREAD_MUTEX_ERRORCHECK = 1"

definition PTHREAD_MUTEX_RECURSIVE :: u32 where
  "PTHREAD_MUTEX_RECURSIVE = 2"

definition PTHREAD_MUTEX_DEFAULT :: u32 where
  "PTHREAD_MUTEX_DEFAULT = PTHREAD_MUTEX_NORMAL"

lemmas mutex_types = PTHREAD_MUTEX_NORMAL_def PTHREAD_MUTEX_ERRORCHECK_def
  PTHREAD_MUTEX_RECURSIVE_def PTHREAD_MUTEX_DEFAULT_def

record pthread_mutexattr =
  mtype :: u32

record 'm pthread_mutex =
  m_inited :: int
  m_mux :: 'm
  m_attr :: pthread_mutexattr

section \<open>Operations\<close>

definition pthread_mutex_destroy :: "'m pthread_mutex \<Rightarrow> ret \<times> 'm pthread_mutex" where
  "pthread_mutex_destroy mux = (OK, mux)"

definition pthread_mutex_init ::
    "('t, 'm) mut_ops \<Rightarrow> 'm pthread_mutex ptr \<Rightarrow> pthread_mutexattr ptr \<Rightarrow>
       ret \<times> 'm pthread_mutex ptr" where
  "pthread_mutex_init M mux attr =
     (case mux of
        None \<Rightarrow> (Err ENOMEM, None)
      | Some m \<Rightarrow>
          (let ty = (case attr of None \<Rightarrow> PTHREAD_MUTEX_DEFAULT | Some a \<Rightarrow> mtype a)
           in (OK, Some (m\<lparr>m_attr := (m_attr m)\<lparr>mtype := ty\<rparr>, m_mux := mut_init M, m_inited := 1\<rparr>))))"

text \<open>
  The local variable \<open>sleep_ticks\<close> is not initialised in the code: its contents are the
  argument \<open>sleep0\<close>. The result of the kernel's \<open>mut_lock\<close> is not looked at.
\<close>

definition pthread_mutex_timedlock ::
    "platform \<Rightarrow> ('t, 'm) mut_ops \<Rightarrow> 't \<Rightarrow> u32 \<Rightarrow> u32 \<Rightarrow> 'm pthread_mutex \<Rightarrow> timespec ptr \<Rightarrow>
       ret \<times> 'm pthread_mutex" where
  "pthread_mutex_timedlock P M t tmr_ticks sleep0 mux abstime =
     (if m_inited mux = 0 then (Err EINVAL, mux)
      else
        (let (ret, sleep_ticks) =
           (case abstime of
              None \<Rightarrow> (OK, Some sleep0)
            | Some _ \<Rightarrow>
                (let (ret, sleep_ticks) =
                   (case clock_gettime P tmr_ticks CLOCK_REALTIME (Some \<lparr>tv_sec = 0, tv_nsec = 0\<rparr>) of
                      (r, cur) \<Rightarrow>
                        if r \<noteq> OK then (Err EINVAL, Some sleep0)
                        else abs_timespec2ticks P abstime cur (Some sleep0))
                 in if ret = Err ETIMEDOUT then (OK, Some 0) else (ret, sleep_ticks)));
             ret = (if ret = OK \<and> mtype (m_attr mux) = PTHREAD_MUTEX_ERRORCHECK \<and>
                       own M (m_mux mux) = Some t
                    then Err EDEADLK else ret)
         in if ret = OK then (ret, mux\<lparr>m_mux := snd (mut_lock M t (m_mux mux) (the sleep_ticks))\<rparr>)
            else (ret, mux)))"

definition pthread_mutex_lock ::
    "platform \<Rightarrow> ('t, 'm) mut_ops \<Rightarrow> 't \<Rightarrow> u32 \<Rightarrow> u32 \<Rightarrow> 'm pthread_mutex \<Rightarrow>
       ret \<times> 'm pthread_mutex" where
  "pthread_mutex_lock P M t tmr_ticks sleep0 mux =
     pthread_mutex_timedlock P M t tmr_ticks sleep0 mux None"

definition pthread_mutex_trylock ::
    "platform \<Rightarrow> ('t, 'm) mut_ops \<Rightarrow> 't \<Rightarrow> u32 \<Rightarrow> u32 \<Rightarrow> 'm pthread_mutex \<Rightarrow>
       ret \<times> 'm pthread_mutex" where
  "pthread_mutex_trylock P M t tmr_ticks sleep0 mux =
     (case pthread_mutex_timedlock P M t tmr_ticks sleep0 mux (Some \<lparr>tv_sec = 0, tv_nsec = 0\<rparr>) of
        (ret, mux') \<Rightarrow> (if ret = Err ETIMEDOUT then Err EBUSY else ret, mux'))"

definition pthread_mutex_unlock ::
    "('t, 'm) mut_ops \<Rightarrow> 't \<Rightarrow> 'm pthread_mutex \<Rightarrow> ret \<times> 'm pthread_mutex" where
  "pthread_mutex_unlock M t mux =
     (if m_inited mux = 0 then (Err EINVAL, mux)
      else if (mtype (m_attr mux) = PTHREAD_MUTEX_ERRORCHECK \<or>
               mtype (m_attr mux) = PTHREAD_MUTEX_RECURSIVE) \<and>
              own M (m_mux mux) \<noteq> Some t
      then (Err EPERM, mux)
      else (OK, mux\<lparr>m_mux := mut_unlock M (m_mux mux)\<rparr>))"

definition pthread_mutexattr_destroy :: "pthread_mutexattr \<Rightarrow> ret \<times> pthread_mutexattr" where
  "pthread_mutexattr_destroy attr = (OK, attr)"

definition pthread_mutexattr_gettype :: "pthread_mutexattr \<Rightarrow> ret \<times> int" where
  "pthread_mutexattr_gettype attr = (OK, s32 (uint (mtype attr)))"

definition pthread_mutexattr_init :: "pthread_mutexattr ptr \<Rightarrow> ret \<times> pthread_mutexattr ptr" where
  "pthread_mutexattr_init attr =
     (case attr of
        None \<Rightarrow> (Err EINVAL, None)
      | Some a \<Rightarrow> (OK, Some (a\<lparr>mtype := PTHREAD_MUTEX_DEFAULT\<rparr>)))"

definition pthread_mutexattr_settype :: "pthread_mutexattr \<Rightarrow> int \<Rightarrow> ret \<times> pthread_mutexattr" where
  "pthread_mutexattr_settype attr ty =
     (if ty = sint PTHREAD_MUTEX_NORMAL \<or> ty = sint PTHREAD_MUTEX_RECURSIVE \<or>
         ty = sint PTHREAD_MUTEX_ERRORCHECK
      then (OK, attr\<lparr>mtype := word_of_int ty\<rparr>)
      else (Err EINVAL, attr))"

section \<open>Facts\<close>

definition owner :: "('t, 'm) mut_ops \<Rightarrow> 'm pthread_mutex \<Rightarrow> 't option" where
  "owner M mux = own M (m_mux mux)"

definition owner_checked :: "'m pthread_mutex \<Rightarrow> bool" where
  "owner_checked mux \<longleftrightarrow>
     mtype (m_attr mux) = PTHREAD_MUTEX_ERRORCHECK \<or> mtype (m_attr mux) = PTHREAD_MUTEX_RECURSIVE"

lemma timedlock_uninited:
  "m_inited mux = 0 \<Longrightarrow> pthread_mutex_timedlock P M t n z mux abstime = (Err EINVAL, mux)"
  by (simp add: pthread_mutex_timedlock_def)

text \<open>The deadline of an initialised mutex: the error, or the timeout given to the kernel.\<close>

definition lock_plan :: "platform \<Rightarrow> u32 \<Rightarrow> u32 \<Rightarrow> timespec ptr \<Rightarrow> ret \<times> u32" where
  "lock_plan P n z abstime =
     (case abstime of
        None \<Rightarrow> (OK, z)
      | Some a \<Rightarrow>
          (case deadline_ticks P a (clock_time P n) z of
             (r, k) \<Rightarrow> if r = Err ETIMEDOUT then (OK, 0) else (r, k)))"

lemma timedlock_plan:
  assumes "m_inited mux \<noteq> 0"
  shows "pthread_mutex_timedlock P M t n z mux abstime =
    (case lock_plan P n z abstime of
       (r, k) \<Rightarrow>
         if r \<noteq> OK then (r, mux)
         else if mtype (m_attr mux) = PTHREAD_MUTEX_ERRORCHECK \<and> owner M mux = Some t
         then (Err EDEADLK, mux)
         else (OK, mux\<lparr>m_mux := snd (mut_lock M t (m_mux mux) k)\<rparr>))"
  using assms
  by (cases abstime) (auto simp: pthread_mutex_timedlock_def lock_plan_def owner_def split: prod.splits)

lemma lock_plan_zero:
  assumes "platform_ok P" and "1 < uint (tmr_hz P)"
  shows "lock_plan P n z (Some \<lparr>tv_sec = 0, tv_nsec = 0\<rparr>) = (OK, 0)"
  using clock_time_0_iff [OF assms, of n] deadline_zero [OF assms(1)]
  by (auto simp: lock_plan_def deadline_ticks_past)

lemma lock_plan_outcome:
  assumes "platform_ok P" and "now = clock_time P n" and "near P a now" and "T = span_ticks P (nanos a - nanos now)"
  shows "lock_plan P n z (Some a) =
    (if a < now then (OK, 0) else (if T \<le> 4294967295 then OK else Err EINVAL, word_of_int T))"
proof (cases "a < now")
  case True
  with assms(2) show ?thesis by (simp add: lock_plan_def deadline_ticks_past)
next
  case False
  with dl.ahead [OF assms(1,3), of z] assms(2,4) show ?thesis by (simp add: lock_plan_def)
qed

lemma trylock_poll:
  assumes "platform_ok P" and "1 < uint (tmr_hz P)" and "m_inited mux \<noteq> 0"
  shows "pthread_mutex_trylock P M t n z mux =
    (if mtype (m_attr mux) = PTHREAD_MUTEX_ERRORCHECK \<and> owner M mux = Some t
     then (Err EDEADLK, mux)
     else (OK, mux\<lparr>m_mux := snd (mut_lock M t (m_mux mux) 0)\<rparr>))"
  by (simp add: pthread_mutex_trylock_def timedlock_plan [OF assms(3)] lock_plan_zero [OF assms(1,2)])

text \<open>A task other than the holder can neither take nor release an owner-checked mutex.\<close>

lemma trylock_other:
  assumes "platform_ok P" and "1 < uint (tmr_hz P)" and "m_inited mux \<noteq> 0"
    and "mutex_laws M" and "polling_mut M 0" and "owner M mux = Some u" and "t \<noteq> u"
  shows "pthread_mutex_trylock P M t n z mux = (OK, mux)"
proof -
  have "mut_take M t (m_mux mux) = None"
    using mutex_lawsD(5) [OF assms(4), of "m_mux mux" u t] assms(6,7) by (auto simp: owner_def)
  then have "mut_lock M t (m_mux mux) 0 = (False, m_mux mux)"
    using assms(5) by (simp add: polling_mut_def)
  with assms(6,7) show ?thesis by (auto simp: trylock_poll [OF assms(1-3)])
qed

lemma unlock_other:
  "m_inited mux \<noteq> 0 \<Longrightarrow> owner_checked mux \<Longrightarrow> owner M mux \<noteq> Some t \<Longrightarrow>
     pthread_mutex_unlock M t mux = (Err EPERM, mux)"
  by (simp add: pthread_mutex_unlock_def owner_checked_def owner_def)

text \<open>Non-blocking operations by any task, and a run of them.\<close>

datatype 't mop = TryLock 't u32 u32 | Unlock 't

fun mop_task :: "'t mop \<Rightarrow> 't" where
  "mop_task (TryLock t n z) = t"
| "mop_task (Unlock t) = t"

fun mop_run :: "platform \<Rightarrow> ('t, 'm) mut_ops \<Rightarrow> 'm pthread_mutex \<Rightarrow> 't mop list \<Rightarrow> 'm pthread_mutex" where
  "mop_run P M mux [] = mux"
| "mop_run P M mux (TryLock t n z # ops) = mop_run P M (snd (pthread_mutex_trylock P M t n z mux)) ops"
| "mop_run P M mux (Unlock t # ops) = mop_run P M (snd (pthread_mutex_unlock M t mux)) ops"

section \<open>Properties\<close>

text \<open>
  The type attribute. \<open>settype\<close> accepts exactly the three mutex types and refuses
  anything else with \<open>EINVAL\<close>, leaving the attribute alone; an accepted type is read back by
  \<open>gettype\<close> and is the type of a mutex initialised with the attribute, while a null
  attribute gives the default type and a fresh mutex is free and initialised.
\<close>

theorem mutexattr_type_roundtrip:
  assumes "mutex_laws M" and "pthread_mutexattr_settype a ty = (r, a')"
    and "pthread_mutex_init M (Some m) (Some a') = (r1, Some m1)"
    and "pthread_mutex_init M (Some m) None = (r2, Some m2)"
  shows "(r = OK \<longleftrightarrow> ty \<in> {0, 1, 2}) \<and>
    (r = OK \<longrightarrow> pthread_mutexattr_gettype a' = (OK, ty) \<and> uint (mtype (m_attr m1)) = ty) \<and>
    (r \<noteq> OK \<longrightarrow> r = Err EINVAL \<and> a' = a) \<and>
    r1 = OK \<and> owner M m1 = None \<and> m_inited m1 \<noteq> 0 \<and>
    mtype (m_attr m2) = PTHREAD_MUTEX_DEFAULT \<and>
    pthread_mutex_init M None (Some a) = (Err ENOMEM, None)"
  using assms mutex_lawsD(1) [OF assms(1)]
  by (auto simp: pthread_mutexattr_settype_def pthread_mutexattr_gettype_def pthread_mutex_init_def
      mutex_types owner_def s32_id Let_def split: if_splits)

theorem mutexattr_type_roundtrip_witness:
  "pthread_mutexattr_gettype (snd (pthread_mutexattr_settype \<lparr>mtype = 0\<rparr> 2)) = (OK, 2)"
proof -
  let ?m = "\<lparr>m_inited = 0, m_mux = None :: nat option, m_attr = \<lparr>mtype = 0\<rparr>\<rparr>"
  obtain r a' where a': "pthread_mutexattr_settype \<lparr>mtype = 0\<rparr> 2 = (r, a')" by force
  obtain m1 where m1: "pthread_mutex_init ref_mut (Some ?m) (Some a') = (OK, Some m1)"
    by (simp add: pthread_mutex_init_def Let_def)
  obtain m2 where m2: "pthread_mutex_init ref_mut (Some ?m) None = (OK, Some m2)"
    by (simp add: pthread_mutex_init_def Let_def)
  from mutexattr_type_roundtrip [OF ref_mut_laws a' m1 m2] a' show ?thesis by simp
qed

text \<open>
  An owner-checked mutex (error-checking or recursive) held by one task is not changed
  by any run of non-blocking lock and unlock calls of other tasks: no other task can take or
  release it.
\<close>

theorem held_mutex_unchanged_by_others:
  assumes "platform_ok P" and "1 < uint (tmr_hz P)" and "mutex_laws M" and "polling_mut M 0"
    and "m_inited mux \<noteq> 0" and "owner_checked mux" and "owner M mux = Some u"
    and "u \<notin> mop_task ` set ops"
  shows "mop_run P M mux ops = mux"
  using assms(8)
proof (induction ops)
  case Nil
  then show ?case by simp
next
  case (Cons op ops)
  then show ?case
    using trylock_other [OF assms(1,2,5,3,4,7)] unlock_other [OF assms(5,6), of M] assms(7)
    by (cases op) auto
qed

theorem held_mutex_unchanged_by_others_witness:
  "mop_run ref_platform ref_mut
     \<lparr>m_inited = 1, m_mux = Some (1 :: nat), m_attr = \<lparr>mtype = 1\<rparr>\<rparr> [TryLock 2 5 9, Unlock 3] =
   \<lparr>m_inited = 1, m_mux = Some 1, m_attr = \<lparr>mtype = 1\<rparr>\<rparr>"
  using held_mutex_unchanged_by_others [of ref_platform ref_mut
      "\<lparr>m_inited = 1, m_mux = Some (1 :: nat), m_attr = \<lparr>mtype = 1\<rparr>\<rparr>" 1 "[TryLock 2 5 9, Unlock 3]"]
  by (simp add: owner_checked_def owner_def mutex_types del: mop_run.simps)

text \<open>
  C20: a timed lock of an initialised mutex, with a valid deadline at most $2^{32} - 1$ seconds
  ahead. If the ticks of the time left exceed \<open>UINT_MAX\<close> the call returns \<open>EINVAL\<close>, and otherwise,
  if the mutex is error-checking and the caller holds it, \<open>EDEADLK\<close>; both leave the mutex alone.
  In every other case the kernel is asked once, with timeout 0 if the deadline has passed and
  else with the ticks of the time left, which reach the deadline and exceed it by less than a
  tick. The call then returns 0 whether the kernel gave the lock or not: it never reports
  \<open>ETIMEDOUT\<close>.
\<close>

theorem timedlock_deadline:
  assumes "platform_ok P" and "m_inited mux \<noteq> 0" and "now = clock_time P n" and "near P a now"
    and "T = span_ticks P (nanos a - nanos now)"
  shows "pthread_mutex_timedlock P M t n z mux (Some a) =
      (if now \<le> a \<and> 4294967295 < T then (Err EINVAL, mux)
       else if mtype (m_attr mux) = PTHREAD_MUTEX_ERRORCHECK \<and> owner M mux = Some t then (Err EDEADLK, mux)
       else (OK, mux\<lparr>m_mux := snd (mut_lock M t (m_mux mux) (if a < now then 0 else word_of_int T))\<rparr>)) \<and>
    (now \<le> a \<and> T \<le> 4294967295 \<longrightarrow> uint (word_of_int T :: u32) = T \<and>
       nanos a * uint (tmr_hz P) \<le> nanos now * uint (tmr_hz P) + T * 1000000000 \<and>
       nanos now + (T - 1) * NANOSECONDS_PER_TICK P < nanos a)"
proof -
  have "pthread_mutex_timedlock P M t n z mux (Some a) =
      (if now \<le> a \<and> 4294967295 < T then (Err EINVAL, mux)
       else if mtype (m_attr mux) = PTHREAD_MUTEX_ERRORCHECK \<and> owner M mux = Some t then (Err EDEADLK, mux)
       else (OK, mux\<lparr>m_mux := snd (mut_lock M t (m_mux mux) (if a < now then 0 else word_of_int T))\<rparr>))"
    by (simp add: timedlock_plan [OF assms(2)] lock_plan_outcome [OF assms(1,3,4,5)] not_less not_le)
  moreover have "uint (word_of_int T :: u32) = T \<and>
       nanos a * uint (tmr_hz P) \<le> nanos now * uint (tmr_hz P) + T * 1000000000 \<and>
       nanos now + (T - 1) * NANOSECONDS_PER_TICK P < nanos a" if "now \<le> a" "T \<le> 4294967295"
    using dl.ticks_fit [OF assms(1) dl.span_ok [OF assms(4) that(1)]] dl.reaches [OF assms(1), of a now]
      span_nominal [OF assms(1) dl.span_ok [OF assms(4) that(1)]] that(2) by (simp add: assms(5))
  ultimately show ?thesis by blast
qed

theorem timedlock_deadline_witness:
  "pthread_mutex_timedlock ref_platform (ref_mut\<lparr>mut_lock := \<lambda>t m k. (False, if k = 2995 then Some 8 else None)\<rparr>)
      (7 :: nat) 5 9 \<lparr>m_inited = 2, m_mux = None, m_attr = \<lparr>mtype = 2\<rparr>\<rparr> (Some \<lparr>tv_sec = 3, tv_nsec = 0\<rparr>) =
    (OK, \<lparr>m_inited = 2, m_mux = Some 8, m_attr = \<lparr>mtype = 2\<rparr>\<rparr>)"
proof -
  let ?a = "\<lparr>tv_sec = 3, tv_nsec = 0\<rparr> :: timespec"
  let ?M = "ref_mut\<lparr>mut_lock := \<lambda>t m k. (False, if k = 2995 then Some 8 else None)\<rparr> :: (nat, nat option) mut_ops"
  have now: "\<lparr>tv_sec = 0, tv_nsec = 5000000\<rparr> = clock_time ref_platform 5" by code_simp
  have T: "2995 = span_ticks ref_platform (nanos ?a - nanos \<lparr>tv_sec = 0, tv_nsec = 5000000\<rparr>)" by code_simp
  have near: "near ref_platform ?a \<lparr>tv_sec = 0, tv_nsec = 5000000\<rparr>" by (simp add: near_def fits_def)
  from timedlock_deadline [OF ref_platform_ok _ now near T,
      of "\<lparr>m_inited = 2, m_mux = None, m_attr = \<lparr>mtype = 2\<rparr>\<rparr>" ?M 7 9]
  show ?thesis by (simp add: owner_def timespec_less_iff)
qed

text \<open>
  C36: \<open>pthread_mutex_trylock\<close> never reports a busy mutex. On an initialised mutex held by
  another task it returns 0 and leaves the mutex with its holder, and \<open>EBUSY\<close> is never
  returned at all: the result of the kernel's lock is dropped.
\<close>

theorem trylock_claims_busy_mutex:
  assumes "platform_ok P" and "1 < uint (tmr_hz P)" and "mutex_laws M" and "polling_mut M 0"
    and "m_inited mux \<noteq> 0" and "owner M mux = Some u" and "t \<noteq> u"
  shows "pthread_mutex_trylock P M t n z mux = (OK, mux) \<and>
    owner M (snd (pthread_mutex_trylock P M t n z mux)) \<noteq> Some t \<and>
    fst (pthread_mutex_trylock P M t' n' z' mux) \<noteq> Err EBUSY"
  using trylock_other [OF assms(1,2,5,3,4,6,7)] assms(6,7)
  by (simp add: trylock_poll [OF assms(1,2,5)])

theorem trylock_claims_busy_mutex_witness:
  "fst (pthread_mutex_trylock ref_platform ref_mut (2 :: nat) 0 0
     \<lparr>m_inited = 1, m_mux = Some 1, m_attr = \<lparr>mtype = 0\<rparr>\<rparr>) = OK"
  using trylock_claims_busy_mutex [of ref_platform ref_mut
      "\<lparr>m_inited = 1, m_mux = Some (1 :: nat), m_attr = \<lparr>mtype = 0\<rparr>\<rparr>" 1 2]
  by (simp add: owner_def)

text \<open>
  \<open>pthread_mutex_lock\<close> waits for whatever is in an uninitialised local variable. On an
  initialised mutex that is not error-checking it returns 0 whatever that value, and on a
  mutex held by another task, if the value happens to be 0, it returns 0 without the lock.
\<close>

theorem lock_uses_uninitialised_timeout:
  assumes "m_inited mux \<noteq> 0" and "mtype (m_attr mux) \<noteq> PTHREAD_MUTEX_ERRORCHECK"
    and "mutex_laws M" and "polling_mut M 0" and "owner M mux = Some u" and "t \<noteq> u"
  shows "pthread_mutex_lock P M t n z mux = (OK, mux\<lparr>m_mux := snd (mut_lock M t (m_mux mux) z)\<rparr>) \<and>
    pthread_mutex_lock P M t n 0 mux = (OK, mux)"
proof -
  have "mut_take M t (m_mux mux) = None"
    using mutex_lawsD(5) [OF assms(3), of "m_mux mux" u t] assms(5,6) by (auto simp: owner_def)
  then have "mut_lock M t (m_mux mux) 0 = (False, m_mux mux)"
    using assms(4) by (simp add: polling_mut_def)
  with assms(2) show ?thesis
    by (simp add: pthread_mutex_lock_def timedlock_plan [OF assms(1)] lock_plan_def)
qed

theorem lock_uses_uninitialised_timeout_witness:
  "pthread_mutex_lock ref_platform ref_mut (2 :: nat) 0 0
     \<lparr>m_inited = 1, m_mux = Some 1, m_attr = \<lparr>mtype = 0\<rparr>\<rparr> =
   (OK, \<lparr>m_inited = 1, m_mux = Some 1, m_attr = \<lparr>mtype = 0\<rparr>\<rparr>)"
  using lock_uses_uninitialised_timeout [of
      "\<lparr>m_inited = 1, m_mux = Some (1 :: nat), m_attr = \<lparr>mtype = 0\<rparr>\<rparr>" ref_mut 1 2 ref_platform 0]
  by (simp add: owner_def mutex_types)

end
