(* ===== verification/Cond.thy ===== *)
theory Cond
  imports Threads Mutex
begin

text \<open>
  \<open>src/src/posix_pthread_cond.c\<close>: condition variables. The three operations are programs in
  the sense of Threads that share a condition variable and the user's mutex; every access to
  either is a step of its own, the unlocked read of \<open>waiting\<close> in \<open>pthread_cond_signal\<close>
  included.
\<close>

record ('s, 'm) pthread_cond =
  c_inited :: int
  c_mux :: 'm
  c_cond :: 's
  waiting :: int

section \<open>Operations\<close>

definition pthread_cond_destroy :: "('s, 'm) pthread_cond \<Rightarrow> ret \<times> ('s, 'm) pthread_cond" where
  "pthread_cond_destroy cond = (OK, cond)"

definition pthread_cond_init ::
    "'s sem_ops \<Rightarrow> ('t, 'm) mut_ops \<Rightarrow> ('s, 'm) pthread_cond ptr \<Rightarrow>
       ret \<times> ('s, 'm) pthread_cond ptr" where
  "pthread_cond_init S M cond =
     (case cond of
        None \<Rightarrow> (Err ENOMEM, None)
      | Some c \<Rightarrow>
          (OK, Some (c\<lparr>c_inited := 1, c_mux := mut_init M, c_cond := sem_init S 0, waiting := 0\<rparr>)))"

text \<open>
  The kernel and what is shared: the condition variable and the mutex the caller passes.
  \<open>timed\<close> tells whether calls with a deadline are among the calls.
\<close>

record ('t, 's, 'm) cond_env =
  plat :: platform
  sems :: "'s sem_ops"
  muts :: "('t, 'm) mut_ops"
  timed :: bool

record ('s, 'm) cond_shared =
  cv :: "('s, 'm) pthread_cond"
  umux :: "'m pthread_mutex"

text \<open>
  A call of \<open>pthread_mutex_lock\<close> ends when the kernel hands over its mutex, when the timeout
  it passed runs out, or at once with an error. The kernel operation that ends it is
  \<open>mut_take\<close>, or a lock that fails.
\<close>

definition at_take :: "('t, 'm) mut_ops \<Rightarrow> ('t, 'm) mut_ops" where
  "at_take M = M\<lparr>mut_lock := (\<lambda>t m n. case mut_take M t m of None \<Rightarrow> (False, m) | Some m' \<Rightarrow> (True, m'))\<rparr>"

definition at_timeout :: "('t, 'm) mut_ops \<Rightarrow> ('t, 'm) mut_ops" where
  "at_timeout M = M\<lparr>mut_lock := (\<lambda>t m n. (False, m))\<rparr>"

definition relock ::
    "platform \<Rightarrow> ('t, 'm) mut_ops \<Rightarrow> 't \<Rightarrow> 'm pthread_mutex \<Rightarrow> (ret \<times> 'm pthread_mutex) option" where
  "relock P M t mux =
     (case pthread_mutex_lock P (at_take M) t 0 0 mux of
        (r, mux') \<Rightarrow> if r = OK \<and> mut_take M t (m_mux mux) = None then None else Some (r, mux'))"

definition relock_expired ::
    "platform \<Rightarrow> ('t, 'm) mut_ops \<Rightarrow> 't \<Rightarrow> 'm pthread_mutex \<Rightarrow> ret \<times> 'm pthread_mutex" where
  "relock_expired P M t mux = pthread_mutex_lock P (at_timeout M) t 0 0 mux"

text \<open>
  Program points. \<open>CB\<close>, \<open>CS\<close>, \<open>CW\<close> are those of broadcast, signal and wait, \<open>CT\<close> those of a
  wait that has timed out; each stands before the access it is named after. A wait starts
  with its deadline and the reading of the tick counter, and carries its \<open>sleep_ticks\<close>.
\<close>

datatype cpc =
    CIdle
  | CBStart | CBLock | CBPost | CBZero | CBUnlock
  | CSStart | CSPeek | CSLock | CSTest | CSPost | CSDec | CSUnlock
  | CWStart "timespec ptr" u32 | CWLock u32 | CWInc u32 | CWUnlock u32 | CWRelease u32 | CWGet u32
  | CWRelock | CTRelock | CTLock | CTDec | CTUnlock
  | CDone ret

definition lock_cv ::
    "('t, 's, 'm) cond_env \<Rightarrow> 't \<Rightarrow> ('s, 'm) cond_shared \<Rightarrow> cpc \<Rightarrow>
       (('s, 'm) cond_shared \<times> cpc) option" where
  "lock_cv e t sh pc =
     map_option (\<lambda>m. (sh\<lparr>cv := (cv sh)\<lparr>c_mux := m\<rparr>\<rparr>, pc)) (mut_take (muts e) t (c_mux (cv sh)))"

definition unlock_cv ::
    "('t, 's, 'm) cond_env \<Rightarrow> ('s, 'm) cond_shared \<Rightarrow> cpc \<Rightarrow> (('s, 'm) cond_shared \<times> cpc) option" where
  "unlock_cv e sh pc =
     Some (sh\<lparr>cv := (cv sh)\<lparr>c_mux := mut_unlock (muts e) (c_mux (cv sh))\<rparr>\<rparr>, pc)"

fun pthread_cond_broadcast ::
    "('t, 's, 'm) cond_env \<Rightarrow> 't \<Rightarrow> ('s, 'm) cond_shared \<Rightarrow> cpc \<Rightarrow>
       (('s, 'm) cond_shared \<times> cpc) option" where
  "pthread_cond_broadcast e t sh CBStart =
     Some (sh, if c_inited (cv sh) = 0 then CDone (Err EINVAL) else CBLock)"
| "pthread_cond_broadcast e t sh CBLock = lock_cv e t sh CBPost"
| "pthread_cond_broadcast e t sh CBPost =
     Some (sh\<lparr>cv := (cv sh)\<lparr>c_cond :=
       sem_post_n (sems e) (c_cond (cv sh)) (word_of_int (waiting (cv sh)))\<rparr>\<rparr>, CBZero)"
| "pthread_cond_broadcast e t sh CBZero = Some (sh\<lparr>cv := (cv sh)\<lparr>waiting := 0\<rparr>\<rparr>, CBUnlock)"
| "pthread_cond_broadcast e t sh CBUnlock = unlock_cv e sh (CDone OK)"
| "pthread_cond_broadcast e t sh _ = None"

fun pthread_cond_signal ::
    "('t, 's, 'm) cond_env \<Rightarrow> 't \<Rightarrow> ('s, 'm) cond_shared \<Rightarrow> cpc \<Rightarrow>
       (('s, 'm) cond_shared \<times> cpc) option" where
  "pthread_cond_signal e t sh CSStart =
     Some (sh, if c_inited (cv sh) = 0 then CDone (Err EINVAL) else CSPeek)"
| "pthread_cond_signal e t sh CSPeek =
     Some (sh, if waiting (cv sh) > 0 then CSLock else CDone OK)"
| "pthread_cond_signal e t sh CSLock = lock_cv e t sh CSTest"
| "pthread_cond_signal e t sh CSTest =
     Some (sh, if waiting (cv sh) > 0 then CSPost else CSUnlock)"
| "pthread_cond_signal e t sh CSPost =
     Some (sh\<lparr>cv := (cv sh)\<lparr>c_cond := sem_post (sems e) (c_cond (cv sh))\<rparr>\<rparr>, CSDec)"
| "pthread_cond_signal e t sh CSDec =
     Some (sh\<lparr>cv := (cv sh)\<lparr>waiting := s32 (waiting (cv sh) - 1)\<rparr>\<rparr>, CSUnlock)"
| "pthread_cond_signal e t sh CSUnlock = unlock_cv e sh (CDone OK)"
| "pthread_cond_signal e t sh _ = None"

fun pthread_cond_timedwait ::
    "('t, 's, 'm) cond_env \<Rightarrow> 't \<Rightarrow> ('s, 'm) cond_shared \<Rightarrow> cpc \<Rightarrow>
       (('s, 'm) cond_shared \<times> cpc) option" where
  "pthread_cond_timedwait e t sh (CWStart abstime tmr_ticks) =
     Some (sh,
       if c_inited (cv sh) = 0 then CDone (Err EINVAL)
       else
         (let (ret, sleep_ticks) =
            (case abstime of
               None \<Rightarrow> (OK, Some (WAIT (plat e)))
             | Some _ \<Rightarrow>
                 (case clock_gettime (plat e) tmr_ticks CLOCK_REALTIME (Some \<lparr>tv_sec = 0, tv_nsec = 0\<rparr>) of
                    (r, cur) \<Rightarrow>
                      if r \<noteq> OK then (Err EINVAL, Some (WAIT (plat e)))
                      else abs_timespec2ticks (plat e) abstime cur (Some (WAIT (plat e)))))
          in if ret = OK then CWLock (the sleep_ticks) else CDone ret))"
| "pthread_cond_timedwait e t sh (CWLock k) = lock_cv e t sh (CWInc k)"
| "pthread_cond_timedwait e t sh (CWInc k) =
     Some (sh\<lparr>cv := (cv sh)\<lparr>waiting := s32 (waiting (cv sh) + 1)\<rparr>\<rparr>, CWUnlock k)"
| "pthread_cond_timedwait e t sh (CWUnlock k) = unlock_cv e sh (CWRelease k)"
| "pthread_cond_timedwait e t sh (CWRelease k) =
     (case pthread_mutex_unlock (muts e) t (umux sh) of
        (ret, mux) \<Rightarrow> Some (sh\<lparr>umux := mux\<rparr>, if ret = OK then CWGet k else CDone ret))"
| "pthread_cond_timedwait e t sh (CWGet k) =
     map_option (\<lambda>s. (sh\<lparr>cv := (cv sh)\<lparr>c_cond := s\<rparr>\<rparr>, CWRelock)) (sem_take (sems e) (c_cond (cv sh)))"
| "pthread_cond_timedwait e t sh CWRelock =
     map_option (\<lambda>(ret, mux). (sh\<lparr>umux := mux\<rparr>, CDone ret)) (relock (plat e) (muts e) t (umux sh))"
| "pthread_cond_timedwait e t sh CTRelock =
     map_option (\<lambda>(ret, mux). (sh\<lparr>umux := mux\<rparr>, CTLock)) (relock (plat e) (muts e) t (umux sh))"
| "pthread_cond_timedwait e t sh CTLock = lock_cv e t sh CTDec"
| "pthread_cond_timedwait e t sh CTDec =
     Some (sh\<lparr>cv := (cv sh)\<lparr>waiting := s32 (waiting (cv sh) - 1)\<rparr>\<rparr>, CTUnlock)"
| "pthread_cond_timedwait e t sh CTUnlock = unlock_cv e sh (CDone (Err ETIMEDOUT))"
| "pthread_cond_timedwait e t sh _ = None"

text \<open>Timeouts: \<open>sem_get\<close> gives up unless it waits forever, and so may the locks of the mutex.\<close>

fun cond_expire ::
    "('t, 's, 'm) cond_env \<Rightarrow> 't \<Rightarrow> ('s, 'm) cond_shared \<Rightarrow> cpc \<Rightarrow>
       (('s, 'm) cond_shared \<times> cpc) option" where
  "cond_expire e t sh (CWGet k) = (if k = WAIT (plat e) then None else Some (sh, CTRelock))"
| "cond_expire e t sh CWRelock =
     (case relock_expired (plat e) (muts e) t (umux sh) of
        (ret, mux) \<Rightarrow> Some (sh\<lparr>umux := mux\<rparr>, CDone ret))"
| "cond_expire e t sh CTRelock =
     (case relock_expired (plat e) (muts e) t (umux sh) of
        (ret, mux) \<Rightarrow> Some (sh\<lparr>umux := mux\<rparr>, CTLock))"
| "cond_expire e t sh _ = None"

definition pthread_cond_wait :: "u32 \<Rightarrow> cpc" where
  "pthread_cond_wait tmr_ticks = CWStart None tmr_ticks"

definition cond_code ::
    "('t, 's, 'm) cond_env \<Rightarrow> 't \<Rightarrow> ('s, 'm) cond_shared \<Rightarrow> cpc \<Rightarrow>
       (('s, 'm) cond_shared \<times> cpc) option" where
  "cond_code e t sh pc =
     (case pthread_cond_broadcast e t sh pc of
        Some q \<Rightarrow> Some q
      | None \<Rightarrow>
          (case pthread_cond_signal e t sh pc of
             Some q \<Rightarrow> Some q
           | None \<Rightarrow> pthread_cond_timedwait e t sh pc))"

fun cond_entry :: "bool \<Rightarrow> cpc \<Rightarrow> bool" where
  "cond_entry tm CBStart \<longleftrightarrow> True"
| "cond_entry tm CSStart \<longleftrightarrow> True"
| "cond_entry tm (CWStart abstime n) \<longleftrightarrow> tm \<or> abstime = None"
| "cond_entry tm _ \<longleftrightarrow> False"

fun cond_result :: "cpc \<Rightarrow> ret option" where
  "cond_result (CDone r) = Some r"
| "cond_result _ = None"

definition cond_program ::
    "('t, 's, 'm) cond_env \<Rightarrow> ('t, ('s, 'm) cond_shared, cpc, ret) program" where
  "cond_program e =
     \<lparr>code = cond_code e, expire = cond_expire e, entry = cond_entry (timed e), idle = CIdle,
      result = cond_result\<rparr>"

text \<open>Threads start on an initialised condition variable and an initialised normal mutex.\<close>

definition cond_start ::
    "('t, 's, 'm) cond_env \<Rightarrow> ('t, ('s, 'm) cond_shared, cpc, ret) threads \<Rightarrow> bool" where
  "cond_start e s \<longleftrightarrow>
     (\<exists>c. pthread_cond_init (sems e) (muts e) (Some c) = (OK, Some (cv (shared s)))) \<and>
     m_inited (umux (shared s)) \<noteq> 0 \<and> \<not> owner_checked (umux (shared s)) \<and>
     pc_of s = (\<lambda>_. CIdle) \<and> returned s = []"

abbreviation cond_reachable where
  "cond_reachable e \<equiv> reachable (cond_start e) (tstep (cond_program e))"

section \<open>Invariant\<close>

fun c_holding :: "cpc \<Rightarrow> bool" where
  "c_holding CBPost \<longleftrightarrow> True"
| "c_holding CBZero \<longleftrightarrow> True"
| "c_holding CBUnlock \<longleftrightarrow> True"
| "c_holding CSTest \<longleftrightarrow> True"
| "c_holding CSPost \<longleftrightarrow> True"
| "c_holding CSDec \<longleftrightarrow> True"
| "c_holding CSUnlock \<longleftrightarrow> True"
| "c_holding (CWInc k) \<longleftrightarrow> True"
| "c_holding (CWUnlock k) \<longleftrightarrow> True"
| "c_holding CTDec \<longleftrightarrow> True"
| "c_holding CTUnlock \<longleftrightarrow> True"
| "c_holding _ \<longleftrightarrow> False"

text \<open>Threads counted in \<open>waiting\<close> or already paid for by a post that they have not taken.\<close>

fun c_counted :: "cpc \<Rightarrow> bool" where
  "c_counted (CWUnlock k) \<longleftrightarrow> True"
| "c_counted (CWRelease k) \<longleftrightarrow> True"
| "c_counted (CWGet k) \<longleftrightarrow> True"
| "c_counted CTRelock \<longleftrightarrow> True"
| "c_counted CTLock \<longleftrightarrow> True"
| "c_counted CTDec \<longleftrightarrow> True"
| "c_counted _ \<longleftrightarrow> False"

fun c_zeroing :: "cpc \<Rightarrow> bool" where
  "c_zeroing CBZero \<longleftrightarrow> True"
| "c_zeroing _ \<longleftrightarrow> False"

fun c_decing :: "cpc \<Rightarrow> bool" where
  "c_decing CSDec \<longleftrightarrow> True"
| "c_decing _ \<longleftrightarrow> False"

fun c_sure :: "cpc \<Rightarrow> bool" where
  "c_sure CSPost \<longleftrightarrow> True"
| "c_sure CSDec \<longleftrightarrow> True"
| "c_sure _ \<longleftrightarrow> False"

text \<open>
  The books of a condition variable: the waiters on record and the posts not yet taken, less
  the threads that wait and the signal that has posted but not yet counted down.
\<close>

definition balance :: "'s sem_ops \<Rightarrow> ('t, ('s, 'm) cond_shared, cpc, ret) threads \<Rightarrow> int" where
  "balance S s =
     (if num_at (pc_of s) c_zeroing = 0 then waiting (cv (shared s)) else 0) +
     int (sem_val S (c_cond (cv (shared s)))) -
     int (num_at (pc_of s) c_counted) - int (num_at (pc_of s) c_decing)"

text \<open>What wrap-around adds to the books in one step.\<close>

fun slip :: "cpc \<Rightarrow> int \<Rightarrow> int" where
  "slip (CWInc k) w = s32 (w + 1) - (w + 1)"
| "slip CSDec w = s32 (w - 1) - (w - 1)"
| "slip CTDec w = s32 (w - 1) - (w - 1)"
| "slip CBPost w = uint (word_of_int w :: u32) - w"
| "slip _ w = 0"

lemma s32_dvd: "4294967296 dvd s32 x - x"
proof -
  have "take_bit 32 (s32 x) = take_bit 32 x"
    by (simp add: s32_def swrap_def take_bit_signed_take_bit)
  then show ?thesis by (simp add: take_bit_eq_mod mod_eq_dvd_iff)
qed

lemma slip_dvd: "4294967296 dvd slip pc w"
proof -
  have "4294967296 dvd w mod 4294967296 - w" by (simp add: mod_eq_dvd_iff [symmetric])
  then show ?thesis by (cases pc) (auto simp: s32_dvd uint_word_of_int)
qed

lemma slip_0: "0 \<le> w \<Longrightarrow> w < 2147483647 \<Longrightarrow> pc \<noteq> CTDec \<Longrightarrow> (c_sure pc \<Longrightarrow> 0 < w) \<Longrightarrow> slip pc w = 0"
  by (cases pc) (auto simp: c_arith uint_word_of_int)

definition cond_ok :: "('t, 's, 'm) cond_env \<Rightarrow> bool" where
  "cond_ok e \<longleftrightarrow> counting_sem (sems e) \<and> mutex_laws (muts e)"

definition cond_safe :: "('t, 's, 'm) cond_env \<Rightarrow> ('t, ('s, 'm) cond_shared, cpc, ret) threads \<Rightarrow> bool" where
  "cond_safe e s \<longleftrightarrow>
     finite (threads_at (pc_of s) (\<lambda>pc. pc \<noteq> CIdle)) \<and>
     mutex_excl (muts e) (c_mux (cv (shared s))) (pc_of s) c_holding \<and>
     m_inited (umux (shared s)) \<noteq> 0 \<and> \<not> owner_checked (umux (shared s))"

lemma c_places:
  assumes "finite (threads_at pcs (\<lambda>pc. pc \<noteq> CIdle))"
  shows "finite (threads_at pcs c_counted)" "finite (threads_at pcs c_zeroing)"
    "finite (threads_at pcs c_decing)"
  using assms by (auto intro: finite_at)

text \<open>The normal mutex stays initialised and its operations succeed.\<close>

lemma unlock_normal:
  "m_inited mux \<noteq> 0 \<Longrightarrow> \<not> owner_checked mux \<Longrightarrow>
     pthread_mutex_unlock M t mux = (OK, mux\<lparr>m_mux := mut_unlock M (m_mux mux)\<rparr>)"
  by (simp add: pthread_mutex_unlock_def owner_checked_def)

lemma lock_normal:
  "m_inited mux \<noteq> 0 \<Longrightarrow> \<not> owner_checked mux \<Longrightarrow>
     pthread_mutex_lock P M t n z mux = (OK, mux\<lparr>m_mux := snd (mut_lock M t (m_mux mux) z)\<rparr>)"
  by (simp add: pthread_mutex_lock_def timedlock_plan lock_plan_def owner_checked_def)

lemma relock_normal:
  assumes "m_inited mux \<noteq> 0" and "\<not> owner_checked mux"
  shows "relock P M t mux = map_option (\<lambda>m. (OK, mux\<lparr>m_mux := m\<rparr>)) (mut_take M t (m_mux mux))"
    and "relock_expired P M t mux = (OK, mux)"
  by (auto simp: relock_def relock_expired_def lock_normal [OF assms] at_take_def at_timeout_def
      split: option.splits)

lemma owner_checked_upd [simp]: "owner_checked (mux\<lparr>m_mux := m\<rparr>) = owner_checked mux"
  by (simp add: owner_checked_def)

lemmas cond_simps = cond_program_def cond_code_def lock_cv_def unlock_cv_def

lemma cond_safe_step:
  assumes "mutex_laws (muts e)" and "cond_safe e s" and "tstep (cond_program e) s s'"
  shows "cond_safe e s'"
  using assms(3)
proof (cases rule: tstep_cases)
  case (call t p)
  with assms(2) show ?thesis
    by (cases p) (auto simp: cond_safe_def cond_simps excl_stay)
next
  case (return t r)
  with assms(2) show ?thesis
    by (cases "pc_of s t") (auto simp: cond_safe_def cond_simps excl_stay)
next
  case (expire t sh p)
  with assms(2) show ?thesis
    by (cases "pc_of s t")
      (auto simp: cond_safe_def cond_simps excl_stay relock_normal split: if_splits)
next
  case (move t sh p)
  then show ?thesis
    using assms(1,2)
    by (cases "pc_of s t")
      (auto simp: cond_safe_def cond_simps excl_stay excl_unlock relock_normal unlock_normal Let_def
        intro: excl_lock split: if_splits option.splits prod.splits)
qed

text \<open>Every step keeps the books, up to wrap-around.\<close>

definition slip_of :: "('t, ('s, 'm) cond_shared, cpc, ret) threads \<Rightarrow> 't \<Rightarrow> int" where
  "slip_of s t = slip (pc_of s t) (waiting (cv (shared s)))"

lemma c_in_section:
  assumes "cond_safe e s" and "c_holding (pc_of s t)"
  shows "num_at (pc_of s) c_zeroing = of_bool (pc_of s t = CBZero)"
    and "num_at (pc_of s) c_decing = of_bool (pc_of s t = CSDec)"
proof -
  have excl: "mutex_excl (muts e) (c_mux (cv (shared s))) (pc_of s) c_holding"
    using assms(1) by (simp add: cond_safe_def)
  have "c_zeroing p \<Longrightarrow> c_holding p" "c_decing p \<Longrightarrow> c_holding p" for p
    by (cases p; simp)+
  with excl_alone [OF excl assms(2), of c_zeroing] excl_alone [OF excl assms(2), of c_decing]
  show "num_at (pc_of s) c_zeroing = of_bool (pc_of s t = CBZero)"
    "num_at (pc_of s) c_decing = of_bool (pc_of s t = CSDec)"
    by (cases "pc_of s t"; simp)+
qed

lemma c_counted_pos:
  "cond_safe e s \<Longrightarrow> c_counted (pc_of s t) \<Longrightarrow> 0 < num_at (pc_of s) c_counted"
  unfolding cond_safe_def by (intro num_at_pos [OF c_places(1)]) auto

lemmas balance_simps = cond_simps balance_def slip_of_def num_at_moves c_places

lemma balance_call:
  assumes "cond_safe e s" and "pc_of s t = CIdle" and "cond_entry tm p"
  shows "balance S (s\<lparr>pc_of := (pc_of s)(t := p)\<rparr>) = balance S s"
  using assms by (cases p) (auto simp: balance_simps cond_safe_def)

lemma balance_return:
  assumes "cond_safe e s" and "pc_of s t = CDone r"
  shows "balance S (s\<lparr>pc_of := (pc_of s)(t := CIdle), returned := rs\<rparr>) = balance S s"
  using assms by (auto simp: balance_simps cond_safe_def)

lemma balance_expire:
  assumes "cond_safe e s" and "cond_expire e t (shared s) (pc_of s t) = Some (sh, p)"
  shows "balance S (s\<lparr>shared := sh, pc_of := (pc_of s)(t := p)\<rparr>) = balance S s"
  using assms
  by (cases "pc_of s t")
    (auto simp: balance_simps cond_safe_def relock_normal split: if_splits prod.splits)

lemma balance_broadcast:
  assumes "counting_sem (sems e)" and "cond_safe e s"
    and "pthread_cond_broadcast e t (shared s) (pc_of s t) = Some (sh, p)"
  shows "balance (sems e) (s\<lparr>shared := sh, pc_of := (pc_of s)(t := p)\<rparr>) =
    balance (sems e) s + slip_of s t"
proof -
  have fin: "finite (threads_at (pc_of s) (\<lambda>pc. pc \<noteq> CIdle))" using assms(2) by (simp add: cond_safe_def)
  show ?thesis
    using assms(3) c_in_section [OF assms(2), of t] fin
    by (cases "pc_of s t")
      (auto simp: balance_simps counting_semD(3) [OF assms(1)] uint_word_of_int)
qed

lemma balance_signal:
  assumes "counting_sem (sems e)" and "cond_safe e s"
    and "pthread_cond_signal e t (shared s) (pc_of s t) = Some (sh, p)"
  shows "balance (sems e) (s\<lparr>shared := sh, pc_of := (pc_of s)(t := p)\<rparr>) =
    balance (sems e) s + slip_of s t"
proof -
  have fin: "finite (threads_at (pc_of s) (\<lambda>pc. pc \<noteq> CIdle))" using assms(2) by (simp add: cond_safe_def)
  show ?thesis
    using assms(3) c_in_section [OF assms(2), of t] fin
    by (cases "pc_of s t")
      (auto simp: balance_simps counting_semD(2) [OF assms(1)])
qed

lemma balance_wait:
  assumes "counting_sem (sems e)" and "cond_safe e s"
    and "pthread_cond_timedwait e t (shared s) (pc_of s t) = Some (sh, p)"
  shows "balance (sems e) (s\<lparr>shared := sh, pc_of := (pc_of s)(t := p)\<rparr>) =
    balance (sems e) s + slip_of s t"
proof -
  have fin: "finite (threads_at (pc_of s) (\<lambda>pc. pc \<noteq> CIdle))" using assms(2) by (simp add: cond_safe_def)
  have norm: "m_inited (umux (shared s)) \<noteq> 0" "\<not> owner_checked (umux (shared s))"
    using assms(2) by (simp_all add: cond_safe_def)
  have take: "int (sem_val (sems e) x) = int (sem_val (sems e) y) - 1"
    if "sem_take (sems e) y = Some x" for x y
    using counting_semD(5) [OF assms(1) that] by linarith
  show ?thesis
    using assms(3) c_in_section [OF assms(2), of t] c_counted_pos [OF assms(2), of t] fin
    by (cases "pc_of s t")
      (auto simp: balance_simps relock_normal [OF norm] unlock_normal [OF norm] take Let_def
        of_nat_diff split: prod.splits)
qed

lemma balance_step:
  assumes "counting_sem (sems e)" and "cond_safe e s" and "tstep (cond_program e) s s'"
  shows "\<exists>t. balance (sems e) s' = balance (sems e) s \<or>
    balance (sems e) s' = balance (sems e) s + slip_of s t"
  using assms(3)
proof (cases rule: tstep_cases)
  case (call t p)
  with balance_call [OF assms(2), of t] show ?thesis by (auto simp: cond_program_def)
next
  case (return t r)
  with balance_return [OF assms(2), of t] show ?thesis
    by (cases "pc_of s t") (auto simp: cond_program_def)
next
  case (expire t sh p)
  with balance_expire [OF assms(2), of t] show ?thesis by (auto simp: cond_program_def)
next
  case (move t sh p)
  with balance_broadcast [OF assms(1,2), of t] balance_signal [OF assms(1,2), of t]
    balance_wait [OF assms(1,2), of t]
  show ?thesis
    by (auto simp: cond_program_def cond_code_def split: option.splits intro!: exI [of _ t])
qed

definition cond_inv :: "('t, 's, 'm) cond_env \<Rightarrow> ('t, ('s, 'm) cond_shared, cpc, ret) threads \<Rightarrow> bool" where
  "cond_inv e s \<longleftrightarrow> cond_safe e s \<and> 4294967296 dvd balance (sems e) s"

lemma cond_start_facts:
  assumes "cond_ok e" and "cond_start e s"
  shows "cond_safe e s" and "balance (sems e) s = 0" and "waiting (cv (shared s)) = 0"
    and "pc_of s t = CIdle"
proof -
  from assms(2) obtain c where
    "pthread_cond_init (sems e) (muts e) (Some c) = (OK, Some (cv (shared s)))"
    unfolding cond_start_def by blast
  then have c: "cv (shared s) =
      c\<lparr>c_inited := 1, c_mux := mut_init (muts e), c_cond := sem_init (sems e) 0, waiting := 0\<rparr>"
    by (simp add: pthread_cond_init_def)
  have s: "pc_of s = (\<lambda>_. CIdle)" "m_inited (umux (shared s)) \<noteq> 0" "\<not> owner_checked (umux (shared s))"
    using assms(2) by (simp_all add: cond_start_def)
  show "cond_safe e s"
    using assms(1) by (simp add: cond_safe_def s c excl_init cond_ok_def threads_at_def)
  show "balance (sems e) s = 0"
    using counting_semD(1) [of "sems e" 0] assms(1)
    by (simp add: balance_def s c cond_ok_def num_at_def threads_at_def)
  show "waiting (cv (shared s)) = 0" by (simp add: c)
  show "pc_of s t = CIdle" by (simp add: s)
qed

lemma cond_inv_step:
  assumes "cond_ok e" and "cond_inv e s" and "tstep (cond_program e) s s'"
  shows "cond_inv e s'"
proof -
  have k: "counting_sem (sems e)" "mutex_laws (muts e)" using assms(1) by (simp_all add: cond_ok_def)
  have safe: "cond_safe e s" and dvd: "4294967296 dvd balance (sems e) s"
    using assms(2) by (simp_all add: cond_inv_def)
  obtain t where "balance (sems e) s' = balance (sems e) s \<or>
      balance (sems e) s' = balance (sems e) s + slip_of s t"
    using balance_step [OF k(1) safe assms(3)] by blast
  then have "4294967296 dvd balance (sems e) s'"
  proof
    assume "balance (sems e) s' = balance (sems e) s + slip_of s t"
    then show ?thesis using dvd slip_dvd by (simp only: slip_of_def dvd_add)
  qed (simp only: dvd)
  with cond_safe_step [OF k(2) safe assms(3)] show ?thesis by (simp only: cond_inv_def)
qed

interpretation cs: invariant_system cond_ok cond_start "\<lambda>e. tstep (cond_program e)" cond_inv
proof unfold_locales
  show "cond_inv e s" if "cond_ok e" and "cond_start e s"
    for e :: "('t, 's, 'm) cond_env" and s
    using cond_start_facts(1,2) [OF that] by (simp add: cond_inv_def)
qed (rule cond_inv_step)

section \<open>Without deadlines\<close>

text \<open>Waits without a deadline never time out; the books are exact.\<close>

fun c_untimed :: "u32 \<Rightarrow> cpc \<Rightarrow> bool" where
  "c_untimed w (CWStart a n) \<longleftrightarrow> a = None"
| "c_untimed w (CWLock k) \<longleftrightarrow> k = w"
| "c_untimed w (CWInc k) \<longleftrightarrow> k = w"
| "c_untimed w (CWUnlock k) \<longleftrightarrow> k = w"
| "c_untimed w (CWRelease k) \<longleftrightarrow> k = w"
| "c_untimed w (CWGet k) \<longleftrightarrow> k = w"
| "c_untimed w CTRelock \<longleftrightarrow> False"
| "c_untimed w CTLock \<longleftrightarrow> False"
| "c_untimed w CTDec \<longleftrightarrow> False"
| "c_untimed w CTUnlock \<longleftrightarrow> False"
| "c_untimed w _ \<longleftrightarrow> True"

text \<open>The tasks of the system are fewer than an \<open>int\<close> can count.\<close>

definition cond_exact_ok :: "('t, 's, 'm) cond_env \<Rightarrow> bool" where
  "cond_exact_ok e \<longleftrightarrow> cond_ok e \<and> \<not> timed e \<and>
     finite (UNIV :: 't set) \<and> card (UNIV :: 't set) < 2147483646"

definition cond_exact :: "('t, 's, 'm) cond_env \<Rightarrow> ('t, ('s, 'm) cond_shared, cpc, ret) threads \<Rightarrow> bool" where
  "cond_exact e s \<longleftrightarrow>
     cond_safe e s \<and> balance (sems e) s = 0 \<and> 0 \<le> waiting (cv (shared s)) \<and>
     (\<forall>t. c_untimed (WAIT (plat e)) (pc_of s t) \<and>
       (c_sure (pc_of s t) \<longrightarrow> 0 < waiting (cv (shared s))))"

lemma untimed_step:
  assumes "\<not> timed e" and "\<And>t. c_untimed (WAIT (plat e)) (pc_of s t)"
    and "tstep (cond_program e) s s'"
  shows "c_untimed (WAIT (plat e)) (pc_of s' u)"
  using assms(3)
proof (cases rule: tstep_cases)
  case (call t p)
  with assms(1,2) show ?thesis by (cases p) (auto simp: cond_simps)
next
  case (return t r)
  with assms(2) show ?thesis by (auto simp: cond_simps)
next
  case (expire t sh p)
  with assms(2) [of t] assms(2) [of u] show ?thesis
    by (cases "pc_of s t") (auto simp: cond_simps split: prod.splits)
next
  case (move t sh p)
  with assms(2) [of t] assms(2) [of u] show ?thesis
    by (cases "pc_of s t") (auto simp: cond_simps split: prod.splits option.splits)
qed

lemma waiting_bound:
  assumes "cond_exact_ok e" and "cond_exact e s" and "c_holding (pc_of s t)" and "pc_of s t \<noteq> CBZero"
  shows "waiting (cv (shared s)) < 2147483647"
proof -
  have "num_at (pc_of s) c_counted \<le> card (UNIV :: 'a set)"
    unfolding num_at_def using assms(1) by (intro card_mono) (auto simp: cond_exact_ok_def)
  moreover have "num_at (pc_of s) c_zeroing = 0" "num_at (pc_of s) c_decing \<le> 1"
    using c_in_section [of e s t] assms(2-4) by (auto simp: cond_exact_def)
  ultimately show ?thesis
    using assms(1,2) by (auto simp: cond_exact_ok_def cond_exact_def balance_def)
qed

lemma no_slip:
  assumes "cond_exact_ok e" and "cond_exact e s"
  shows "slip_of s t = 0"
proof (cases "c_holding (pc_of s t) \<and> pc_of s t \<noteq> CBZero")
  case True
  then have "waiting (cv (shared s)) < 2147483647" using waiting_bound [OF assms] by blast
  moreover have "pc_of s t \<noteq> CTDec" "0 \<le> waiting (cv (shared s))"
    "c_sure (pc_of s t) \<Longrightarrow> 0 < waiting (cv (shared s))"
    using assms(2) by (auto simp: cond_exact_def dest: spec [of _ t])
  ultimately show ?thesis by (simp add: slip_of_def slip_0)
next
  case False
  then show ?thesis by (cases "pc_of s t") (auto simp: slip_of_def)
qed

lemma waiting_step:
  assumes "cond_exact_ok e" and "cond_exact e s" and "tstep (cond_program e) s s'"
  shows "0 \<le> waiting (cv (shared s')) \<and> (c_sure (pc_of s' u) \<longrightarrow> 0 < waiting (cv (shared s')))"
proof -
  have safe: "cond_safe e s" and w: "0 \<le> waiting (cv (shared s))"
    and sure: "c_sure (pc_of s v) \<Longrightarrow> 0 < waiting (cv (shared s))"
    and unt: "c_untimed (WAIT (plat e)) (pc_of s v)" for v
    using assms(2) by (auto simp: cond_exact_def)
  have hold: "c_sure p \<Longrightarrow> c_holding p" for p by (cases p) auto
  have alone: "c_holding (pc_of s t) \<Longrightarrow> c_sure (pc_of s u) \<Longrightarrow> u = t" for t
    using safe hold [of "pc_of s u"] excl_unique [of "muts e" _ "pc_of s" c_holding t u]
    by (auto simp: cond_safe_def)
  from assms(3) show ?thesis
  proof (cases rule: tstep_cases)
    case (call t p)
    with w sure [of u] show ?thesis by (cases p) (auto simp: cond_simps)
  next
    case (return t r)
    with w sure [of u] show ?thesis by (auto simp: cond_simps)
  next
    case (expire t sh p)
    with w sure [of u] show ?thesis
      by (cases "pc_of s t") (auto simp: cond_simps split: prod.splits if_splits)
  next
    case (move t sh p)
    have b: "c_holding (pc_of s t) \<Longrightarrow> pc_of s t \<noteq> CBZero \<Longrightarrow> waiting (cv (shared s)) < 2147483647"
      by (rule waiting_bound [OF assms(1,2)])
    show ?thesis
      using move w sure [of u] sure [of t] alone [of t] b unt [of t]
      by (cases "pc_of s t") (auto simp: cond_simps c_arith Let_def split: prod.splits option.splits if_splits)
  qed
qed

lemma cond_exact_step:
  assumes "cond_exact_ok e" and "cond_exact e s" and "tstep (cond_program e) s s'"
  shows "cond_exact e s'"
proof -
  have k: "counting_sem (sems e)" "mutex_laws (muts e)" "\<not> timed e"
    using assms(1) by (simp_all add: cond_exact_ok_def cond_ok_def)
  have safe: "cond_safe e s" and bal: "balance (sems e) s = 0"
    and unt: "\<And>t. c_untimed (WAIT (plat e)) (pc_of s t)"
    using assms(2) by (simp_all add: cond_exact_def)
  obtain t where "balance (sems e) s' = balance (sems e) s \<or>
      balance (sems e) s' = balance (sems e) s + slip_of s t"
    using balance_step [OF k(1) safe assms(3)] by blast
  then have "balance (sems e) s' = 0" using bal no_slip [OF assms(1,2)] by auto
  with cond_safe_step [OF k(2) safe assms(3)] untimed_step [OF k(3) unt assms(3)]
    waiting_step [OF assms]
  show ?thesis by (auto simp: cond_exact_def)
qed

interpretation ce: invariant_system cond_exact_ok cond_start "\<lambda>e. tstep (cond_program e)" cond_exact
proof unfold_locales
  show "cond_exact e s" if "cond_exact_ok e" and "cond_start e s"
    for e :: "('t, 's, 'm) cond_env" and s
    using cond_start_facts [OF _ that(2)] that(1) by (simp add: cond_exact_def cond_exact_ok_def)
qed (rule cond_exact_step)

text \<open>A call has at most eleven steps.\<close>

fun c_weight :: "cpc \<Rightarrow> nat" where
  "c_weight CIdle = 0"
| "c_weight (CDone r) = 1"
| "c_weight CBUnlock = 2"
| "c_weight CBZero = 3"
| "c_weight CBPost = 4"
| "c_weight CBLock = 5"
| "c_weight CBStart = 6"
| "c_weight CSUnlock = 2"
| "c_weight CSDec = 3"
| "c_weight CSPost = 4"
| "c_weight CSTest = 5"
| "c_weight CSLock = 6"
| "c_weight CSPeek = 7"
| "c_weight CSStart = 8"
| "c_weight CTUnlock = 2"
| "c_weight CTDec = 3"
| "c_weight CTLock = 4"
| "c_weight CTRelock = 5"
| "c_weight CWRelock = 2"
| "c_weight (CWGet k) = 6"
| "c_weight (CWRelease k) = 7"
| "c_weight (CWUnlock k) = 8"
| "c_weight (CWInc k) = 9"
| "c_weight (CWLock k) = 10"
| "c_weight (CWStart a n) = 11"

lemma cond_code_weight:
  "cond_code e t sh pc = Some (sh', pc') \<Longrightarrow> c_weight pc' < c_weight pc"
  by (cases pc) (auto simp: cond_simps Let_def split: prod.splits if_splits option.splits)

lemma cond_expire_weight:
  "cond_expire e t sh pc = Some (sh', pc') \<Longrightarrow> c_weight pc' < c_weight pc"
  by (cases pc) (auto split: prod.splits if_splits)

interpretation ct: terminating_program cond_program c_weight
proof unfold_locales
  fix e :: "('t, 's, 'm) cond_env" and t sh pc sh' pc' r
  show "c_weight pc' < c_weight pc" if "code (cond_program e) t sh pc = Some (sh', pc')"
    using that by (auto simp: cond_program_def intro: cond_code_weight)
  show "c_weight pc' < c_weight pc" if "expire (cond_program e) t sh pc = Some (sh', pc')"
    using that by (auto simp: cond_program_def intro: cond_expire_weight)
  show "0 < c_weight pc" if "result (cond_program e) pc = Some r"
    using that by (cases pc) (auto simp: cond_program_def)
  show "c_weight (idle (cond_program e)) = 0"
    by (simp add: cond_program_def)
qed

text \<open>Threads blocked on the semaphore, and calls that have not been counted yet.\<close>

fun c_getting :: "cpc \<Rightarrow> bool" where
  "c_getting (CWGet k) \<longleftrightarrow> True"
| "c_getting _ \<longleftrightarrow> False"


lemma cond_stuck:
  assumes "\<nexists>s'. istep (cond_program e) s s'"
  shows "cond_code e t (shared s) (pc_of s t) = None"
    and "cond_result (pc_of s t) = None"
  using assms istep_moveI [of "cond_program e" t s] istep_returnI [of "cond_program e" s t]
  by (metis cond_program_def program.select_convs(1) not_None_eq,
      metis cond_program_def program.select_convs(5) not_None_eq)

lemma quiescent_cond:
  assumes "cond_exact_ok e" and "cond_exact e s" and "\<nexists>s'. istep (cond_program e) s s'"
  shows "waiting (cv (shared s)) = int (num_at (pc_of s) c_getting)"
    and "sem_val (sems e) (c_cond (cv (shared s))) = 0"
proof -
  have k: "counting_sem (sems e)" using assms(1) by (simp add: cond_exact_ok_def cond_ok_def)
  have safe: "cond_safe e s" and bal: "balance (sems e) s = 0" and w: "0 \<le> waiting (cv (shared s))"
    and unt: "\<And>t. c_untimed (WAIT (plat e)) (pc_of s t)"
    using assms(2) by (simp_all add: cond_exact_def)
  have norm: "m_inited (umux (shared s)) \<noteq> 0" "\<not> owner_checked (umux (shared s))"
    using safe by (simp_all add: cond_safe_def)
  note stuck = cond_stuck [OF assms(3)]
  have at: "\<not> c_holding (pc_of s t) \<and> (c_counted (pc_of s t) \<longrightarrow> c_getting (pc_of s t))" for t
    using stuck [of t] unt [of t]
    by (cases "pc_of s t")
      (auto simp: cond_simps unlock_normal [OF norm] Let_def split: if_splits prod.splits)
  have "c_zeroing p \<Longrightarrow> c_holding p" "c_decing p \<Longrightarrow> c_holding p" "c_getting p \<Longrightarrow> c_counted p" for p
    by (cases p; simp)+
  with at have places: "threads_at (pc_of s) c_zeroing = {}" "threads_at (pc_of s) c_decing = {}"
    "threads_at (pc_of s) c_counted = threads_at (pc_of s) c_getting"
    by (auto simp: threads_at_def)
  have eq: "waiting (cv (shared s)) + int (sem_val (sems e) (c_cond (cv (shared s)))) =
      int (num_at (pc_of s) c_getting)"
    using bal by (simp add: balance_def num_at_def places)
  have "sem_val (sems e) (c_cond (cv (shared s))) = 0"
  proof (cases "\<exists>t. c_getting (pc_of s t)")
    case True
    then obtain t j where "pc_of s t = CWGet j" by (auto elim: c_getting.elims)
    then have "sem_take (sems e) (c_cond (cv (shared s))) = None"
      using stuck(1) [of t] by (simp add: cond_code_def)
    then show ?thesis by (simp add: counting_semD(4) [OF k])
  next
    case False
    then have "num_at (pc_of s) c_getting = 0" by (simp add: num_at_def threads_at_def)
    with eq w show ?thesis by linarith
  qed
  with eq show "waiting (cv (shared s)) = int (num_at (pc_of s) c_getting)"
    "sem_val (sems e) (c_cond (cv (shared s))) = 0" by simp_all
qed





lemma ct_active_finite:
  assumes "cond_safe e s"
  shows "finite (ct.active s)"
  using assms unfolding ct.active_def cond_safe_def by (auto intro: finite_at)

section \<open>Reference runs\<close>

definition ref_cond_env :: "bool \<Rightarrow> ('t, nat, 't option) cond_env" where
  "ref_cond_env tm = \<lparr>plat = ref_platform, sems = ref_sem, muts = ref_mut, timed = tm\<rparr>"

definition ref_cond :: "('t, (nat, 't option) cond_shared, cpc, ret) threads" where
  "ref_cond =
     \<lparr>shared =
        \<lparr>cv = \<lparr>c_inited = 1, c_mux = None, c_cond = 0, waiting = 0\<rparr>,
         umux = \<lparr>m_inited = 1, m_mux = None, m_attr = \<lparr>mtype = 0\<rparr>\<rparr>\<rparr>,
      pc_of = (\<lambda>_. CIdle), returned = []\<rparr>"

lemma ref_cond_start: "cond_start (ref_cond_env tm) ref_cond"
proof -
  have "pthread_cond_init (sems (ref_cond_env tm)) (muts (ref_cond_env tm)) (Some (cv (shared ref_cond))) =
      (OK, Some (cv (shared ref_cond)))"
    by (simp add: ref_cond_env_def ref_cond_def pthread_cond_init_def)
  then show ?thesis
    by (auto simp: cond_start_def) (simp_all add: ref_cond_def owner_checked_def mutex_types)
qed

lemma ref_cond_run:
  "cond_reachable (ref_cond_env tm) (run_schedule (cond_program (ref_cond_env tm)) as ref_cond)"
  by (intro reachable_schedule reach_init ref_cond_start)

lemma ref_cond_ok: "cond_ok (ref_cond_env tm)"
  by (simp add: cond_ok_def ref_cond_env_def)

lemma ref_cond_exact_ok: "cond_exact_ok (ref_cond_env False :: (bool, nat, bool option) cond_env)"
  by (simp add: cond_exact_ok_def ref_cond_ok) (simp add: ref_cond_env_def)

text \<open>Task \<open>True\<close> waits; task \<open>False\<close> broadcasts.\<close>

definition wait_true :: "(bool, cpc) action list" where
  "wait_true = Call True (pthread_cond_wait 0) #
     [Move True, Move True, Move True, Move True, Move True]"

definition broadcast_false :: "(bool, cpc) action list" where
  "broadcast_false = Call False CBStart #
     [Move False, Move False, Move False, Move False, Move False] @ [Return False]"

lemmas cond_run_simps = ref_cond_def wait_true_def broadcast_false_def cond_simps
  pthread_cond_wait_def ref_cond_env_def Let_def relock_normal unlock_normal
  owner_checked_def mutex_types

section \<open>Properties\<close>

text \<open>
  C3: the books of a condition variable that is used with a normal mutex, with any
  number of threads, deadlines and timeouts and in every interleaving. Outside the last step of
  a broadcast, the waiters on record plus the posts not yet taken are the threads that wait (and
  a signal that has posted but not counted down), up to multiples of $2^{32}$.
\<close>

theorem cond_books:
  assumes "cond_ok e" and "cond_reachable e s" and "num_at (pc_of s) c_zeroing = 0"
  shows "(waiting (cv (shared s)) + int (sem_val (sems e) (c_cond (cv (shared s))))) mod 2 ^ 32 =
    (int (num_at (pc_of s) c_counted) + int (num_at (pc_of s) c_decing)) mod 2 ^ 32"
  using cs.inv_reachable [OF assms(1,2)] assms(3)
  by (simp add: cond_inv_def balance_def mod_eq_dvd_iff algebra_simps)

theorem cond_books_witness:
  "num_at (pc_of (run_schedule (cond_program (ref_cond_env False)) wait_true ref_cond)) c_counted = 1"
proof -
  let ?s = "run_schedule (cond_program (ref_cond_env False)) wait_true ref_cond ::
    (bool, (nat, bool option) cond_shared, cpc, ret) threads"
  have s: "pc_of ?s = (\<lambda>_. CIdle)(True := CWGet 4294967295)" "waiting (cv (shared ?s)) = 1"
    "c_cond (cv (shared ?s)) = 0"
    by (simp_all add: cond_run_simps c_arith)
  have z: "num_at (pc_of ?s) c_zeroing = 0" "num_at (pc_of ?s) c_decing = 0"
    by (simp_all add: s num_at_def threads_at_def)
  have "num_at (pc_of ?s) c_counted \<le> card (UNIV :: bool set)"
    unfolding num_at_def by (intro card_mono) simp_all
  moreover from cond_books [OF ref_cond_ok ref_cond_run z(1)] z
  have "int (num_at (pc_of ?s) c_counted) mod 2 ^ 32 = 1"
    by (simp add: s) (simp add: ref_cond_env_def)
  ultimately show ?thesis by simp
qed

text \<open>
  C4: no wake-up is lost, provided no wait has a deadline (and the tasks are fewer than
  $2^{31} - 2$); with deadlines it is not so (\<open>cond_timeout_race\<close>). Runs without new calls are finite,
  and in every state from which no call can move the threads blocked on the condition
  variable are exactly those still on record in \<open>waiting\<close>: every signal and broadcast that
  took threads off the record has released as many.
\<close>

theorem cond_no_lost_wakeup:
  assumes "cond_exact_ok e" and "cond_reachable e s"
  shows "(\<exists>k. \<forall>n s'. ((istep (cond_program e)) ^^ n) s s' \<longrightarrow> n \<le> k) \<and>
    (\<exists>s'. (istep (cond_program e))\<^sup>*\<^sup>* s s' \<and> (\<nexists>u. istep (cond_program e) s' u)) \<and>
    (\<forall>s'. (istep (cond_program e))\<^sup>*\<^sup>* s s' \<longrightarrow> (\<nexists>u. istep (cond_program e) s' u) \<longrightarrow>
       waiting (cv (shared s')) = int (num_at (pc_of s') c_getting) \<and>
       sem_val (sems e) (c_cond (cv (shared s'))) = 0)"
proof (intro conjI allI impI)
  have ex: "cond_exact e s" using assms by (rule ce.inv_reachable)
  then have fin: "finite (ct.active s)" by (intro ct_active_finite [of e]) (simp add: cond_exact_def)
  show "\<exists>k. \<forall>n s'. ((istep (cond_program e)) ^^ n) s s' \<longrightarrow> n \<le> k"
    using ct.istep_bounded [OF fin] by (meson add_leE)
  show "\<exists>s'. (istep (cond_program e))\<^sup>*\<^sup>* s s' \<and> (\<nexists>u. istep (cond_program e) s' u)"
    using fin by (rule ct.quiescent_exists)
  fix s'
  assume "(istep (cond_program e))\<^sup>*\<^sup>* s s'" and stop: "\<nexists>u. istep (cond_program e) s' u"
  then have "cond_exact e s'" using ce.inv_steps [OF assms isteps_tsteps] by blast
  from quiescent_cond [OF assms(1) this stop]
  show "waiting (cv (shared s')) = int (num_at (pc_of s') c_getting)"
    "sem_val (sems e) (c_cond (cv (shared s'))) = 0" by simp_all
qed

theorem cond_no_lost_wakeup_witness:
  "\<exists>s'. (istep (cond_program (ref_cond_env False)))\<^sup>*\<^sup>*
      (run_schedule (cond_program (ref_cond_env False)) wait_true ref_cond) s' \<and>
    waiting (cv (shared (s' :: (bool, (nat, bool option) cond_shared, cpc, ret) threads))) =
      int (num_at (pc_of s') c_getting)"
  using cond_no_lost_wakeup [OF ref_cond_exact_ok ref_cond_run, of wait_true] by blast



text \<open>A wait with a deadline times out just as a signal arrives.\<close>

definition race :: "(bool, cpc) action list" where
  "race =
     Call True (CWStart (Some \<lparr>tv_sec = 3, tv_nsec = 0\<rparr>) 0) # Move True #
     [Move True, Move True, Move True, Move True] @ [Expire True] @
     Call False CSStart #
     [Move False, Move False, Move False, Move False, Move False, Move False, Move False] @ [Return False] @
     [Move True, Move True, Move True, Move True] @ [Return True]"

lemma race_deadline:
  "clock_gettime ref_platform 0 CLOCK_REALTIME (Some \<lparr>tv_sec = 0, tv_nsec = 0\<rparr>) =
     (OK, Some \<lparr>tv_sec = 0, tv_nsec = 0\<rparr>)"
  "abs_timespec2ticks ref_platform (Some \<lparr>tv_sec = 3, tv_nsec = 0\<rparr>) (Some \<lparr>tv_sec = 0, tv_nsec = 0\<rparr>)
     (Some 4294967295) = (OK, Some 3000)"
  by code_simp+

lemma race_waits:
  "pthread_cond_timedwait (ref_cond_env True) t (shared ref_cond) (CWStart (Some \<lparr>tv_sec = 3, tv_nsec = 0\<rparr>) 0) =
     Some (shared ref_cond, CWLock 3000)"
  using race_deadline by (simp add: ref_cond_env_def ref_cond_def)

lemma race_start:
  "run_schedule (cond_program (ref_cond_env True))
      (Call t (CWStart (Some \<lparr>tv_sec = 3, tv_nsec = 0\<rparr>) 0) # Move t # as) ref_cond =
    run_schedule (cond_program (ref_cond_env True)) as
      (ref_cond\<lparr>pc_of := (\<lambda>_. CIdle)(t := CWLock 3000)\<rparr>)"
  using race_waits [of t]
  by (simp add: cond_program_def cond_code_def ref_cond_env_def ref_cond_def
      del: pthread_cond_timedwait.simps)

text \<open>
  A timeout that races with a signal breaks the count. If a wait has timed out but not
  yet counted itself down when a signal takes it off the record, both count down: the
  condition variable ends with -1 waiters and one post although no call is in progress, and a
  broadcast then posts $2^{32} - 1$ times.
\<close>

theorem cond_timeout_race:
  "waiting (cv (shared (run_schedule (cond_program (ref_cond_env True)) race ref_cond))) = - 1 \<and>
   c_cond (cv (shared (run_schedule (cond_program (ref_cond_env True)) race ref_cond))) = (1 :: nat) \<and>
   pc_of (run_schedule (cond_program (ref_cond_env True)) race ref_cond) t = CIdle \<and>
   c_cond (cv (shared (run_schedule (cond_program (ref_cond_env True)) (race @ broadcast_false) ref_cond))) =
     4294967296"
  unfolding race_def append_Cons race_start
  by (simp add: cond_run_simps c_arith u32_minus_1)

text \<open>
  What \<open>PTHREAD_COND_INITIALIZER\<close> and \<open>PTHREAD_MUTEX_INITIALIZER\<close> give. Every operation
  on a condition variable or mutex whose flag \<open>inited\<close> is 0, as the initialisers leave it,
  returns \<open>EINVAL\<close> and changes nothing.
\<close>

theorem static_initializer_unusable:
  assumes "c_inited (cv sh) = 0" and "m_inited mux = 0"
  shows "pthread_cond_signal e t sh CSStart = Some (sh, CDone (Err EINVAL)) \<and>
    pthread_cond_broadcast e t sh CBStart = Some (sh, CDone (Err EINVAL)) \<and>
    pthread_cond_timedwait e t sh (CWStart a n) = Some (sh, CDone (Err EINVAL)) \<and>
    pthread_mutex_lock P M t n z mux = (Err EINVAL, mux) \<and>
    pthread_mutex_trylock P M t n z mux = (Err EINVAL, mux) \<and>
    pthread_mutex_timedlock P M t n z mux a = (Err EINVAL, mux) \<and>
    pthread_mutex_unlock M t mux = (Err EINVAL, mux)"
  using assms
  by (simp add: pthread_mutex_lock_def pthread_mutex_trylock_def pthread_mutex_unlock_def timedlock_uninited)

theorem static_initializer_unusable_witness:
  "fst (pthread_mutex_lock ref_platform ref_mut (1 :: nat) 0 0 \<lparr>m_inited = 0, m_mux = None, m_attr = \<lparr>mtype = 0\<rparr>\<rparr>) =
     Err EINVAL"
  using static_initializer_unusable [of
      "\<lparr>cv = \<lparr>c_inited = 0, c_mux = None, c_cond = 0 :: nat, waiting = 0\<rparr>,
        umux = \<lparr>m_inited = 0, m_mux = None, m_attr = \<lparr>mtype = 0\<rparr>\<rparr>\<rparr>"
      "\<lparr>m_inited = 0, m_mux = None, m_attr = \<lparr>mtype = 0\<rparr>\<rparr>"
      "ref_cond_env True" "1 :: nat" None 0 ref_platform ref_mut 0]
  by simp

text \<open>
  A wait with a mutex the caller does not hold. If the mutex checks its owner the wait
  returns \<open>EPERM\<close>, but the caller stays on record: \<open>waiting\<close> is one higher for good.
\<close>

theorem cond_wait_not_owner:
  assumes "mutex_laws (muts e)" and "own (muts e) (c_mux (cv (shared s))) = None"
    and "c_inited (cv (shared s)) \<noteq> 0" and "m_inited (umux (shared s)) \<noteq> 0"
    and "owner_checked (umux (shared s))" and "owner (muts e) (umux (shared s)) \<noteq> Some t"
    and "pc_of s t = CIdle"
    and "s' = run_schedule (cond_program e)
      [Call t (pthread_cond_wait n), Move t, Move t, Move t, Move t, Move t, Return t] s"
  shows "pc_of s' t = CIdle \<and> returned s' = Err EPERM # returned s \<and>
    waiting (cv (shared s')) = s32 (waiting (cv (shared s)) + 1)"
proof -
  obtain m where m: "mut_take (muts e) t (c_mux (cv (shared s))) = Some m"
    using mutex_lawsD(2) [OF assms(1,2)] by blast
  have u: "pthread_mutex_unlock (muts e) t (umux (shared s)) = (Err EPERM, umux (shared s))"
    using assms(4-6) by (rule unlock_other)
  show ?thesis
    using assms(3,7,8)
    by (simp add: cond_simps pthread_cond_wait_def m u)
qed

theorem cond_wait_not_owner_witness:
  "\<exists>s'. returned s' = [Err EPERM] \<and> waiting (cv (shared
    (s' :: (nat, (nat, nat option) cond_shared, cpc, ret) threads))) = 1"
proof -
  let ?s = "ref_cond\<lparr>shared := (shared ref_cond)\<lparr>umux := \<lparr>m_inited = 1, m_mux = None, m_attr = \<lparr>mtype = 1\<rparr>\<rparr>\<rparr>\<rparr>
    :: (nat, (nat, nat option) cond_shared, cpc, ret) threads"
  from cond_wait_not_owner [OF _ _ _ _ _ _ _ refl, of "ref_cond_env False" ?s 5 0]
  show ?thesis
    by (intro exI, simp add: ref_cond_def ref_cond_env_def owner_checked_def owner_def mutex_types
        c_arith del: run_schedule.simps) blast
qed

text \<open>Tasks 3 and 4 wait, task 5 broadcasts, task 3 has the mutex back, task 4 is about to lock it.\<close>

definition two_woken :: "(nat, cpc) action list" where
  "two_woken =
     Call 3 (pthread_cond_wait 0) # [Move 3, Move 3, Move 3, Move 3, Move 3] @
     Call 4 (pthread_cond_wait 0) # [Move 4, Move 4, Move 4, Move 4, Move 4] @
     Call 5 CBStart # [Move 5, Move 5, Move 5, Move 5, Move 5, Return 5] @
     [Move 3, Move 3, Return 3, Move 4]"

text \<open>
  C35: a wait can return 0 without the mutex. A thread that has been woken while another task
  holds the mutex may return 0 and leave the mutex with its holder, because
  \<open>pthread_mutex_lock\<close> gives up after an arbitrary time and still returns 0; after a broadcast
  to two waiters both can be past their waits at the same time.
\<close>

theorem cond_wait_returns_unlocked:
  assumes "m_inited (umux (shared s)) \<noteq> 0" and "\<not> owner_checked (umux (shared s))"
    and "pc_of s t = CWRelock" and "own (muts e) (m_mux (umux (shared s))) = Some u" and "t \<noteq> u"
  shows "run_schedule (cond_program e) [Expire t, Return t] s =
      s\<lparr>pc_of := (pc_of s)(t := CIdle), returned := OK # returned s\<rparr> \<and>
    own (muts e) (m_mux (umux (shared (run_schedule (cond_program e) [Expire t, Return t] s)))) = Some u"
  using assms by (simp add: cond_program_def relock_normal)

theorem cond_wait_returns_unlocked_witness:
  "\<exists>s. cond_reachable (ref_cond_env False) s \<and> returned s = [OK, OK, OK] \<and>
    m_mux (umux (shared s)) = Some (3 :: nat) \<and> pc_of s 4 = CIdle"
proof -
  let ?G = "cond_program (ref_cond_env False) :: (nat, (nat, nat option) cond_shared, cpc, ret) program"
  let ?s = "run_schedule ?G two_woken ref_cond"
  have s: "m_inited (umux (shared ?s)) \<noteq> 0" "\<not> owner_checked (umux (shared ?s))" "pc_of ?s 4 = CWRelock"
    "m_mux (umux (shared ?s)) = Some 3" "returned ?s = [OK, OK]"
    by (simp_all add: cond_run_simps two_woken_def c_arith)
  then have "own (muts (ref_cond_env False)) (m_mux (umux (shared ?s))) = Some 3"
    by (simp add: ref_cond_env_def)
  from cond_wait_returns_unlocked [OF s(1-3) this] s(4,5)
  have "returned (run_schedule ?G [Expire 4, Return 4] ?s) = [OK, OK, OK]"
    "m_mux (umux (shared (run_schedule ?G [Expire 4, Return 4] ?s))) = Some 3"
    "pc_of (run_schedule ?G [Expire 4, Return 4] ?s) 4 = CIdle"
    by (simp_all del: run_schedule.simps)
  moreover have "run_schedule ?G (two_woken @ [Expire 4, Return 4]) ref_cond =
      run_schedule ?G [Expire 4, Return 4] ?s"
    by (simp add: run_schedule_append del: run_schedule.simps)
  ultimately show ?thesis
    using ref_cond_run [of False "two_woken @ [Expire 4, Return 4]"] by metis
qed

end
