(* ===== verification/Attr.thy ===== *)
theory Attr
  imports Mutex
begin

text \<open>
  The thread attributes of \<open>src/src/posix_pthread.c\<close>: a stack size and a status word of 16
  bits, with the detach state in the top bit and the priority in the others.
\<close>

section \<open>Operations\<close>

definition PTHREAD_CREATE_DETACHED :: int where
  "PTHREAD_CREATE_DETACHED = 0"

definition PTHREAD_CREATE_JOINABLE :: int where
  "PTHREAD_CREATE_JOINABLE = 1"

definition PTHREAD_STACK_MIN :: u32 where
  "PTHREAD_STACK_MIN = 1024"

definition MASK_DETACH :: u16 where
  "MASK_DETACH = 0x8000"

definition MASK_PRIORITY :: u16 where
  "MASK_PRIORITY = 0x7FFF"

definition SHFT_DETACH :: nat where
  "SHFT_DETACH = 15"

definition SCHED_OTHER :: int where
  "SCHED_OTHER = 3"

record pthread_attr =
  stack_sz :: u16
  status :: u16

record sched_param =
  sched_priority :: int

definition STATUS_PRIORITY :: "u16 \<Rightarrow> u16" where
  "STATUS_PRIORITY var = var AND MASK_PRIORITY"

definition STATUS_JOINABLE :: "u16 \<Rightarrow> bool" where
  "STATUS_JOINABLE var \<longleftrightarrow> var AND MASK_DETACH = MASK_DETACH"

definition HCOS_LOWEST_PRIORITY :: "platform \<Rightarrow> int" where
  "HCOS_LOWEST_PRIORITY P = CFG_TPRI_NUM P - 2"

definition PTHTREAD_ATTR_DEFAULT :: "platform \<Rightarrow> pthread_attr" where
  "PTHTREAD_ATTR_DEFAULT P =
     \<lparr>stack_sz = ucast PTHREAD_STACK_MIN,
      status = (word_of_int (HCOS_LOWEST_PRIORITY P) AND MASK_PRIORITY) OR
        push_bit SHFT_DETACH (word_of_int PTHREAD_CREATE_JOINABLE)\<rparr>"

definition pthread_attr_destroy :: "pthread_attr ptr \<Rightarrow> ret" where
  "pthread_attr_destroy attr = (if attr = None then Err EINVAL else OK)"

definition pthread_attr_getdetachstate :: "pthread_attr \<Rightarrow> ret \<times> int" where
  "pthread_attr_getdetachstate attr =
     (OK, if STATUS_JOINABLE (status attr) then PTHREAD_CREATE_JOINABLE else PTHREAD_CREATE_DETACHED)"

definition pthread_attr_getschedparam :: "pthread_attr \<Rightarrow> ret \<times> int" where
  "pthread_attr_getschedparam attr = (OK, uint (STATUS_PRIORITY (status attr)))"

definition pthread_attr_getstacksize :: "pthread_attr \<Rightarrow> ret \<times> u32" where
  "pthread_attr_getstacksize attr = (OK, ucast (stack_sz attr))"

definition pthread_attr_init :: "platform \<Rightarrow> pthread_attr ptr \<Rightarrow> ret \<times> pthread_attr ptr" where
  "pthread_attr_init P attr =
     (case attr of None \<Rightarrow> (Err EINVAL, None) | Some a \<Rightarrow> (OK, Some (PTHTREAD_ATTR_DEFAULT P)))"

definition pthread_attr_setdetachstate :: "pthread_attr \<Rightarrow> int \<Rightarrow> ret \<times> pthread_attr" where
  "pthread_attr_setdetachstate attr detach =
     (if detach \<noteq> PTHREAD_CREATE_DETACHED \<and> detach \<noteq> PTHREAD_CREATE_JOINABLE then (Err EINVAL, attr)
      else
        (let attr = attr\<lparr>status := status attr AND NOT MASK_DETACH\<rparr>
         in (OK, attr\<lparr>status := status attr OR push_bit SHFT_DETACH (word_of_int detach)\<rparr>)))"

definition pthread_attr_setschedparam ::
    "platform \<Rightarrow> pthread_attr \<Rightarrow> sched_param ptr \<Rightarrow> ret \<times> pthread_attr" where
  "pthread_attr_setschedparam P attr param =
     (case param of
        None \<Rightarrow> (Err EINVAL, attr)
      | Some p \<Rightarrow>
          if sched_priority p > sched_get_priority_max P SCHED_OTHER \<or> sched_priority p < 0
          then (Err ENOTSUP, attr)
          else
            (let attr = attr\<lparr>status := status attr AND NOT MASK_PRIORITY\<rparr>
             in (OK, attr\<lparr>status := status attr OR word_of_int (sched_priority p)\<rparr>)))"

definition pthread_attr_setstacksize :: "pthread_attr \<Rightarrow> u32 \<Rightarrow> ret \<times> pthread_attr" where
  "pthread_attr_setstacksize attr stacksize =
     (if stacksize < PTHREAD_STACK_MIN then (Err EINVAL, attr)
      else (OK, attr\<lparr>stack_sz := ucast stacksize\<rparr>))"

section \<open>Bits of the status word\<close>

lemma bit_MASK_DETACH: "bit MASK_DETACH n \<longleftrightarrow> n = 15"
proof -
  have "MASK_DETACH = push_bit 15 1" by (simp add: MASK_DETACH_def push_bit_eq_mult)
  show ?thesis unfolding \<open>MASK_DETACH = _\<close> bit_push_bit_iff bit_1_iff by auto
qed

lemma bit_MASK_PRIORITY: "bit MASK_PRIORITY n \<longleftrightarrow> n < 15"
proof -
  have "MASK_PRIORITY = mask 15" by (simp add: MASK_PRIORITY_def mask_eq_exp_minus_1)
  show ?thesis unfolding \<open>MASK_PRIORITY = _\<close> bit_mask_iff by auto
qed

lemma joinable_bit: "STATUS_JOINABLE w \<longleftrightarrow> bit w 15"
proof
  assume "STATUS_JOINABLE w"
  then have "bit (w AND MASK_DETACH) 15" by (simp add: STATUS_JOINABLE_def bit_MASK_DETACH)
  then show "bit w 15" by (simp add: bit_and_iff)
next
  assume "bit w 15"
  then show "STATUS_JOINABLE w"
    unfolding STATUS_JOINABLE_def
    by (intro bit_word_eqI) (auto simp: bit_and_iff bit_MASK_DETACH)
qed

lemma word_small_bit:
  fixes w :: u16
  assumes "0 \<le> k" and "k < 32768"
  shows "bit (word_of_int k :: u16) 15 \<longleftrightarrow> False" and "uint (word_of_int k :: u16) = k"
proof -
  show u: "uint (word_of_int k :: u16) = k"
    using assms by (simp add: uint_word_of_int)
  have "\<not> bit k 15" using assms by (simp add: bit_iff_odd)
  then show "bit (word_of_int k :: u16) 15 \<longleftrightarrow> False" by (simp add: bit_word_of_int_iff)
qed

lemma status_set_detach:
  fixes st :: u16
  assumes "d = 0 \<or> d = 1"
  shows "STATUS_JOINABLE ((st AND NOT MASK_DETACH) OR push_bit SHFT_DETACH (word_of_int d)) \<longleftrightarrow> d = 1"
    and "STATUS_PRIORITY ((st AND NOT MASK_DETACH) OR push_bit SHFT_DETACH (word_of_int d)) =
      STATUS_PRIORITY st"
proof -
  have b: "bit (push_bit SHFT_DETACH (word_of_int d) :: u16) n \<longleftrightarrow> n = 15 \<and> d = 1" for n
    using assms unfolding SHFT_DETACH_def bit_push_bit_iff by (auto simp: bit_1_iff)
  show "STATUS_JOINABLE ((st AND NOT MASK_DETACH) OR push_bit SHFT_DETACH (word_of_int d)) \<longleftrightarrow> d = 1"
    by (simp add: joinable_bit b bit_or_iff bit_and_iff bit_not_iff bit_MASK_DETACH)
  show "STATUS_PRIORITY ((st AND NOT MASK_DETACH) OR push_bit SHFT_DETACH (word_of_int d)) =
      STATUS_PRIORITY st"
    unfolding STATUS_PRIORITY_def
    by (intro bit_word_eqI)
      (auto simp: b bit_or_iff bit_and_iff bit_not_iff bit_MASK_DETACH bit_MASK_PRIORITY)
qed

lemma status_set_priority:
  fixes st :: u16
  assumes "0 \<le> k" and "k < 32768"
  shows "uint (STATUS_PRIORITY ((st AND NOT MASK_PRIORITY) OR word_of_int k)) = k"
    and "STATUS_JOINABLE ((st AND NOT MASK_PRIORITY) OR word_of_int k) = STATUS_JOINABLE st"
proof -
  have "STATUS_PRIORITY ((st AND NOT MASK_PRIORITY) OR word_of_int k) = word_of_int k"
    unfolding STATUS_PRIORITY_def
  proof (rule bit_word_eqI)
    fix n assume "n < LENGTH(16)"
    then have "n < 15 \<or> n = 15" by auto
    with word_small_bit(1) [OF assms]
    show "bit (((st AND NOT MASK_PRIORITY) OR word_of_int k) AND MASK_PRIORITY) n \<longleftrightarrow>
        bit (word_of_int k :: u16) n"
      by (auto simp: bit_or_iff bit_and_iff bit_not_iff bit_MASK_PRIORITY)
  qed
  with word_small_bit(2) [OF assms]
  show "uint (STATUS_PRIORITY ((st AND NOT MASK_PRIORITY) OR word_of_int k)) = k" by simp
  show "STATUS_JOINABLE ((st AND NOT MASK_PRIORITY) OR word_of_int k) = STATUS_JOINABLE st"
    using word_small_bit(1) [OF assms]
    by (simp add: joinable_bit bit_or_iff bit_and_iff bit_not_iff bit_MASK_PRIORITY)
qed

section \<open>Attributes with a setter and a getter\<close>

text \<open>
  The contract of a settable attribute: the setter accepts exactly the valid values, an
  accepted value is what the getter reads, a refused one is an error and changes nothing.
\<close>

locale attribute =
  fixes wf :: "'p \<Rightarrow> bool"
    and set_attr :: "'p \<Rightarrow> 'a \<Rightarrow> 'v \<Rightarrow> ret \<times> 'a"
    and get_attr :: "'a \<Rightarrow> 'v"
    and valid :: "'p \<Rightarrow> 'v \<Rightarrow> bool"
  assumes set_valid: "wf p \<Longrightarrow> valid p v \<Longrightarrow>
      fst (set_attr p a v) = OK \<and> get_attr (snd (set_attr p a v)) = v"
    and set_invalid: "wf p \<Longrightarrow> \<not> valid p v \<Longrightarrow> (\<exists>e. set_attr p a v = (Err e, a))"
begin

definition set_all :: "'p \<Rightarrow> 'a \<Rightarrow> 'v list \<Rightarrow> 'a" where
  "set_all p a vs = foldl (\<lambda>a v. snd (set_attr p a v)) a vs"

lemma get_set:
  "wf p \<Longrightarrow> get_attr (snd (set_attr p a v)) = (if valid p v then v else get_attr a)"
  using set_valid [of p v a] set_invalid [of p v a] by auto

text \<open>The last accepted value wins.\<close>

lemma get_set_all:
  "wf p \<Longrightarrow> get_attr (set_all p a vs) = last (get_attr a # filter (valid p) vs)"
  by (induction vs arbitrary: a) (auto simp: set_all_def get_set)

end

text \<open>The calls to one and to the other setter in a mixed sequence of calls.\<close>

fun lefts :: "('a + 'b) list \<Rightarrow> 'a list" where
  "lefts [] = []"
| "lefts (Inl x # xs) = x # lefts xs"
| "lefts (Inr y # xs) = lefts xs"

fun rights :: "('a + 'b) list \<Rightarrow> 'b list" where
  "rights [] = []"
| "rights (Inl x # xs) = rights xs"
| "rights (Inr y # xs) = y # rights xs"

text \<open>Two attributes of one object, neither of whose setters disturbs the other.\<close>

locale independent_attributes =
  fst_attr: attribute wf set1 get1 valid1 + snd_attr: attribute wf set2 get2 valid2
  for wf :: "'p \<Rightarrow> bool"
    and set1 :: "'p \<Rightarrow> 'a \<Rightarrow> 'v \<Rightarrow> ret \<times> 'a" and get1 :: "'a \<Rightarrow> 'v" and valid1
    and set2 :: "'p \<Rightarrow> 'a \<Rightarrow> 'w \<Rightarrow> ret \<times> 'a" and get2 :: "'a \<Rightarrow> 'w" and valid2 +
  assumes keep2: "wf p \<Longrightarrow> get2 (snd (set1 p a v)) = get2 a"
    and keep1: "wf p \<Longrightarrow> get1 (snd (set2 p a w)) = get1 a"
begin

definition set_mixed :: "'p \<Rightarrow> 'a \<Rightarrow> ('v + 'w) list \<Rightarrow> 'a" where
  "set_mixed p a xs =
     foldl (\<lambda>a x. case x of Inl v \<Rightarrow> snd (set1 p a v) | Inr w \<Rightarrow> snd (set2 p a w)) a xs"

lemma set_mixed_simps:
  "set_mixed p a [] = a"
  "set_mixed p a (Inl v # xs) = set_mixed p (snd (set1 p a v)) xs"
  "set_mixed p a (Inr w # xs) = set_mixed p (snd (set2 p a w)) xs"
  by (simp_all add: set_mixed_def)

lemma get1_set_mixed:
  "wf p \<Longrightarrow> get1 (set_mixed p a xs) = last (get1 a # filter (valid1 p) (lefts xs))"
proof (induction xs arbitrary: a)
  case (Cons x xs)
  then show ?case by (cases x) (auto simp: set_mixed_simps fst_attr.get_set keep1)
qed (simp add: set_mixed_simps)

lemma get2_set_mixed:
  "wf p \<Longrightarrow> get2 (set_mixed p a xs) = last (get2 a # filter (valid2 p) (rights xs))"
proof (induction xs arbitrary: a)
  case (Cons x xs)
  then show ?case by (cases x) (auto simp: set_mixed_simps snd_attr.get_set keep2)
qed (simp add: set_mixed_simps)

end

text \<open>The attributes of the code. The priorities have to fit into 15 bits.\<close>

definition priorities_ok :: "platform \<Rightarrow> bool" where
  "priorities_ok P \<longleftrightarrow> 2 \<le> CFG_TPRI_NUM P \<and> CFG_TPRI_NUM P \<le> 32768"

definition valid_detach :: "platform \<Rightarrow> int \<Rightarrow> bool" where
  "valid_detach P d \<longleftrightarrow> d = PTHREAD_CREATE_DETACHED \<or> d = PTHREAD_CREATE_JOINABLE"

definition valid_priority :: "platform \<Rightarrow> int \<Rightarrow> bool" where
  "valid_priority P k \<longleftrightarrow> 0 \<le> k \<and> k < CFG_TPRI_NUM P"

lemmas attr_defs = PTHREAD_CREATE_DETACHED_def PTHREAD_CREATE_JOINABLE_def valid_detach_def
  valid_priority_def priorities_ok_def sched_get_priority_max_def pthread_attr_setdetachstate_def
  pthread_attr_setschedparam_def pthread_attr_getdetachstate_def pthread_attr_getschedparam_def

interpretation det: attribute priorities_ok "\<lambda>P. pthread_attr_setdetachstate"
  "\<lambda>a. snd (pthread_attr_getdetachstate a)" valid_detach
  by unfold_locales (auto simp: attr_defs status_set_detach)

interpretation pri: attribute priorities_ok
  "\<lambda>P a k. pthread_attr_setschedparam P a (Some \<lparr>sched_priority = k\<rparr>)"
  "\<lambda>a. snd (pthread_attr_getschedparam a)" valid_priority
  by unfold_locales (auto simp: attr_defs status_set_priority)

interpretation dp: independent_attributes priorities_ok "\<lambda>P. pthread_attr_setdetachstate"
  "\<lambda>a. snd (pthread_attr_getdetachstate a)" valid_detach
  "\<lambda>P a k. pthread_attr_setschedparam P a (Some \<lparr>sched_priority = k\<rparr>)"
  "\<lambda>a. snd (pthread_attr_getschedparam a)" valid_priority
  by unfold_locales (auto simp: attr_defs status_set_detach status_set_priority)

interpretation mt: attribute "\<lambda>_ :: unit. True" "\<lambda>_. pthread_mutexattr_settype"
  "\<lambda>a. snd (pthread_mutexattr_gettype a)" "\<lambda>_ ty. ty \<in> {0, 1, 2}"
  by unfold_locales
    (auto simp: pthread_mutexattr_settype_def pthread_mutexattr_gettype_def mutex_types s32_id)

text \<open>A sequence of calls of the two setters on the status word.\<close>

fun attr_calls :: "platform \<Rightarrow> pthread_attr \<Rightarrow> (int + int) list \<Rightarrow> pthread_attr" where
  "attr_calls P a [] = a"
| "attr_calls P a (Inl d # xs) = attr_calls P (snd (pthread_attr_setdetachstate a d)) xs"
| "attr_calls P a (Inr k # xs) =
     attr_calls P (snd (pthread_attr_setschedparam P a (Some \<lparr>sched_priority = k\<rparr>))) xs"

lemma attr_calls_mixed: "attr_calls P a xs = dp.set_mixed P a xs"
  by (induction P a xs rule: attr_calls.induct) (simp_all add: dp.set_mixed_simps)

lemma attr_default:
  assumes "priorities_ok P"
  shows "STATUS_JOINABLE (status (PTHTREAD_ATTR_DEFAULT P))"
    and "uint (STATUS_PRIORITY (status (PTHTREAD_ATTR_DEFAULT P))) = CFG_TPRI_NUM P - 2"
proof -
  let ?k = "CFG_TPRI_NUM P - 2"
  have k: "0 \<le> ?k" "?k < 32768" using assms by (simp_all add: priorities_ok_def)
  have b: "bit (push_bit SHFT_DETACH (word_of_int PTHREAD_CREATE_JOINABLE) :: u16) n \<longleftrightarrow> n = 15" for n
    unfolding SHFT_DETACH_def bit_push_bit_iff PTHREAD_CREATE_JOINABLE_def by (auto simp: bit_1_iff)
  show "STATUS_JOINABLE (status (PTHTREAD_ATTR_DEFAULT P))"
    by (simp add: joinable_bit PTHTREAD_ATTR_DEFAULT_def bit_or_iff b)
  have "STATUS_PRIORITY (status (PTHTREAD_ATTR_DEFAULT P)) = word_of_int ?k"
    unfolding STATUS_PRIORITY_def PTHTREAD_ATTR_DEFAULT_def HCOS_LOWEST_PRIORITY_def
  proof (rule bit_word_eqI)
    fix n assume "n < LENGTH(16)"
    then have "n < 15 \<or> n = 15" by auto
    with word_small_bit(1) [OF k]
    show "bit (status \<lparr>stack_sz = ucast PTHREAD_STACK_MIN,
          status = (word_of_int ?k AND MASK_PRIORITY) OR
            push_bit SHFT_DETACH (word_of_int PTHREAD_CREATE_JOINABLE)\<rparr> AND MASK_PRIORITY) n =
        bit (word_of_int ?k :: u16) n"
      by (auto simp: bit_or_iff bit_and_iff b bit_MASK_PRIORITY)
  qed
  with word_small_bit(2) [OF k] show "uint (STATUS_PRIORITY (status (PTHTREAD_ATTR_DEFAULT P))) = ?k"
    by simp
qed

section \<open>Properties\<close>

text \<open>
  C25: the two fields of the status word. After \<open>pthread_attr_init\<close> an attribute is joinable
  with priority \<open>CFG_TPRI_NUM - 2\<close> and the minimal stack size; after any sequence of calls of
  the two setters the getters read the last accepted detach state and the last accepted
  priority, whatever calls of the other setter and refused calls came in between.
\<close>

theorem attr_last_setting_wins:
  assumes "priorities_ok P" and "pthread_attr_init P (Some a0) = (r, Some a)"
  shows "r = OK \<and>
    pthread_attr_getdetachstate (attr_calls P a xs) =
      (OK, last (PTHREAD_CREATE_JOINABLE # filter (valid_detach P) (lefts xs))) \<and>
    pthread_attr_getschedparam (attr_calls P a xs) =
      (OK, last ((CFG_TPRI_NUM P - 2) # filter (valid_priority P) (rights xs))) \<and>
    pthread_attr_getstacksize a = (OK, PTHREAD_STACK_MIN)"
proof -
  have a: "a = PTHTREAD_ATTR_DEFAULT P" "r = OK"
    using assms(2) by (simp_all add: pthread_attr_init_def)
  have d: "snd (pthread_attr_getdetachstate a) = PTHREAD_CREATE_JOINABLE"
    "snd (pthread_attr_getschedparam a) = CFG_TPRI_NUM P - 2"
    using attr_default [OF assms(1)]
    by (simp_all add: a pthread_attr_getdetachstate_def pthread_attr_getschedparam_def)
  have "pthread_attr_getstacksize a = (OK, PTHREAD_STACK_MIN)"
    by (simp add: a pthread_attr_getstacksize_def PTHTREAD_ATTR_DEFAULT_def PTHREAD_STACK_MIN_def)
  with a dp.get1_set_mixed [OF assms(1), of a xs] dp.get2_set_mixed [OF assms(1), of a xs]
  show ?thesis
    unfolding attr_calls_mixed d
    by (simp add: pthread_attr_getdetachstate_def pthread_attr_getschedparam_def)
qed

theorem attr_last_setting_wins_witness:
  "pthread_attr_getschedparam
     (attr_calls ref_platform (PTHTREAD_ATTR_DEFAULT ref_platform) [Inr 3, Inl 0, Inr 99, Inl 7]) = (OK, 3)"
  using attr_last_setting_wins [of ref_platform a0 OK "PTHTREAD_ATTR_DEFAULT ref_platform"
      "[Inr 3, Inl 0, Inr 99, Inl 7]" for a0]
  by (simp add: priorities_ok_def pthread_attr_init_def valid_priority_def del: attr_calls.simps)

text \<open>
  What the setters refuse. A detach state other than the two, a null or out-of-range
  scheduling parameter and a stack below the minimum are refused with \<open>EINVAL\<close>, \<open>EINVAL\<close>,
  \<open>ENOTSUP\<close> and \<open>EINVAL\<close>, and a refused call changes nothing.
\<close>

theorem attr_setters_refuse:
  "(\<not> valid_detach P d \<longrightarrow> pthread_attr_setdetachstate a d = (Err EINVAL, a)) \<and>
   pthread_attr_setschedparam P a None = (Err EINVAL, a) \<and>
   (\<not> valid_priority P k \<longrightarrow>
      pthread_attr_setschedparam P a (Some \<lparr>sched_priority = k\<rparr>) = (Err ENOTSUP, a)) \<and>
   (uint n < 1024 \<longrightarrow> pthread_attr_setstacksize a n = (Err EINVAL, a))"
  by (auto simp: attr_defs pthread_attr_setstacksize_def PTHREAD_STACK_MIN_def word_less_alt)

theorem attr_setters_refuse_witness:
  "pthread_attr_setdetachstate \<lparr>stack_sz = 1024, status = 0\<rparr> 2 =
    (Err EINVAL, \<lparr>stack_sz = 1024, status = 0\<rparr>)"
  using attr_setters_refuse [of ref_platform 2 "\<lparr>stack_sz = 1024, status = 0\<rparr>" 0 0]
  by (simp add: valid_detach_def PTHREAD_CREATE_DETACHED_def PTHREAD_CREATE_JOINABLE_def)

text \<open>
  The stack size. Any size of at least 1024 is accepted, but only its low 16 bits are
  kept: up to 65535 the size is read back, and a multiple of 65536 is stored as 0.
\<close>

theorem attr_stacksize_truncated:
  assumes "1024 \<le> uint n"
  shows "fst (pthread_attr_setstacksize a n) = OK \<and>
    uint (snd (pthread_attr_getstacksize (snd (pthread_attr_setstacksize a n)))) = uint n mod 65536 \<and>
    (uint n < 65536 \<longrightarrow>
       pthread_attr_getstacksize (snd (pthread_attr_setstacksize a n)) = (OK, n))"
proof -
  have u: "uint (ucast (ucast n :: u16) :: u32) = uint n mod 65536"
    by (simp add: unsigned_ucast_eq unsigned_take_bit_eq take_bit_eq_mod uint_mod)
  moreover have "uint n < 65536 \<Longrightarrow> ucast (ucast n :: u16) = n"
    using u by (simp add: word_uint_eq_iff)
  ultimately show ?thesis
    using assms
    by (auto simp: pthread_attr_setstacksize_def pthread_attr_getstacksize_def PTHREAD_STACK_MIN_def
        word_less_alt)
qed

theorem attr_stacksize_truncated_witness:
  "fst (pthread_attr_setstacksize \<lparr>stack_sz = 1024, status = 0\<rparr> 65536) = OK \<and>
   uint (snd (pthread_attr_getstacksize
     (snd (pthread_attr_setstacksize \<lparr>stack_sz = 1024, status = 0\<rparr> 65536)))) = 0"
  using attr_stacksize_truncated [of 65536 "\<lparr>stack_sz = 1024, status = 0\<rparr>"] by simp

end
