(* ===== verification/Memory.thy ===== *)
theory Memory
  imports Kernel
begin

text \<open>
  \<open>src/include/hcos_posix.h\<close> and \<open>src/src/hcos_posix.c\<close>: the two function pointers through
  which the library gets and releases memory. The application provides the functions; they
  act on a heap \<open>'h\<close> the library does not look into.
\<close>

datatype posix_obj = POSIX_TIMER | POSIX_THREAD | POSIX_STACK | POSIX_MQUEUE | POSIX_MQUEUE_BUF

type_synonym addr = nat

type_synonym 'h alloc_fun = "posix_obj \<Rightarrow> u32 \<Rightarrow> 'h \<Rightarrow> addr ptr \<times> 'h"
type_synonym 'h free_fun = "posix_obj \<Rightarrow> addr ptr \<Rightarrow> 'h \<Rightarrow> 'h"

record 'h hcos_posix =
  hcos_posix_alloc :: "'h alloc_fun ptr"
  hcos_posix_free :: "'h free_fun ptr"

definition hcos_posix_init ::
    "'h alloc_fun ptr \<Rightarrow> 'h free_fun ptr \<Rightarrow> 'h hcos_posix \<Rightarrow> 'h hcos_posix" where
  "hcos_posix_init alloc free g = g\<lparr>hcos_posix_alloc := alloc, hcos_posix_free := free\<rparr>"

text \<open>A call of \<open>hcos_posix_free\<close>, which the code never checks for null.\<close>

definition posix_free :: "'h hcos_posix \<Rightarrow> posix_obj \<Rightarrow> addr ptr \<Rightarrow> 'h \<Rightarrow> 'h run" where
  "posix_free g k p h =
     (case hcos_posix_free g of None \<Rightarrow> Faults | Some f \<Rightarrow> Returns (f k p h))"

section \<open>What an allocator promises\<close>

text \<open>
  \<open>live\<close> are the blocks in use. A new block was not in use; a failed allocation changes
  nothing; releasing a block removes it.
\<close>

definition mem_laws :: "('h \<Rightarrow> (posix_obj \<times> addr) set) \<Rightarrow> 'h alloc_fun \<Rightarrow> 'h free_fun \<Rightarrow> bool" where
  "mem_laws live al fr \<longleftrightarrow>
     (\<forall>k n h a h'. al k n h = (Some a, h') \<longrightarrow> (k, a) \<notin> live h \<and> live h' = insert (k, a) (live h)) \<and>
     (\<forall>k n h h'. al k n h = (None, h') \<longrightarrow> live h' = live h) \<and>
     (\<forall>k a h. live (fr k (Some a) h) = live h - {(k, a)})"

lemma mem_lawsD:
  assumes "mem_laws live al fr"
  shows "al k n h = (Some a, h') \<Longrightarrow> (k, a) \<notin> live h \<and> live h' = insert (k, a) (live h)"
    and "al k n h = (None, h') \<Longrightarrow> live h' = live h"
    and "live (fr k (Some a) h) = live h - {(k, a)}"
proof -
  have laws: "\<forall>k n h a h'. al k n h = (Some a, h') \<longrightarrow>
      (k, a) \<notin> live h \<and> live h' = insert (k, a) (live h)"
    "\<forall>k n h h'. al k n h = (None, h') \<longrightarrow> live h' = live h"
    "\<forall>k a h. live (fr k (Some a) h) = live h - {(k, a)}"
    by (rule conjunct1 [OF assms [unfolded mem_laws_def]],
        rule conjunct1 [OF conjunct2 [OF assms [unfolded mem_laws_def]]],
        rule conjunct2 [OF conjunct2 [OF assms [unfolded mem_laws_def]]])
  show "al k n h = (Some a, h') \<Longrightarrow> (k, a) \<notin> live h \<and> live h' = insert (k, a) (live h)"
    using laws(1) by simp
  show "al k n h = (None, h') \<Longrightarrow> live h' = live h" using laws(2) by simp
  show "live (fr k (Some a) h) = live h - {(k, a)}" using laws(3) by simp
qed

text \<open>
  A reference allocator: the blocks in use, the next free address and how many more blocks
  there are.
\<close>

record ref_heap =
  blocks :: "(posix_obj \<times> addr) list"
  next_addr :: addr
  budget :: nat

definition ref_alloc :: "ref_heap alloc_fun" where
  "ref_alloc k n h =
     (if budget h = 0 \<or> (k, next_addr h) \<in> set (blocks h) then (None, h)
      else (Some (next_addr h),
        h\<lparr>blocks := (k, next_addr h) # blocks h, next_addr := Suc (next_addr h), budget := budget h - 1\<rparr>))"

definition ref_free :: "ref_heap free_fun" where
  "ref_free k p h =
     (case p of None \<Rightarrow> h | Some a \<Rightarrow> h\<lparr>blocks := removeAll (k, a) (blocks h)\<rparr>)"

definition ref_mem :: "ref_heap hcos_posix" where
  "ref_mem = \<lparr>hcos_posix_alloc = Some ref_alloc, hcos_posix_free = Some ref_free\<rparr>"

lemma ref_mem_laws [simp]: "mem_laws (\<lambda>h. set (blocks h)) ref_alloc ref_free"
  by (auto simp: mem_laws_def ref_alloc_def ref_free_def split: if_splits)

lemma ref_mem_sel [simp]:
  "hcos_posix_alloc ref_mem = Some ref_alloc" "hcos_posix_free ref_mem = Some ref_free"
  by (simp_all add: ref_mem_def)

end
