(* ===== verification/Thread.thy ===== *)
theory Thread
  imports Attr Threads Memory
begin

text \<open>
  The threads of \<open>src/src/posix_pthread.c\<close>: creation, exit and join, with the memory of thread
  objects and stacks. \<open>pthread_create\<close> is a function here, whose parts \<open>Thread_Life\<close> interleaves; the code
  of exit and join is a program in the sense of Threads, over all thread objects at once.
\<close>

section \<open>Thread objects\<close>

text \<open>Values of type \<open>void *\<close> and function pointers are addresses.\<close>

record ('s, 'm) pthread_internal =
  t_attr :: pthread_attr
  t_fun :: "addr ptr"
  t_fun_arg :: "addr ptr"
  t_stack :: "addr ptr"
  t_barrier :: 's
  t_joined :: 's
  t_mux :: 'm
  t_ret :: "addr ptr"

text \<open>
  The kernel's tasks, and what else is not in the sources: \<open>task_init t pri stack size\<close> starts
  the task embedded in the thread object at \<open>t\<close> with \<open>run_thread\<close> and \<open>t\<close> as its argument
  (0 on success); \<open>zeroed\<close> is an object of zero bytes, \<open>sizeof_thread\<close> its size.
\<close>

record ('t, 's, 'm, 'k, 'h) thread_env =
  t_plat :: platform
  t_sems :: "'s sem_ops"
  t_muts :: "('t, 'm) mut_ops"
  t_mem :: "'h hcos_posix"
  task_init :: "addr \<Rightarrow> int \<Rightarrow> addr \<Rightarrow> u32 \<Rightarrow> 'k \<Rightarrow> int \<times> 'k"
  task_pri :: "addr \<Rightarrow> int \<Rightarrow> 'k \<Rightarrow> 'k"
  task_priv :: "'t \<Rightarrow> addr ptr"
  zeroed :: "('s, 'm) pthread_internal"
  sizeof_thread :: u32

record ('s, 'm, 'k, 'h) tworld =
  heap :: 'h
  tobj :: "addr \<Rightarrow> ('s, 'm) pthread_internal option"
  kern :: 'k

section \<open>Operations\<close>

definition free_thread ::
    "('t, 's, 'm, 'k, 'h) thread_env \<Rightarrow> addr \<Rightarrow> ('s, 'm, 'k, 'h) tworld \<Rightarrow> ('s, 'm, 'k, 'h) tworld run" where
  "free_thread e th w =
     run_bind (posix_free (t_mem e) POSIX_THREAD (Some th) (heap w))
       (\<lambda>h. Returns (w\<lparr>heap := h, tobj := (tobj w)(th := None)\<rparr>))"

definition free_stack ::
    "('t, 's, 'm, 'k, 'h) thread_env \<Rightarrow> addr ptr \<Rightarrow> ('s, 'm, 'k, 'h) tworld \<Rightarrow> ('s, 'm, 'k, 'h) tworld run" where
  "free_stack e st w =
     run_bind (posix_free (t_mem e) POSIX_STACK st (heap w)) (\<lambda>h. Returns (w\<lparr>heap := h\<rparr>))"

text \<open>
  \<open>out\<close> is the variable behind \<open>_thread\<close>. Allocating the object and clearing it (\<open>memset\<close>
  comes before the test for null); filling it; then the stack and the task.
\<close>

definition create_object ::
    "('t, 's, 'm, 'k, 'h) thread_env \<Rightarrow> errno option \<Rightarrow> ('s, 'm, 'k, 'h) tworld \<Rightarrow>
       (ret \<times> addr ptr \<times> errno option \<times> ('s, 'm, 'k, 'h) tworld) run" where
  "create_object e err w =
     (case hcos_posix_alloc (t_mem e) of
        None \<Rightarrow> Returns (MinusOne, None, Some EAGAIN, w)
      | Some alloc \<Rightarrow>
          (case alloc POSIX_THREAD (sizeof_thread e) (heap w) of
             (None, h) \<Rightarrow> Faults
           | (Some th, h) \<Rightarrow>
               Returns (OK, Some th, err, w\<lparr>heap := h, tobj := (tobj w)(th \<mapsto> zeroed e)\<rparr>)))"

definition fill_object ::
    "('t, 's, 'm, 'k, 'h) thread_env \<Rightarrow> pthread_attr ptr \<Rightarrow> addr ptr \<Rightarrow> addr ptr \<Rightarrow>
       ('s, 'm) pthread_internal \<Rightarrow> ('s, 'm) pthread_internal" where
  "fill_object e attr fn arg obj =
     (let obj = obj\<lparr>t_attr := (case attr of None \<Rightarrow> PTHTREAD_ATTR_DEFAULT (t_plat e) | Some a \<Rightarrow> a)\<rparr>;
          obj = obj\<lparr>t_fun_arg := arg, t_fun := fn\<rparr>
      in if STATUS_JOINABLE (status (t_attr obj))
         then obj\<lparr>t_mux := mut_init (t_muts e), t_barrier := sem_init (t_sems e) 1,
           t_joined := sem_init (t_sems e) 1\<rparr>
         else obj)"

definition create_stack ::
    "('t, 's, 'm, 'k, 'h) thread_env \<Rightarrow> addr \<Rightarrow> ('s, 'm) pthread_internal \<Rightarrow>
       ('s, 'm, 'k, 'h) tworld \<Rightarrow> (addr ptr \<times> ('s, 'm, 'k, 'h) tworld) run" where
  "create_stack e th obj w =
     (case hcos_posix_alloc (t_mem e) of
        None \<Rightarrow> Faults
      | Some alloc \<Rightarrow>
          (case alloc POSIX_STACK (ucast (stack_sz (t_attr obj))) (heap w) of
             (p, h) \<Rightarrow> Returns (p, w\<lparr>heap := h, tobj := (tobj w)(th \<mapsto> obj\<lparr>t_stack := p\<rparr>)\<rparr>)))"

definition create_task ::
    "('t, 's, 'm, 'k, 'h) thread_env \<Rightarrow> addr \<Rightarrow> addr \<Rightarrow> ('s, 'm) pthread_internal \<Rightarrow>
       ('s, 'm, 'k, 'h) tworld \<Rightarrow> int \<times> ('s, 'm, 'k, 'h) tworld" where
  "create_task e th st obj w =
     (case task_init e th (uint (STATUS_PRIORITY (status (t_attr obj)))) st
             (ucast (stack_sz (t_attr obj))) (kern w) of
        (r, k) \<Rightarrow> (r, w\<lparr>kern := k\<rparr>))"

definition start_task ::
    "('t, 's, 'm, 'k, 'h) thread_env \<Rightarrow> addr \<Rightarrow> addr ptr \<Rightarrow> ('s, 'm) pthread_internal \<Rightarrow>
       ('s, 'm, 'k, 'h) tworld \<Rightarrow> (ret \<times> addr ptr \<times> ('s, 'm, 'k, 'h) tworld) run" where
  "start_task e th out obj w =
     run_bind (create_stack e th obj w)
       (\<lambda>(stack, w).
          case stack of
            None \<Rightarrow> run_bind (free_thread e th w) (\<lambda>w. Returns (Err EAGAIN, out, w))
          | Some st \<Rightarrow>
              (case create_task e th st obj w of
                 (r, w) \<Rightarrow>
                   if r \<noteq> 0
                   then run_bind (free_stack e (Some st) w)
                     (\<lambda>w. run_bind (free_thread e th w) (\<lambda>w. Returns (Err EAGAIN, out, w)))
                   else Returns (OK, Some th, w)))"

lemmas start_task_defs = start_task_def create_stack_def create_task_def

definition pthread_create ::
    "('t, 's, 'm, 'k, 'h) thread_env \<Rightarrow> pthread_attr ptr \<Rightarrow> addr ptr \<Rightarrow> addr ptr \<Rightarrow> addr ptr \<Rightarrow>
       errno option \<Rightarrow> ('s, 'm, 'k, 'h) tworld \<Rightarrow>
       (ret \<times> addr ptr \<times> errno option \<times> ('s, 'm, 'k, 'h) tworld) run" where
  "pthread_create e attr fn arg out err w =
     run_bind (create_object e err w)
       (\<lambda>(ret, thread, err, w).
          case thread of
            None \<Rightarrow> Returns (Err EAGAIN, out, err, w)
          | Some th \<Rightarrow>
              (let obj = fill_object e attr fn arg (the (tobj w th))
               in run_bind (start_task e th out obj (w\<lparr>tobj := (tobj w)(th \<mapsto> obj)\<rparr>))
                    (\<lambda>(ret, out, w). Returns (ret, out, err, w))))"

definition pthread_self :: "('t, 's, 'm, 'k, 'h) thread_env \<Rightarrow> 't \<Rightarrow> addr ptr" where
  "pthread_self e t = task_priv e t"

definition pthread_equal :: "addr ptr \<Rightarrow> addr ptr \<Rightarrow> int" where
  "pthread_equal t1 t2 = (if t1 \<noteq> None \<and> t2 \<noteq> None then of_bool (t1 = t2) else 0)"

definition pthread_getschedparam ::
    "addr \<Rightarrow> ('s, 'm, 'k, 'h) tworld \<Rightarrow> (ret \<times> int \<times> sched_param) run" where
  "pthread_getschedparam th w =
     (case tobj w th of
        None \<Rightarrow> Faults
      | Some obj \<Rightarrow>
          Returns (OK, SCHED_OTHER, \<lparr>sched_priority = uint (STATUS_PRIORITY (status (t_attr obj)))\<rparr>))"

definition pthread_setschedparam ::
    "('t, 's, 'm, 'k, 'h) thread_env \<Rightarrow> addr \<Rightarrow> int \<Rightarrow> sched_param ptr \<Rightarrow> ('s, 'm, 'k, 'h) tworld \<Rightarrow>
       (ret \<times> ('s, 'm, 'k, 'h) tworld) run" where
  "pthread_setschedparam e th policy param w =
     (case tobj w th of
        None \<Rightarrow> Faults
      | Some obj \<Rightarrow>
          (case pthread_attr_setschedparam (t_plat e) (t_attr obj) param of
             (ret, a) \<Rightarrow>
               (let w = w\<lparr>tobj := (tobj w)(th \<mapsto> obj\<lparr>t_attr := a\<rparr>)\<rparr>
                in Returns (ret,
                  if ret = OK then w\<lparr>kern := task_pri e th (sched_priority (the param)) (kern w)\<rparr> else w))))"

section \<open>Exit and join\<close>

text \<open>
  Program points, each with the thread object concerned. A thread that leaves its function
  with \<open>v\<close> (\<open>run_thread\<close>) or calls \<open>pthread_exit\<close> stores \<open>v\<close> (\<open>XRet\<close>) and runs
  \<open>exit_thread\<close> (\<open>XTest\<close> on); \<open>J\<close> are the points of \<open>pthread_join\<close>. \<open>TFault\<close> is the use of an
  object that is no longer there, \<open>TDone\<close> the end of a call, with the value stored through
  \<open>retval\<close> by a join.
\<close>

datatype tpc =
    TIdle
  | XRet addr "addr ptr" | XTest addr | XPost addr | XGet addr | XFreeStack addr | XFreeThread addr
  | JTest addr | JLock addr | JSelf addr | JGet addr | JPost addr | JUnlock addr | JRet addr
  | JFreeStack addr "addr ptr" | JFreeThread addr "addr ptr"
  | TFault | TDone ret "addr ptr"

text \<open>An access to a thread object, and the release of memory, as steps.\<close>

definition with_obj ::
    "('s, 'm, 'k, 'h) tworld \<Rightarrow> addr \<Rightarrow>
       (('s, 'm) pthread_internal \<Rightarrow> (('s, 'm, 'k, 'h) tworld \<times> tpc) option) \<Rightarrow>
       (('s, 'm, 'k, 'h) tworld \<times> tpc) option" where
  "with_obj w th f = (case tobj w th of None \<Rightarrow> Some (w, TFault) | Some obj \<Rightarrow> f obj)"

definition put_obj ::
    "('s, 'm, 'k, 'h) tworld \<Rightarrow> addr \<Rightarrow> ('s, 'm) pthread_internal \<Rightarrow> tpc \<Rightarrow>
       (('s, 'm, 'k, 'h) tworld \<times> tpc) option" where
  "put_obj w th obj pc = Some (w\<lparr>tobj := (tobj w)(th \<mapsto> obj)\<rparr>, pc)"

definition run_step ::
    "('s, 'm, 'k, 'h) tworld \<Rightarrow> ('s, 'm, 'k, 'h) tworld run \<Rightarrow> tpc \<Rightarrow>
       (('s, 'm, 'k, 'h) tworld \<times> tpc) option" where
  "run_step w r pc =
     (case r of Returns w' \<Rightarrow> Some (w', pc) | Faults \<Rightarrow> Some (w, TFault) | Blocks \<Rightarrow> None)"

fun exit_thread ::
    "('t, 's, 'm, 'k, 'h) thread_env \<Rightarrow> ('s, 'm, 'k, 'h) tworld \<Rightarrow> tpc \<Rightarrow>
       (('s, 'm, 'k, 'h) tworld \<times> tpc) option" where
  "exit_thread e w (XTest th) =
     with_obj w th (\<lambda>obj. Some (w,
       if STATUS_JOINABLE (status (t_attr obj)) then XPost th else XFreeStack th))"
| "exit_thread e w (XPost th) =
     with_obj w th (\<lambda>obj.
       put_obj w th (obj\<lparr>t_barrier := sem_post (t_sems e) (t_barrier obj)\<rparr>) (XGet th))"
| "exit_thread e w (XGet th) =
     with_obj w th (\<lambda>obj.
       case sem_take (t_sems e) (t_joined obj) of
         None \<Rightarrow> None
       | Some s \<Rightarrow> put_obj w th (obj\<lparr>t_joined := s\<rparr>) (TDone OK None))"
| "exit_thread e w (XFreeStack th) =
     with_obj w th (\<lambda>obj. run_step w (free_stack e (t_stack obj) w) (XFreeThread th))"
| "exit_thread e w (XFreeThread th) =
     with_obj w th (\<lambda>obj. run_step w (free_thread e th w) (TDone OK None))"
| "exit_thread e w _ = None"

text \<open>\<open>run_thread\<close> after the thread's function has returned \<open>v\<close>, and \<open>pthread_exit v\<close>.\<close>

fun run_thread ::
    "('t, 's, 'm, 'k, 'h) thread_env \<Rightarrow> ('s, 'm, 'k, 'h) tworld \<Rightarrow> tpc \<Rightarrow>
       (('s, 'm, 'k, 'h) tworld \<times> tpc) option" where
  "run_thread e w (XRet th v) = with_obj w th (\<lambda>obj. put_obj w th (obj\<lparr>t_ret := v\<rparr>) (XTest th))"
| "run_thread e w pc = exit_thread e w pc"

definition pthread_exit :: "('t, 's, 'm, 'k, 'h) thread_env \<Rightarrow> 't \<Rightarrow> addr ptr \<Rightarrow> tpc" where
  "pthread_exit e t value_ptr =
     (case pthread_self e t of None \<Rightarrow> TFault | Some th \<Rightarrow> XRet th value_ptr)"

fun pthread_join ::
    "('t, 's, 'm, 'k, 'h) thread_env \<Rightarrow> 't \<Rightarrow> ('s, 'm, 'k, 'h) tworld \<Rightarrow> tpc \<Rightarrow>
       (('s, 'm, 'k, 'h) tworld \<times> tpc) option" where
  "pthread_join e t w (JTest th) =
     with_obj w th (\<lambda>obj. Some (w,
       if \<not> STATUS_JOINABLE (status (t_attr obj)) then TDone (Err EDEADLK) None else JLock th))"
| "pthread_join e t w (JLock th) =
     with_obj w th (\<lambda>obj.
       case mut_take (t_muts e) t (t_mux obj) of
         None \<Rightarrow> Some (w, TDone (Err EDEADLK) None)
       | Some m \<Rightarrow> put_obj w th (obj\<lparr>t_mux := m\<rparr>) (JSelf th))"
| "pthread_join e t w (JSelf th) =
     Some (w, if pthread_equal (pthread_self e t) (Some th) \<noteq> 0 then TDone (Err EDEADLK) None
       else JGet th)"
| "pthread_join e t w (JGet th) =
     with_obj w th (\<lambda>obj.
       case sem_take (t_sems e) (t_barrier obj) of
         None \<Rightarrow> None
       | Some s \<Rightarrow> put_obj w th (obj\<lparr>t_barrier := s\<rparr>) (JPost th))"
| "pthread_join e t w (JPost th) =
     with_obj w th (\<lambda>obj.
       put_obj w th (obj\<lparr>t_joined := sem_post (t_sems e) (t_joined obj)\<rparr>) (JUnlock th))"
| "pthread_join e t w (JUnlock th) =
     with_obj w th (\<lambda>obj.
       put_obj w th (obj\<lparr>t_mux := mut_unlock (t_muts e) (t_mux obj)\<rparr>) (JRet th))"
| "pthread_join e t w (JRet th) =
     with_obj w th (\<lambda>obj. Some (w, JFreeStack th (t_ret obj)))"
| "pthread_join e t w (JFreeStack th v) =
     with_obj w th (\<lambda>obj. run_step w (free_stack e (t_stack obj) w) (JFreeThread th v))"
| "pthread_join e t w (JFreeThread th v) =
     with_obj w th (\<lambda>obj. run_step w (free_thread e th w) (TDone OK v))"
| "pthread_join e t w _ = None"

definition thread_code ::
    "('t, 's, 'm, 'k, 'h) thread_env \<Rightarrow> 't \<Rightarrow> ('s, 'm, 'k, 'h) tworld \<Rightarrow> tpc \<Rightarrow>
       (('s, 'm, 'k, 'h) tworld \<times> tpc) option" where
  "thread_code e t w pc =
     (case run_thread e w pc of Some q \<Rightarrow> Some q | None \<Rightarrow> pthread_join e t w pc)"

fun thread_entry :: "tpc \<Rightarrow> bool" where
  "thread_entry (XRet th v) \<longleftrightarrow> True"
| "thread_entry (JTest th) \<longleftrightarrow> True"
| "thread_entry _ \<longleftrightarrow> False"

fun thread_result :: "tpc \<Rightarrow> (ret \<times> addr ptr) option" where
  "thread_result (TDone r v) = Some (r, v)"
| "thread_result _ = None"

definition thread_program ::
    "('t, 's, 'm, 'k, 'h) thread_env \<Rightarrow> ('t, ('s, 'm, 'k, 'h) tworld, tpc, ret \<times> addr ptr) program" where
  "thread_program e =
     \<lparr>code = thread_code e, expire = (\<lambda>_ _ _. None), entry = thread_entry, idle = TIdle,
      result = thread_result\<rparr>"

section \<open>Facts about creation\<close>

definition thread_env_ok ::
    "('h \<Rightarrow> (posix_obj \<times> addr) set) \<Rightarrow> 'h alloc_fun \<Rightarrow> 'h free_fun \<Rightarrow> ('t, 's, 'm, 'k, 'h) thread_env \<Rightarrow> bool" where
  "thread_env_ok live al fr e \<longleftrightarrow>
     counting_sem (t_sems e) \<and> mutex_laws (t_muts e) \<and> mem_laws live al fr \<and>
     hcos_posix_alloc (t_mem e) = Some al \<and> hcos_posix_free (t_mem e) = Some fr"

text \<open>A thread object as \<open>pthread_create\<close> leaves it.\<close>

definition fresh_object ::
    "('t, 's, 'm, 'k, 'h) thread_env \<Rightarrow> addr \<Rightarrow> ('s, 'm) pthread_internal \<Rightarrow> bool" where
  "fresh_object e st obj \<longleftrightarrow>
     t_stack obj = Some st \<and> t_ret obj = t_ret (zeroed e) \<and>
     (STATUS_JOINABLE (status (t_attr obj)) \<longrightarrow>
        t_mux obj = mut_init (t_muts e) \<and> t_barrier obj = sem_init (t_sems e) 1 \<and>
        t_joined obj = sem_init (t_sems e) 1)"

lemma fill_object_fresh:
  "fresh_object e st (fill_object e attr fn arg (zeroed e)\<lparr>t_stack := Some st\<rparr>) \<and>
    t_attr (fill_object e attr fn arg obj) =
      (case attr of None \<Rightarrow> PTHTREAD_ATTR_DEFAULT (t_plat e) | Some a \<Rightarrow> a) \<and>
    t_fun (fill_object e attr fn arg obj) = fn \<and> t_fun_arg (fill_object e attr fn arg obj) = arg"
  by (auto simp: fresh_object_def fill_object_def Let_def)

lemma start_task_cases:
  assumes "thread_env_ok live al fr e" and "(POSIX_THREAD, th) \<in> live (heap w)"
  shows "(\<exists>w'. start_task e th out obj w = Returns (Err EAGAIN, out, w') \<and>
      live (heap w') = live (heap w) - {(POSIX_THREAD, th)} \<and> tobj w' = (tobj w)(th := None)) \<or>
    (\<exists>w' st. start_task e th out obj w = Returns (OK, Some th, w') \<and>
      (POSIX_STACK, st) \<notin> live (heap w) \<and> live (heap w') = insert (POSIX_STACK, st) (live (heap w)) \<and>
      tobj w' = (tobj w)(th \<mapsto> obj\<lparr>t_stack := Some st\<rparr>))"
proof -
  have laws: "mem_laws live al fr" and al: "hcos_posix_alloc (t_mem e) = Some al"
    and fr: "hcos_posix_free (t_mem e) = Some fr"
    using assms(1) by (simp_all add: thread_env_ok_def)
  obtain p h where ph: "al POSIX_STACK (ucast (stack_sz (t_attr obj))) (heap w) = (p, h)" by force
  show ?thesis
  proof (cases p)
    case None
    with ph mem_lawsD(2) [OF laws] have "live h = live (heap w)" by simp
    with None ph al fr mem_lawsD(3) [OF laws] show ?thesis
      by (simp add: start_task_defs free_thread_def posix_free_def)
  next
    case (Some st)
    with ph mem_lawsD(1) [OF laws] have
      st: "(POSIX_STACK, st) \<notin> live (heap w)" "live h = insert (POSIX_STACK, st) (live (heap w))"
      by simp_all
    obtain r k where rk: "task_init e th (uint (STATUS_PRIORITY (status (t_attr obj)))) st
        (ucast (stack_sz (t_attr obj))) (kern w) = (r, k)" by force
    show ?thesis
    proof (cases "r = 0")
      case True
      with Some ph al rk st show ?thesis by (auto simp: start_task_defs)
    next
      case False
      with Some ph al fr rk st mem_lawsD(3) [OF laws] show ?thesis
        by (auto simp: start_task_defs free_thread_def free_stack_def posix_free_def)
    qed
  qed
qed

lemma pthread_create_cases:
  assumes "thread_env_ok live al fr e"
  shows "(fst (al POSIX_THREAD (sizeof_thread e) (heap w)) = None \<and>
      pthread_create e attr fn arg out err w = Faults) \<or>
    (\<exists>w' th. pthread_create e attr fn arg out err w = Returns (Err EAGAIN, out, err, w') \<and>
      live (heap w') = live (heap w) \<and> tobj w' = (tobj w)(th := None)) \<or>
    (\<exists>w' th st. pthread_create e attr fn arg out err w = Returns (OK, Some th, err, w') \<and>
      (POSIX_THREAD, th) \<notin> live (heap w) \<and> (POSIX_STACK, st) \<notin> live (heap w) \<and>
      live (heap w') = {(POSIX_THREAD, th), (POSIX_STACK, st)} \<union> live (heap w) \<and>
      tobj w' = (tobj w)(th \<mapsto> fill_object e attr fn arg (zeroed e)\<lparr>t_stack := Some st\<rparr>))"
proof -
  have laws: "mem_laws live al fr" and al: "hcos_posix_alloc (t_mem e) = Some al"
    using assms by (simp_all add: thread_env_ok_def)
  obtain p h where ph: "al POSIX_THREAD (sizeof_thread e) (heap w) = (p, h)" by force
  show ?thesis
  proof (cases p)
    case None
    with ph al show ?thesis by (simp add: pthread_create_def create_object_def)
  next
    case (Some th)
    with ph mem_lawsD(1) [OF laws] have
      th: "(POSIX_THREAD, th) \<notin> live (heap w)" "live h = insert (POSIX_THREAD, th) (live (heap w))"
      by simp_all
    let ?obj = "fill_object e attr fn arg (zeroed e)"
    let ?w = "w\<lparr>heap := h, tobj := (tobj w)(th \<mapsto> ?obj)\<rparr>"
    have c: "pthread_create e attr fn arg out err w =
        run_bind (start_task e th out ?obj ?w) (\<lambda>(ret, out, w). Returns (ret, out, err, w))"
      using Some ph al by (simp add: pthread_create_def create_object_def Let_def)
    have "(POSIX_THREAD, th) \<in> live (heap ?w)" using th by simp
    from start_task_cases [OF assms this, of out ?obj] show ?thesis
    proof (elim disjE exE conjE)
      fix w' assume "start_task e th out ?obj ?w = Returns (Err EAGAIN, out, w')"
        "live (heap w') = live (heap ?w) - {(POSIX_THREAD, th)}" "tobj w' = (tobj ?w)(th := None)"
      with c th show ?thesis by (intro disjI2 disjI1 exI [of _ w'] exI [of _ th]) auto
    next
      fix w' st assume "start_task e th out ?obj ?w = Returns (OK, Some th, w')"
        "(POSIX_STACK, st) \<notin> live (heap ?w)" "live (heap w') = insert (POSIX_STACK, st) (live (heap ?w))"
        "tobj w' = (tobj ?w)(th \<mapsto> ?obj\<lparr>t_stack := Some st\<rparr>)"
      with c th show ?thesis
        by (intro disjI2 exI [of _ w'] exI [of _ th] exI [of _ st]) auto
    qed
  qed
qed

section \<open>Joins exclude each other\<close>

fun j_in :: "addr \<Rightarrow> tpc \<Rightarrow> bool" where
  "j_in th (JSelf a) \<longleftrightarrow> a = th"
| "j_in th (JGet a) \<longleftrightarrow> a = th"
| "j_in th (JPost a) \<longleftrightarrow> a = th"
| "j_in th (JUnlock a) \<longleftrightarrow> a = th"
| "j_in th _ \<longleftrightarrow> False"

definition join_inv ::
    "('t, 's, 'm, 'k, 'h) thread_env \<Rightarrow> ('t, ('s, 'm, 'k, 'h) tworld, tpc, ret \<times> addr ptr) threads \<Rightarrow> bool" where
  "join_inv e s \<longleftrightarrow>
     (\<forall>th obj u. tobj (shared s) th = Some obj \<longrightarrow> j_in th (pc_of s u) \<longrightarrow>
        own (t_muts e) (t_mux obj) = Some u)"

definition join_ok :: "('t, 's, 'm, 'k, 'h) thread_env \<Rightarrow> bool" where
  "join_ok e \<longleftrightarrow> mutex_laws (t_muts e) \<and> taker_owns (t_muts e)"

definition join_start ::
    "('t, 's, 'm, 'k, 'h) thread_env \<Rightarrow> ('t, ('s, 'm, 'k, 'h) tworld, tpc, ret \<times> addr ptr) threads \<Rightarrow> bool" where
  "join_start e s \<longleftrightarrow> pc_of s = (\<lambda>_. TIdle)"

lemma run_step_free:
  "run_step w (free_stack e st w) pc =
     (case hcos_posix_free (t_mem e) of
        None \<Rightarrow> Some (w, TFault) | Some f \<Rightarrow> Some (w\<lparr>heap := f POSIX_STACK st (heap w)\<rparr>, pc))"
  "run_step w (free_thread e th w) pc =
     (case hcos_posix_free (t_mem e) of
        None \<Rightarrow> Some (w, TFault)
      | Some f \<Rightarrow> Some (w\<lparr>heap := f POSIX_THREAD (Some th) (heap w), tobj := (tobj w)(th := None)\<rparr>, pc))"
  by (simp_all add: run_step_def free_stack_def free_thread_def posix_free_def split: option.split)

lemmas thread_simps = thread_program_def thread_code_def with_obj_def put_obj_def run_step_free

lemma join_invD:
  "join_inv e s \<Longrightarrow> tobj (shared s) th = Some obj \<Longrightarrow> j_in th (pc_of s u) \<Longrightarrow>
     own (t_muts e) (t_mux obj) = Some u"
  unfolding join_inv_def by blast

text \<open>Apart from the lock and the unlock, no step of a call changes a mutex or enters the section.\<close>

fun j_mux_op :: "tpc \<Rightarrow> bool" where
  "j_mux_op (JLock a) \<longleftrightarrow> True"
| "j_mux_op (JUnlock a) \<longleftrightarrow> True"
| "j_mux_op _ \<longleftrightarrow> False"

definition same_mutexes :: "('s, 'm, 'k, 'h) tworld \<Rightarrow> ('s, 'm, 'k, 'h) tworld \<Rightarrow> bool" where
  "same_mutexes w w' \<longleftrightarrow>
     (\<forall>th obj. tobj w' th = Some obj \<longrightarrow> (\<exists>ob. tobj w th = Some ob \<and> t_mux ob = t_mux obj))"

lemma same_mutexesI:
  "same_mutexes w w"
  "tobj w th = Some ob \<Longrightarrow> t_mux ob = t_mux obj \<Longrightarrow> same_mutexes w (w\<lparr>tobj := (tobj w)(th \<mapsto> obj)\<rparr>)"
  "same_mutexes w (w\<lparr>heap := h\<rparr>)"
  "same_mutexes w (w\<lparr>heap := h, tobj := (tobj w)(th := None)\<rparr>)"
  by (auto simp: same_mutexes_def)

lemma run_thread_moves:
  "run_thread e w pc = Some (w', pc') \<Longrightarrow> same_mutexes w w' \<and> \<not> j_in th pc'"
  by (cases pc)
    (auto simp: with_obj_def put_obj_def run_step_free same_mutexesI split: option.splits if_splits)

lemma pthread_join_moves:
  "pthread_join e t w pc = Some (w', pc') \<Longrightarrow> \<not> j_mux_op pc \<Longrightarrow>
     same_mutexes w w' \<and> (j_in th pc' \<longrightarrow> j_in th pc)"
  by (cases pc)
    (auto simp: with_obj_def put_obj_def run_step_free same_mutexesI split: option.splits if_splits)

lemma other_moves:
  assumes "thread_code e t w pc = Some (w', pc')" and "\<not> j_mux_op pc"
  shows "same_mutexes w w'" and "j_in th pc' \<longrightarrow> j_in th pc"
  using assms run_thread_moves [of e w pc w' pc'] pthread_join_moves [of e t w pc w' pc']
  unfolding thread_code_def by (auto split: option.splits)

lemma join_inv_set_mutex:
  assumes "join_inv e s" and "tobj (shared s) a = Some ob"
    and "\<And>u. j_in a (pc_of s u) \<Longrightarrow> u = t"
    and "j_in a p \<Longrightarrow> own (t_muts e) (t_mux obj) = Some t"
    and "\<And>th. th \<noteq> a \<Longrightarrow> \<not> j_in th p"
  shows "join_inv e (s\<lparr>shared := (shared s)\<lparr>tobj := (tobj (shared s))(a \<mapsto> obj)\<rparr>, pc_of := (pc_of s)(t := p)\<rparr>)"
  unfolding join_inv_def
proof (intro allI impI)
  fix th x u
  assume x: "tobj (shared (s\<lparr>shared := (shared s)\<lparr>tobj := (tobj (shared s))(a \<mapsto> obj)\<rparr>,
      pc_of := (pc_of s)(t := p)\<rparr>)) th = Some x"
    and u: "j_in th (pc_of (s\<lparr>shared := (shared s)\<lparr>tobj := (tobj (shared s))(a \<mapsto> obj)\<rparr>,
      pc_of := (pc_of s)(t := p)\<rparr>) u)"
  show "own (t_muts e) (t_mux x) = Some u"
  proof (cases "u = t")
    case True
    with u have "j_in th p" by simp
    with assms(5) have "th = a" by blast
    with assms(4) x True \<open>j_in th p\<close> show ?thesis by simp
  next
    case False
    with u have "j_in th (pc_of s u)" by simp
    with assms(3) False have "th \<noteq> a" by blast
    with x have "tobj (shared s) th = Some x" by simp
    from join_invD [OF assms(1) this \<open>j_in th (pc_of s u)\<close>] show ?thesis .
  qed
qed

lemma join_inv_leave:
  assumes "join_inv e s" and "\<And>th. \<not> j_in th p"
  shows "join_inv e (s\<lparr>pc_of := (pc_of s)(t := p)\<rparr>)"
  using assms unfolding join_inv_def by simp

lemma join_inv_lock:
  assumes "join_ok e" and "join_inv e s" and "pc_of s t = JLock a"
    and "thread_code e t (shared s) (JLock a) = Some (w, p)"
  shows "join_inv e (s\<lparr>shared := w, pc_of := (pc_of s)(t := p)\<rparr>)"
proof (cases "\<exists>obj m. tobj (shared s) a = Some obj \<and> mut_take (t_muts e) t (t_mux obj) = Some m")
  case False
  have "w = shared s \<and> (p = TFault \<or> p = TDone (Err EDEADLK) None)"
  proof (cases "tobj (shared s) a")
    case None
    with assms(4) show ?thesis by (simp add: thread_simps)
  next
    case (Some obj)
    with False have "mut_take (t_muts e) t (t_mux obj) = None" by (cases "mut_take (t_muts e) t (t_mux obj)") simp_all
    with Some assms(4) show ?thesis by (simp add: thread_simps)
  qed
  then have w: "w = shared s" and "\<not> j_in th p" for th by auto
  from join_inv_leave [OF assms(2) this(2), of t] show ?thesis by (simp add: w)
next
  case True
  then obtain obj m where obj: "tobj (shared s) a = Some obj"
    and m: "mut_take (t_muts e) t (t_mux obj) = Some m" by blast
  have own: "own (t_muts e) m = Some t" using assms(1) m unfolding join_ok_def taker_owns_def by blast
  have only: "u = t" if "j_in a (pc_of s u)" for u
  proof (rule ccontr)
    assume "u \<noteq> t"
    have laws: "mutex_laws (t_muts e)" using assms(1) unfolding join_ok_def by (rule conjunct1)
    from mutex_lawsD(5) [OF laws join_invD [OF assms(2) obj that] \<open>u \<noteq> t\<close>] m show False by simp
  qed
  have w: "w = (shared s)\<lparr>tobj := (tobj (shared s))(a \<mapsto> obj\<lparr>t_mux := m\<rparr>)\<rparr>" and p: "p = JSelf a"
    using obj m assms(4) by (simp_all add: thread_simps)
  show ?thesis
    unfolding w by (rule join_inv_set_mutex [OF assms(2) obj only]) (use own in \<open>simp_all add: p\<close>)
qed

lemma join_inv_unlock:
  assumes "join_inv e s" and "pc_of s t = JUnlock a"
    and "thread_code e t (shared s) (JUnlock a) = Some (w, p)"
  shows "join_inv e (s\<lparr>shared := w, pc_of := (pc_of s)(t := p)\<rparr>)"
proof (cases "tobj (shared s) a")
  case None
  with assms(3) have w: "w = shared s" and p: "p = TFault" by (simp_all add: thread_simps)
  have "\<not> j_in th p" for th by (simp add: p)
  from join_inv_leave [OF assms(1) this, of t] show ?thesis by (simp add: w)
next
  case (Some obj)
  have "j_in a (pc_of s t)" using assms(2) by simp
  note t = join_invD [OF assms(1) Some this]
  have only: "u = t" if "j_in a (pc_of s u)" for u
    using join_invD [OF assms(1) Some that] t by simp
  have w: "w = (shared s)\<lparr>tobj := (tobj (shared s))(a \<mapsto> obj\<lparr>t_mux := mut_unlock (t_muts e) (t_mux obj)\<rparr>)\<rparr>"
    and p: "p = JRet a"
    using Some assms(3) by (simp_all add: thread_simps)
  show ?thesis
    unfolding w by (rule join_inv_set_mutex [OF assms(1) Some only]) (simp_all add: p)
qed

lemma join_inv_move:
  assumes "join_ok e" and "join_inv e s" and "thread_code e t (shared s) (pc_of s t) = Some (w, p)"
  shows "join_inv e (s\<lparr>shared := w, pc_of := (pc_of s)(t := p)\<rparr>)"
proof (cases "j_mux_op (pc_of s t)")
  case True
  then obtain a where "pc_of s t = JLock a \<or> pc_of s t = JUnlock a" by (auto elim: j_mux_op.elims)
  with join_inv_lock [OF assms(1,2)] join_inv_unlock [OF assms(2)] assms(3) show ?thesis by metis
next
  case False
  show ?thesis
    unfolding join_inv_def
  proof (intro allI impI)
    fix th obj u
    assume obj: "tobj (shared (s\<lparr>shared := w, pc_of := (pc_of s)(t := p)\<rparr>)) th = Some obj"
      and u: "j_in th (pc_of (s\<lparr>shared := w, pc_of := (pc_of s)(t := p)\<rparr>) u)"
    from obj other_moves(1) [OF assms(3) False] obtain ob where
      ob: "tobj (shared s) th = Some ob" "t_mux ob = t_mux obj"
      by (auto simp: same_mutexes_def)
    have "j_in th (pc_of s u)" using u other_moves(2) [OF assms(3) False, of th] by (cases "u = t") simp_all
    then show "own (t_muts e) (t_mux obj) = Some u"
      using join_invD [OF assms(2) ob(1), of u] ob(2) by simp
  qed
qed

interpretation js: invariant_system join_ok join_start "\<lambda>e. tstep (thread_program e)" join_inv
proof unfold_locales
  show "join_inv e s" if "join_ok e" and "join_start e s"
    for e :: "('t, 's, 'm, 'k, 'h) thread_env" and s
    using that by (simp add: join_inv_def join_start_def)
  show "join_inv e s'" if "join_ok e" and "join_inv e s" and "tstep (thread_program e) s s'"
    for e :: "('t, 's, 'm, 'k, 'h) thread_env" and s s'
    using that(3)
  proof (cases rule: tstep_cases)
    case (call t p)
    with that(2) show ?thesis by (cases p) (auto simp: join_inv_def thread_program_def)
  next
    case (return t r)
    with that(2) show ?thesis by (cases "pc_of s t") (auto simp: join_inv_def thread_program_def)
  next
    case (expire t w p)
    then show ?thesis by (simp add: thread_program_def)
  next
    case (move t w p)
    with join_inv_move [OF that(1,2), of t w p] show ?thesis by (simp add: thread_program_def)
  qed
qed

section \<open>Undisturbed runs\<close>

definition join_run :: "'t \<Rightarrow> addr \<Rightarrow> ('t, tpc) action list" where
  "join_run t th =
     [Call t (JTest th), Move t, Move t, Move t, Move t, Move t, Move t, Move t, Move t, Move t, Return t]"

definition exit_run :: "'t \<Rightarrow> addr \<Rightarrow> addr ptr \<Rightarrow> ('t, tpc) action list" where
  "exit_run u th v = [Call u (XRet th v), Move u, Move u, Move u, Move u, Return u]"

lemma join_run_result:
  assumes "hcos_posix_free (t_mem e) = Some fr" and "tobj (shared s) th = Some obj"
    and "STATUS_JOINABLE (status (t_attr obj))" and "mut_take (t_muts e) t (t_mux obj) = Some m"
    and "pthread_self e t \<noteq> Some th" and "sem_take (t_sems e) (t_barrier obj) = Some b"
    and "pc_of s t = TIdle"
  shows "run_schedule (thread_program e) (join_run t th) s =
    s\<lparr>shared := (shared s)
        \<lparr>heap := fr POSIX_THREAD (Some th) (fr POSIX_STACK (t_stack obj) (heap (shared s))),
         tobj := (tobj (shared s))(th := None)\<rparr>,
      returned := (OK, t_ret obj) # returned s\<rparr>"
proof -
  have "pthread_equal (pthread_self e t) (Some th) = 0"
    using assms(5) by (auto simp: pthread_equal_def)
  moreover have "(pc_of s)(t := TIdle) = pc_of s" using assms(7) by (simp add: fun_upd_idem)
  ultimately show ?thesis
    using assms(1-4,6,7) by (simp add: join_run_def thread_simps)
qed

lemma exit_run_result:
  assumes "tobj (shared s) th = Some obj" and "STATUS_JOINABLE (status (t_attr obj))"
    and "sem_take (t_sems e) (t_joined obj) = Some j" and "pc_of s u = TIdle"
  shows "run_schedule (thread_program e) (exit_run u th v) s =
    s\<lparr>shared := (shared s)\<lparr>tobj := (tobj (shared s))(th \<mapsto>
        obj\<lparr>t_ret := v, t_barrier := sem_post (t_sems e) (t_barrier obj), t_joined := j\<rparr>)\<rparr>,
      returned := (OK, None) # returned s\<rparr>"
proof -
  have "(pc_of s)(u := TIdle) = pc_of s" using assms(4) by (simp add: fun_upd_idem)
  with assms show ?thesis by (simp add: exit_run_def thread_simps)
qed

lemma sem_take_pos:
  "counting_sem S \<Longrightarrow> 0 < sem_val S s \<Longrightarrow> \<exists>s'. sem_take S s = Some s'"
  using counting_semD(4) [of S s] by auto

text \<open>What a fresh joinable object offers: one unit in each semaphore and a free mutex.\<close>

lemma fresh_object_takes:
  assumes "thread_env_ok live al fr e" and "fresh_object e st obj" and "STATUS_JOINABLE (status (t_attr obj))"
  obtains m b j b' where "mut_take (t_muts e) t (t_mux obj) = Some m"
    "sem_take (t_sems e) (t_barrier obj) = Some b" "sem_take (t_sems e) (t_joined obj) = Some j"
    "sem_take (t_sems e) (sem_post (t_sems e) (t_barrier obj)) = Some b'"
proof -
  have S: "counting_sem (t_sems e)" and M: "mutex_laws (t_muts e)"
    using assms(1) by (simp_all add: thread_env_ok_def)
  have obj: "t_mux obj = mut_init (t_muts e)" "t_barrier obj = sem_init (t_sems e) 1"
    "t_joined obj = sem_init (t_sems e) 1"
    using assms(2,3) by (simp_all add: fresh_object_def)
  have v: "sem_val (t_sems e) (sem_init (t_sems e) 1) = 1" using counting_semD(1) [OF S, of 1] by simp
  obtain m where "mut_take (t_muts e) t (t_mux obj) = Some m"
    using mutex_lawsD(1,2) [OF M] obj by metis
  moreover obtain b where "sem_take (t_sems e) (t_barrier obj) = Some b"
    using sem_take_pos [OF S, of "t_barrier obj"] v obj by auto
  moreover obtain b' where "sem_take (t_sems e) (sem_post (t_sems e) (t_barrier obj)) = Some b'"
    using sem_take_pos [OF S, of "sem_post (t_sems e) (t_barrier obj)"] counting_semD(2) [OF S] by auto
  moreover obtain j where "sem_take (t_sems e) (t_joined obj) = Some j"
    using sem_take_pos [OF S, of "t_joined obj"] v obj by auto
  ultimately show ?thesis by (intro that)
qed

section \<open>A reference system\<close>

text \<open>Tasks are numbers; task \<open>t\<close> runs the thread whose object is at address \<open>t\<close>.\<close>

definition ref_thread_env :: "(nat, nat, nat option, unit, ref_heap) thread_env" where
  "ref_thread_env =
     \<lparr>t_plat = ref_platform, t_sems = ref_sem, t_muts = ref_mut, t_mem = ref_mem,
      task_init = (\<lambda>_ _ _ _ k. (0, k)), task_pri = (\<lambda>_ _ k. k), task_priv = Some,
      zeroed = \<lparr>t_attr = \<lparr>stack_sz = 0, status = 0\<rparr>, t_fun = None, t_fun_arg = None, t_stack = None,
        t_barrier = 0, t_joined = 0, t_mux = None, t_ret = None\<rparr>,
      sizeof_thread = 96\<rparr>"

definition ref_tworld :: "nat \<Rightarrow> (nat, nat option, unit, ref_heap) tworld" where
  "ref_tworld n = \<lparr>heap = \<lparr>blocks = [], next_addr = 7, budget = n\<rparr>, tobj = Map.empty, kern = ()\<rparr>"

lemma ref_thread_env_ok: "thread_env_ok (\<lambda>h. set (blocks h)) ref_alloc ref_free ref_thread_env"
  by (simp add: thread_env_ok_def ref_thread_env_def)

lemma ref_create:
  "\<exists>w'. pthread_create ref_thread_env None (Some 5) None None None (ref_tworld 2) =
     Returns (OK, Some 7, None, w')"
  by (simp add: pthread_create_def create_object_def start_task_defs ref_thread_env_def ref_tworld_def
      ref_alloc_def Let_def)

lemma joinable_32774: "STATUS_JOINABLE 32774"
  by (simp add: STATUS_JOINABLE_def MASK_DETACH_def)

section \<open>Properties\<close>

text \<open>
  C24: creating a thread is all or nothing. If the object cannot be allocated the call
  faults, because it clears the object before it looks at the pointer; if the stack or the
  task cannot be had it returns \<open>EAGAIN\<close> with no block more in use than before and the
  caller's variable untouched; otherwise it returns 0 and the new thread, whose object and
  stack are the only new blocks and whose object has the given function, argument and
  attributes (the default ones for null).
\<close>

theorem pthread_create_all_or_nothing:
  assumes "thread_env_ok live al fr e" and "pthread_create e attr fn arg out err w = r"
  shows "(r = Faults \<and> fst (al POSIX_THREAD (sizeof_thread e) (heap w)) = None) \<or>
    (\<exists>w'. r = Returns (Err EAGAIN, out, err, w') \<and> live (heap w') = live (heap w)) \<or>
    (\<exists>w' th st obj. r = Returns (OK, Some th, err, w') \<and>
       (POSIX_THREAD, th) \<notin> live (heap w) \<and> (POSIX_STACK, st) \<notin> live (heap w) \<and>
       live (heap w') = {(POSIX_THREAD, th), (POSIX_STACK, st)} \<union> live (heap w) \<and>
       tobj w' = (tobj w)(th \<mapsto> obj) \<and> fresh_object e st obj \<and>
       t_fun obj = fn \<and> t_fun_arg obj = arg \<and>
       t_attr obj = (case attr of None \<Rightarrow> PTHTREAD_ATTR_DEFAULT (t_plat e) | Some a \<Rightarrow> a))"
proof -
  note c = pthread_create_cases [OF assms(1), of w attr fn arg out err]
  note f = fill_object_fresh [of e _ attr fn arg]
  from c assms(2) show ?thesis
  proof (elim disjE exE conjE)
    fix w' th st
    assume "pthread_create e attr fn arg out err w = Returns (OK, Some th, err, w')"
      "(POSIX_THREAD, th) \<notin> live (heap w)" "(POSIX_STACK, st) \<notin> live (heap w)"
      "live (heap w') = {(POSIX_THREAD, th), (POSIX_STACK, st)} \<union> live (heap w)"
      "tobj w' = (tobj w)(th \<mapsto> fill_object e attr fn arg (zeroed e)\<lparr>t_stack := Some st\<rparr>)"
    with assms(2) f show ?thesis
      by (intro disjI2 exI [of _ w'] exI [of _ th] exI [of _ st]
          exI [of _ "fill_object e attr fn arg (zeroed e)\<lparr>t_stack := Some st\<rparr>"]) auto
  qed auto
qed

theorem pthread_create_all_or_nothing_witness:
  "\<exists>w' st. pthread_create ref_thread_env None (Some 5) None None None (ref_tworld 2) =
      Returns (OK, Some 7, None, w') \<and>
    set (blocks (heap w')) = {(POSIX_THREAD, 7), (POSIX_STACK, st)}"
proof -
  obtain w' where c: "pthread_create ref_thread_env None (Some 5) None None None (ref_tworld 2) =
      Returns (OK, Some 7, None, w')"
    using ref_create by blast
  with pthread_create_all_or_nothing [OF ref_thread_env_ok c] show ?thesis
    by (auto simp: ref_tworld_def)
qed

text \<open>
  C39: \<open>pthread_join\<close> does not wait. Joining a joinable thread right after \<open>pthread_create\<close>
  returns 0 although the thread has not ended, with the zero bytes of the new object as its
  return value, and releases the object and the stack; when the thread then ends, it writes
  to an object that is no longer there.
\<close>

theorem pthread_join_does_not_wait:
  assumes "thread_env_ok live al fr e"
    and "pthread_create e attr fn arg out err w = Returns (OK, Some th, err', shared s)"
    and "STATUS_JOINABLE (status (case attr of None \<Rightarrow> PTHTREAD_ATTR_DEFAULT (t_plat e) | Some a \<Rightarrow> a))"
    and "pthread_self e t \<noteq> Some th" and "pc_of s t = TIdle" and "pc_of s u = TIdle"
  shows "\<exists>s'. run_schedule (thread_program e) (join_run t th) s = s' \<and>
    returned s' = (OK, t_ret (zeroed e)) # returned s \<and> tobj (shared s') th = None \<and>
    live (heap (shared s')) = live (heap w) \<and>
    pc_of (run_schedule (thread_program e) [Call u (XRet th v), Move u] s') u = TFault"
proof -
  have laws: "mem_laws live al fr" and fr: "hcos_posix_free (t_mem e) = Some fr"
    using assms(1) by (simp_all add: thread_env_ok_def)
  let ?obj = "fill_object e attr fn arg (zeroed e)"
  from pthread_create_cases [OF assms(1), of w attr fn arg out err] assms(2)
  obtain st where
    th: "(POSIX_THREAD, th) \<notin> live (heap w)" "(POSIX_STACK, st) \<notin> live (heap w)"
      "live (heap (shared s)) = {(POSIX_THREAD, th), (POSIX_STACK, st)} \<union> live (heap w)"
      "tobj (shared s) = (tobj w)(th \<mapsto> ?obj\<lparr>t_stack := Some st\<rparr>)"
    by auto
  have fresh: "fresh_object e st (?obj\<lparr>t_stack := Some st\<rparr>)" and
    attr: "t_attr (?obj\<lparr>t_stack := Some st\<rparr>) =
      (case attr of None \<Rightarrow> PTHTREAD_ATTR_DEFAULT (t_plat e) | Some a \<Rightarrow> a)"
    using fill_object_fresh [of e st attr fn arg] by simp_all
  have j: "STATUS_JOINABLE (status (t_attr (?obj\<lparr>t_stack := Some st\<rparr>)))"
    using assms(3) unfolding attr .
  obtain m b where m: "mut_take (t_muts e) t (t_mux (?obj\<lparr>t_stack := Some st\<rparr>)) = Some m"
    and b: "sem_take (t_sems e) (t_barrier (?obj\<lparr>t_stack := Some st\<rparr>)) = Some b"
    using fresh_object_takes [OF assms(1) fresh j, of t] by metis
  have obj: "tobj (shared s) th = Some (?obj\<lparr>t_stack := Some st\<rparr>)" by (simp add: th(4))
  note run = join_run_result [OF fr obj j m assms(4) b assms(5)]
  have ret: "t_ret (?obj\<lparr>t_stack := Some st\<rparr>) = t_ret (zeroed e)"
    using fresh by (simp add: fresh_object_def)
  have "live (fr POSIX_THREAD (Some th) (fr POSIX_STACK (Some st) (heap (shared s)))) = live (heap w)"
    using th by (simp add: mem_lawsD(3) [OF laws]) blast
  then show ?thesis
    using assms(6) ret unfolding run by (simp add: thread_simps)
qed

theorem pthread_join_does_not_wait_witness:
  "\<exists>s s'. run_schedule (thread_program ref_thread_env) (join_run 3 7) s = s' \<and>
    returned s' = [(OK, None)] \<and> tobj (shared s') 7 = None \<and>
    pc_of (run_schedule (thread_program ref_thread_env) [Call 7 (XRet 7 (Some 1)), Move 7] s') 7 = TFault"
proof -
  obtain w' where c: "pthread_create ref_thread_env None (Some 5) None None None (ref_tworld 2) =
      Returns (OK, Some 7, None, w')"
    using ref_create by blast
  let ?s = "\<lparr>shared = w', pc_of = (\<lambda>_. TIdle), returned = []\<rparr>"
  have j: "STATUS_JOINABLE (status (PTHTREAD_ATTR_DEFAULT (t_plat ref_thread_env)))"
    by (rule attr_default(1)) (simp add: ref_thread_env_def priorities_ok_def)
  have "t_ret (zeroed ref_thread_env) = None" "pthread_self ref_thread_env 3 \<noteq> Some 7"
    by (simp_all add: ref_thread_env_def pthread_self_def)
  with pthread_join_does_not_wait [OF ref_thread_env_ok, of None "Some 5" None None None
      "ref_tworld 2" 7 None ?s 3 7 "Some 1"] c j
  show ?thesis
    by (intro exI [of _ ?s] exI [of _ "run_schedule (thread_program ref_thread_env) (join_run 3 7) ?s"])
      (simp del: run_schedule.simps One_nat_def)
qed

text \<open>
  Joining a thread that has ended. If a fresh joinable thread ends with \<open>v\<close> and is then
  joined by another one, the join returns 0 and \<open>v\<close>, and exactly the thread's object and
  stack are released.
\<close>

theorem pthread_join_after_exit:
  assumes "thread_env_ok live al fr e" and "tobj (shared s) th = Some obj"
    and "fresh_object e st obj" and "STATUS_JOINABLE (status (t_attr obj))"
    and "pthread_self e t \<noteq> Some th" and "pc_of s t = TIdle" and "pc_of s u = TIdle"
    and "run_schedule (thread_program e) (exit_run u th v @ join_run t th) s = s'"
  shows "returned s' = (OK, v) # (OK, None) # returned s \<and> tobj (shared s') th = None \<and>
    live (heap (shared s')) = live (heap (shared s)) - {(POSIX_THREAD, th), (POSIX_STACK, st)}"
proof -
  have laws: "mem_laws live al fr" and fr: "hcos_posix_free (t_mem e) = Some fr"
    using assms(1) by (simp_all add: thread_env_ok_def)
  obtain m j b' where m: "mut_take (t_muts e) t (t_mux obj) = Some m"
    and j: "sem_take (t_sems e) (t_joined obj) = Some j"
    and b: "sem_take (t_sems e) (sem_post (t_sems e) (t_barrier obj)) = Some b'"
    using fresh_object_takes [OF assms(1,3,4), of t] by metis
  let ?obj = "obj\<lparr>t_ret := v, t_barrier := sem_post (t_sems e) (t_barrier obj), t_joined := j\<rparr>"
  let ?s = "s\<lparr>shared := (shared s)\<lparr>tobj := (tobj (shared s))(th \<mapsto> ?obj)\<rparr>,
    returned := (OK, None) # returned s\<rparr>"
  have exit: "run_schedule (thread_program e) (exit_run u th v) s = ?s"
    using exit_run_result [OF assms(2,4) j assms(7)] .
  have "run_schedule (thread_program e) (join_run t th) ?s =
      ?s\<lparr>shared := (shared ?s)
        \<lparr>heap := fr POSIX_THREAD (Some th) (fr POSIX_STACK (t_stack ?obj) (heap (shared ?s))),
         tobj := (tobj (shared ?s))(th := None)\<rparr>, returned := (OK, t_ret ?obj) # returned ?s\<rparr>"
    by (rule join_run_result [OF fr]) (use m b assms(4-6) in simp_all)
  moreover have "t_stack obj = Some st" using assms(3) by (simp add: fresh_object_def)
  ultimately show ?thesis
    using assms(8) unfolding run_schedule_append exit
    by (auto simp: mem_lawsD(3) [OF laws])
qed

definition ref_obj :: "(nat, nat option) pthread_internal" where
  "ref_obj = \<lparr>t_attr = \<lparr>stack_sz = 1024, status = 32774\<rparr>, t_fun = Some 5, t_fun_arg = None,
     t_stack = Some 9, t_barrier = 1, t_joined = 1, t_mux = None, t_ret = None\<rparr>"

definition ref_one_thread :: "(nat, (nat, nat option, unit, ref_heap) tworld, tpc, ret \<times> addr ptr) threads" where
  "ref_one_thread =
     \<lparr>shared = (ref_tworld 2)\<lparr>heap := \<lparr>blocks = [(POSIX_STACK, 9), (POSIX_THREAD, 7)], next_addr = 10, budget = 0\<rparr>,
        tobj := [7 \<mapsto> ref_obj]\<rparr>, pc_of = (\<lambda>_. TIdle), returned = []\<rparr>"

theorem pthread_join_after_exit_witness:
  "returned (run_schedule (thread_program ref_thread_env) (exit_run 7 7 (Some 2) @ join_run 3 7) ref_one_thread) =
     [(OK, Some 2), (OK, None)] \<and>
   set (blocks (heap (shared (run_schedule (thread_program ref_thread_env)
     (exit_run 7 7 (Some 2) @ join_run 3 7) ref_one_thread)))) = {}"
proof -
  have "tobj (shared ref_one_thread) 7 = Some ref_obj" "pc_of ref_one_thread 3 = TIdle"
    "pc_of ref_one_thread 7 = TIdle" "returned ref_one_thread = []"
    "set (blocks (heap (shared ref_one_thread))) = {(POSIX_STACK, 9), (POSIX_THREAD, 7)}"
    by (simp_all add: ref_one_thread_def)
  moreover have "fresh_object ref_thread_env 9 ref_obj" "STATUS_JOINABLE (status (t_attr ref_obj))"
    "pthread_self ref_thread_env 3 \<noteq> Some 7"
    by (simp_all add: fresh_object_def ref_obj_def ref_thread_env_def joinable_32774 pthread_self_def)
  ultimately show ?thesis
    using pthread_join_after_exit [OF ref_thread_env_ok, of ref_one_thread 7 ref_obj 9 3 7 "Some 2"]
    by (simp add: insert_commute del: run_schedule.simps)
qed

text \<open>
  A thread that joins itself gets \<open>EDEADLK\<close>, but keeps the join mutex: from then on
  every join of that thread by another one is refused with \<open>EDEADLK\<close> as well, so its object
  and stack are never released.
\<close>

theorem self_join_blocks_joins:
  assumes "mutex_laws (t_muts e)" and "tobj (shared s) th = Some obj"
    and "STATUS_JOINABLE (status (t_attr obj))" and "own (t_muts e) (t_mux obj) = None"
    and "pthread_self e t = Some th" and "pc_of s t = TIdle" and "pc_of s u = TIdle" and "u \<noteq> t"
  shows "returned (run_schedule (thread_program e)
      [Call t (JTest th), Move t, Move t, Move t, Return t,
       Call u (JTest th), Move u, Move u, Return u] s) =
    (Err EDEADLK, None) # (Err EDEADLK, None) # returned s"
proof -
  obtain m where m: "mut_take (t_muts e) t (t_mux obj) = Some m"
    using mutex_lawsD(2) [OF assms(1,4)] by blast
  have "own (t_muts e) m = Some t" by (rule mutex_lawsD(3) [OF assms(1,4) m])
  then have "mut_take (t_muts e) u m = None"
    using mutex_lawsD(5) [OF assms(1)] assms(8) by metis
  with m assms(2,3,5-8) show ?thesis
    by (simp add: thread_simps pthread_equal_def)
qed

theorem self_join_blocks_joins_witness:
  "returned (run_schedule (thread_program ref_thread_env)
      [Call 7 (JTest 7), Move 7, Move 7, Move 7, Return 7,
       Call 3 (JTest 7), Move 3, Move 3, Return 3] ref_one_thread) =
    [(Err EDEADLK, None), (Err EDEADLK, None)]"
  using self_join_blocks_joins [of ref_thread_env ref_one_thread 7 ref_obj 7 3]
  by (simp add: ref_thread_env_def ref_one_thread_def ref_obj_def joinable_32774 pthread_self_def
      del: run_schedule.simps)

text \<open>
  C18: the join mutex of a thread. In every interleaving at most one task is between taking and
  giving back the mutex of a thread object that exists, and it owns the mutex; a join of a
  detached thread, or of one whose mutex another task holds, returns \<open>EDEADLK\<close> and leaves
  everything as it was. This does not extend to the rest of \<open>pthread_join\<close>: the return value is
  read and the memory released after the mutex is given back, where a second task can be at the
  same time (\<open>join_frees_twice\<close> of Thread_End).
\<close>

theorem joins_exclude_each_other:
  assumes "join_ok e" and "reachable (join_start e) (tstep (thread_program e)) s"
    and "tobj (shared s) th = Some obj"
  shows "(\<forall>t u. j_in th (pc_of s t) \<longrightarrow> j_in th (pc_of s u) \<longrightarrow> t = u) \<and>
    (\<forall>t. j_in th (pc_of s t) \<longrightarrow> own (t_muts e) (t_mux obj) = Some t) \<and>
    (\<forall>t. pc_of s t = TIdle \<longrightarrow>
       \<not> STATUS_JOINABLE (status (t_attr obj)) \<or> (\<exists>u. u \<noteq> t \<and> own (t_muts e) (t_mux obj) = Some u) \<longrightarrow>
       run_schedule (thread_program e) [Call t (JTest th), Move t, Move t, Return t] s =
         s\<lparr>returned := (Err EDEADLK, None) # returned s\<rparr>)"
proof (intro conjI allI impI)
  have inv: "join_inv e s" using assms(1,2) by (rule js.inv_reachable)
  show own: "own (t_muts e) (t_mux obj) = Some t" if "j_in th (pc_of s t)" for t
    using join_invD [OF inv assms(3) that] .
  show "t = u" if "j_in th (pc_of s t)" "j_in th (pc_of s u)" for t u
    using own [OF that(1)] own [OF that(2)] by simp
  fix t
  assume t: "pc_of s t = TIdle" and
    no: "\<not> STATUS_JOINABLE (status (t_attr obj)) \<or> (\<exists>u. u \<noteq> t \<and> own (t_muts e) (t_mux obj) = Some u)"
  have same: "(pc_of s)(t := TIdle) = pc_of s" using t by (simp add: fun_upd_idem)
  show "run_schedule (thread_program e) [Call t (JTest th), Move t, Move t, Return t] s =
      s\<lparr>returned := (Err EDEADLK, None) # returned s\<rparr>"
  proof (cases "STATUS_JOINABLE (status (t_attr obj))")
    case True
    with no obtain u where "u \<noteq> t" "own (t_muts e) (t_mux obj) = Some u" by blast
    moreover have "mutex_laws (t_muts e)" using assms(1) unfolding join_ok_def by (rule conjunct1)
    ultimately have "mut_take (t_muts e) t (t_mux obj) = None" using mutex_lawsD(5) by metis
    with True t assms(3) same show ?thesis by (simp add: thread_simps)
  next
    case False
    with t assms(3) same show ?thesis by (simp add: thread_simps)
  qed
qed

theorem joins_exclude_each_other_witness:
  "run_schedule (thread_program ref_thread_env) [Call 3 (JTest 7), Move 3, Move 3, Return 3]
     (ref_one_thread\<lparr>shared := (shared ref_one_thread)\<lparr>tobj := [7 \<mapsto> ref_obj\<lparr>t_mux := Some 4\<rparr>]\<rparr>\<rparr>) =
   ref_one_thread\<lparr>shared := (shared ref_one_thread)\<lparr>tobj := [7 \<mapsto> ref_obj\<lparr>t_mux := Some 4\<rparr>]\<rparr>,
     returned := [(Err EDEADLK, None)]\<rparr>"
proof -
  let ?s = "ref_one_thread\<lparr>shared := (shared ref_one_thread)\<lparr>tobj := [7 \<mapsto> ref_obj\<lparr>t_mux := Some 4\<rparr>]\<rparr>\<rparr>"
  have ok: "join_ok ref_thread_env" by (simp add: join_ok_def ref_thread_env_def)
  have "join_start ref_thread_env ?s" by (simp add: join_start_def ref_one_thread_def)
  then have r: "reachable (join_start ref_thread_env) (tstep (thread_program ref_thread_env)) ?s"
    by (rule reach_init)
  have "tobj (shared ?s) 7 = Some (ref_obj\<lparr>t_mux := Some 4\<rparr>)" by simp
  from joins_exclude_each_other [OF ok r this] show ?thesis
    by (simp add: ref_one_thread_def ref_thread_env_def del: run_schedule.simps)
qed

end
