(* ===== verification/Timer.thy ===== *)
theory Timer
  imports Thread
begin

text \<open>
  \<open>src/src/posix_timer.c\<close> and \<open>signal.h\<close>: timers over the kernel's, with their notifications.
  Calls run without interference; each read of the tick counter is an argument, and so is the
  tick at which the kernel starts a timer.
\<close>

definition SIGEV_NONE :: int where
  "SIGEV_NONE = 0"

definition SIGEV_SIGNAL :: int where
  "SIGEV_SIGNAL = 1"

definition SIGEV_THREAD :: int where
  "SIGEV_THREAD = 2"

text \<open>Of the union \<open>sigval\<close> the code uses the pointer only.\<close>

record sigevent =
  sigev_notify :: int
  sigev_signo :: int
  sigev_value :: "addr ptr"
  sigev_notify_function :: "addr ptr"
  sigev_notify_attributes :: "pthread_attr ptr"

record itimerspec =
  it_interval :: timespec
  it_value :: timespec

record 'o timer_internal =
  ost :: 'o
  event :: sigevent
  period :: u32

text \<open>
  The kernel's timers: \<open>tmr_on now x n\<close> starts one at tick \<open>now\<close> to fire after \<open>n\<close> ticks,
  \<open>expire\<close> is the tick at which it fires.
\<close>

record 'o tmr_ops =
  tmr_init :: 'o
  tmr_on :: "u32 \<Rightarrow> 'o \<Rightarrow> u32 \<Rightarrow> 'o"
  tmr_of :: "'o \<Rightarrow> 'o"
  tmr_active :: "'o \<Rightarrow> bool"
  expire_tick :: "'o \<Rightarrow> u32"

definition timer_laws :: "'o tmr_ops \<Rightarrow> bool" where
  "timer_laws K \<longleftrightarrow>
     \<not> tmr_active K (tmr_init K) \<and> (\<forall>x. \<not> tmr_active K (tmr_of K x)) \<and>
     (\<forall>now x n. tmr_active K (tmr_on K now x n) \<and> expire_tick K (tmr_on K now x n) = now + n)"

lemma timer_lawsD:
  assumes "timer_laws K"
  shows "\<not> tmr_active K (tmr_init K)" and "\<not> tmr_active K (tmr_of K x)"
    and "tmr_active K (tmr_on K now x n)" and "expire_tick K (tmr_on K now x n) = now + n"
  using assms unfolding timer_laws_def by blast+

text \<open>
  The threads and the memory of Thread, and the timers. \<open>notify f v\<close> is the effect of calling
  the application's function \<open>f\<close> with \<open>v\<close>; \<open>timer_zeroed\<close> and \<open>sizeof_timer\<close> are a timer of
  zero bytes and its size.
\<close>

record ('s, 'm, 'k, 'h, 'o) timer_world =
  tw :: "('s, 'm, 'k, 'h) tworld"
  timers :: "addr \<Rightarrow> 'o timer_internal option"

record ('t, 's, 'm, 'k, 'h, 'o) timer_env =
  te :: "('t, 's, 'm, 'k, 'h) thread_env"
  tmrs :: "'o tmr_ops"
  notify :: "addr \<Rightarrow> addr ptr \<Rightarrow> ('s, 'm, 'k, 'h, 'o) timer_world \<Rightarrow> ('s, 'm, 'k, 'h, 'o) timer_world"
  timer_zeroed :: "'o timer_internal"
  sizeof_timer :: u32

section \<open>Operations\<close>

definition TIMESPEC_IS_ZERO :: "timespec \<Rightarrow> bool" where
  "TIMESPEC_IS_ZERO ts \<longleftrightarrow> tv_sec ts = 0 \<and> tv_nsec ts = 0"

definition TIMESPEC_IS_NOT_ZERO :: "timespec \<Rightarrow> bool" where
  "TIMESPEC_IS_NOT_ZERO ts \<longleftrightarrow> \<not> TIMESPEC_IS_ZERO ts"

text \<open>An assertion that fails, and the use of a timer that is not there, are faults.\<close>

definition timer_do ::
    "('t, 's, 'm, 'k, 'h, 'o) timer_env \<Rightarrow> u32 \<Rightarrow> addr ptr \<Rightarrow> ('s, 'm, 'k, 'h, 'o) timer_world \<Rightarrow>
       (int \<times> ('s, 'm, 'k, 'h, 'o) timer_world) run" where
  "timer_do e now p w =
     (case p of
        None \<Rightarrow> Faults
      | Some a \<Rightarrow>
          (case timers w a of
             None \<Rightarrow> Faults
           | Some timer \<Rightarrow>
               if sigev_notify (event timer) = SIGEV_SIGNAL then Faults
               else
                 (let timer = (if period timer > 0
                               then timer\<lparr>ost := tmr_on (tmrs e) now (ost timer) (period timer)\<rparr>
                               else timer);
                      w = w\<lparr>timers := (timers w)(a \<mapsto> timer)\<rparr>;
                      ev = event timer
                  in if sigev_notify ev = SIGEV_THREAD
                     then (case sigev_notify_attributes ev of
                             None \<Rightarrow>
                               (case sigev_notify_function ev of
                                  None \<Rightarrow> Faults
                                | Some f \<Rightarrow> Returns (0, notify e f (sigev_value ev) w))
                           | Some attr \<Rightarrow>
                               run_bind
                                 (pthread_create (te e) (Some attr) (sigev_notify_function ev)
                                   (sigev_value ev) None None (tw w))
                                 (\<lambda>(_, _, _, t). Returns (0, w\<lparr>tw := t\<rparr>)))
                     else Returns (0, w))))"

definition timer_create ::
    "('t, 's, 'm, 'k, 'h, 'o) timer_env \<Rightarrow> sigevent ptr \<Rightarrow> addr ptr \<Rightarrow> errno option \<Rightarrow>
       ('s, 'm, 'k, 'h, 'o) timer_world \<Rightarrow>
       (ret \<times> addr ptr \<times> errno option \<times> ('s, 'm, 'k, 'h, 'o) timer_world) run" where
  "timer_create e evp timerid err w =
     (let (ret, err) =
        (case evp of
           None \<Rightarrow> (MinusOne, Some ENOTSUP)
         | Some ev \<Rightarrow> if sigev_notify ev = SIGEV_SIGNAL then (MinusOne, Some ENOTSUP) else (OK, err))
      in case hcos_posix_alloc (t_mem (te e)) of
           None \<Rightarrow> Returns (MinusOne, timerid, Some EAGAIN, w)
         | Some alloc \<Rightarrow>
             if ret \<noteq> OK then Returns (ret, timerid, err, w)
             else
               (case alloc POSIX_TIMER (sizeof_timer e) (heap (tw w)) of
                  (None, h) \<Rightarrow> Faults
                | (Some a, h) \<Rightarrow>
                    Returns (OK, Some a, err,
                      w\<lparr>tw := (tw w)\<lparr>heap := h\<rparr>,
                        timers := (timers w)(a \<mapsto>
                          (timer_zeroed e)\<lparr>event := the evp, period := 0, ost := tmr_init (tmrs e)\<rparr>)\<rparr>)))"

definition timer_delete ::
    "('t, 's, 'm, 'k, 'h, 'o) timer_env \<Rightarrow> addr ptr \<Rightarrow> ('s, 'm, 'k, 'h, 'o) timer_world \<Rightarrow>
       (ret \<times> ('s, 'm, 'k, 'h, 'o) timer_world) run" where
  "timer_delete e timerid w =
     (case timerid of
        None \<Rightarrow> Faults
      | Some a \<Rightarrow>
          (case timers w a of
             None \<Rightarrow> Faults
           | Some timer \<Rightarrow>
               (let w = w\<lparr>timers := (timers w)(a \<mapsto> timer\<lparr>ost := tmr_of (tmrs e) (ost timer)\<rparr>)\<rparr>
                in run_bind (posix_free (t_mem (te e)) POSIX_TIMER (Some a) (heap (tw w)))
                     (\<lambda>h. Returns (OK, w\<lparr>tw := (tw w)\<lparr>heap := h\<rparr>, timers := (timers w)(a := None)\<rparr>)))))"

definition timer_getoverrun :: "addr ptr \<Rightarrow> int" where
  "timer_getoverrun timerid = 0"

definition ticks_timespec :: "platform \<Rightarrow> u32 \<Rightarrow> timespec" where
  "ticks_timespec P n =
     \<lparr>tv_sec = swrap (time_bits P) (uint (n div tmr_hz P)),
      tv_nsec = s32 (s64 (uint (n mod tmr_hz P) * NANOSECONDS_PER_TICK P))\<rparr>"

definition timer_gettime ::
    "('t, 's, 'm, 'k, 'h, 'o) timer_env \<Rightarrow> u32 \<Rightarrow> 'o timer_internal \<Rightarrow> ret \<times> itimerspec" where
  "timer_gettime e tmr_ticks timer =
     (let next_expire = expire_tick (tmrs e) (ost timer) - tmr_ticks
      in (OK,
          \<lparr>it_interval = ticks_timespec (t_plat (te e)) (period timer),
           it_value =
             (if tmr_active (tmrs e) (ost timer) then ticks_timespec (t_plat (te e)) next_expire
              else \<lparr>tv_sec = 0, tv_nsec = 0\<rparr>)\<rparr>))"

text \<open>
  \<open>n1\<close> and \<open>n2\<close> are the readings of the tick counter by \<open>timer_gettime\<close> and \<open>clock_gettime\<close>,
  \<open>now\<close> the tick at which the kernel timer is started.
\<close>

definition timer_settime ::
    "('t, 's, 'm, 'k, 'h, 'o) timer_env \<Rightarrow> u32 \<Rightarrow> u32 \<Rightarrow> u32 \<Rightarrow> addr \<Rightarrow> int \<Rightarrow> itimerspec \<Rightarrow>
       itimerspec ptr \<Rightarrow> errno option \<Rightarrow> ('s, 'm, 'k, 'h, 'o) timer_world \<Rightarrow>
       (ret \<times> itimerspec ptr \<times> errno option \<times> ('s, 'm, 'k, 'h, 'o) timer_world) run" where
  "timer_settime e n1 n2 now timerid flags val ovalue err w =
     (case timers w timerid of
        None \<Rightarrow> Faults
      | Some timer \<Rightarrow>
          (let P = t_plat (te e);
               (ret, err) =
                 (if TIMESPEC_IS_NOT_ZERO (it_value val) \<and>
                     (\<not> validate_timespec (Some (it_interval val)) \<or>
                      \<not> validate_timespec (Some (it_value val)))
                  then (MinusOne, Some EINVAL) else (OK, err));
               ovalue = map_option (\<lambda>_. snd (timer_gettime e n1 timer)) ovalue;
               timer = (if ret = OK then timer\<lparr>ost := tmr_of (tmrs e) (ost timer)\<rparr> else timer);
               w = w\<lparr>timers := (timers w)(timerid \<mapsto> timer)\<rparr>
           in if ret = OK \<and> TIMESPEC_IS_NOT_ZERO (it_value val)
              then
                (let per = (if TIMESPEC_IS_NOT_ZERO (it_interval val)
                            then the (snd (timespec2ticks P (Some (it_interval val)) (Some 0))) else 0);
                     timer = timer\<lparr>period := per\<rparr>;
                     w = w\<lparr>timers := (timers w)(timerid \<mapsto> timer)\<rparr>;
                     (ret, next_expire) =
                       (if flags AND TIMER_ABSTIME = TIMER_ABSTIME
                        then
                          (let (ret, next_expire) =
                             (case clock_gettime P n2 CLOCK_REALTIME (Some \<lparr>tv_sec = 0, tv_nsec = 0\<rparr>) of
                                (r, cur) \<Rightarrow>
                                  if r \<noteq> OK then (Err EINVAL, Some 0)
                                  else abs_timespec2ticks P (Some (it_value val)) cur (Some 0))
                           in if ret \<noteq> OK then (if ret = Err ETIMEDOUT then OK else ret, 0)
                              else (ret, the next_expire))
                        else (ret, the (snd (timespec2ticks P (Some (it_value val)) (Some 0)))))
                 in if next_expire = 0
                    then run_bind (timer_do e now (Some timerid) w)
                      (\<lambda>(_, w). Returns (ret, ovalue, err, w))
                    else Returns (ret, ovalue, err,
                      w\<lparr>timers := (timers w)(timerid \<mapsto>
                        timer\<lparr>ost := tmr_on (tmrs e) now (ost timer) next_expire\<rparr>)\<rparr>))
              else Returns (ret, ovalue, err, w)))"

section \<open>Facts\<close>

lemma ticks_timespec_facts:
  assumes "platform_ok P" and "1 < uint (tmr_hz P)"
  shows "validate_timespec (Some (ticks_timespec P n))"
    and "0 \<le> tv_sec (ticks_timespec P n)" and "ticks_of P (ticks_timespec P n) = uint n"
proof -
  let ?h = "uint (tmr_hz P)" and ?c = "NANOSECONDS_PER_TICK P"
  have c: "1 \<le> ?c" by (rule npt_pos) fact
  have s: "0 \<le> uint n div ?h" "uint n div ?h < 2147483648"
  proof -
    show "0 \<le> uint n div ?h" using assms(2) by (simp add: pos_imp_zdiv_nonneg_iff)
    have "uint n div ?h \<le> uint n div 2" using assms(2) by (intro zdiv_mono2) auto
    then show "uint n div ?h < 2147483648" using u32_bounds(2) [of n] by linarith
  qed
  have m: "0 \<le> uint n mod ?h" "uint n mod ?h < ?h" using assms(2) by simp_all
  have "(uint n mod ?h + 1) * ?c \<le> ?h * ?c" using m c by (intro mult_right_mono) auto
  then have p: "uint n mod ?h * ?c < 1000000000" "0 \<le> uint n mod ?h * ?c"
    using npt_hz_le [OF assms(1)] c m by (simp_all add: algebra_simps)
  have t: "ticks_timespec P n = \<lparr>tv_sec = uint n div ?h, tv_nsec = uint n mod ?h * ?c\<rparr>"
    using s p fits_time32 [OF assms(1), of "uint n div ?h"]
    by (simp add: ticks_timespec_def uint_div_distrib uint_mod_distrib c_arith)
  show "validate_timespec (Some (ticks_timespec P n))" using p by (simp add: t)
  show "0 \<le> tv_sec (ticks_timespec P n)" using s by (simp add: t)
  have "ceil_div (uint n mod ?h * ?c) ?c = uint n mod ?h"
    unfolding ceil_div_def by (rule int_div_pos_eq [of _ _ _ "?c - 1"]) (use c in auto)
  then show "ticks_of P (ticks_timespec P n) = uint n"
    by (simp add: ticks_of_def t)
qed

text \<open>A time in range that is not zero takes at least one tick.\<close>

definition in_range :: "platform \<Rightarrow> timespec \<Rightarrow> bool" where
  "in_range P ts \<longleftrightarrow> validate_timespec (Some ts) \<and> 0 \<le> tv_sec ts \<and> ticks_of P ts \<le> 4294967295"

lemma in_range_ticks:
  assumes "platform_ok P" and "in_range P ts"
  shows "timespec2ticks P (Some ts) (Some r) = (OK, Some (word_of_int (ticks_of P ts)))"
    and "uint (word_of_int (ticks_of P ts) :: u32) = ticks_of P ts"
    and "TIMESPEC_IS_NOT_ZERO ts \<Longrightarrow> 0 < ticks_of P ts"
    and "TIMESPEC_IS_ZERO ts \<Longrightarrow> ticks_of P ts = 0"
proof -
  have v: "validate_timespec (Some ts)" "0 \<le> tv_sec ts" "ticks_of P ts \<le> 4294967295"
    using assms(2) by (simp_all add: in_range_def)
  have h: "1 \<le> uint (tmr_hz P)" using platform_hz(1) [OF assms(1)] by simp
  have c: "0 \<le> ceil_div (tv_nsec ts) (NANOSECONDS_PER_TICK P)"
    using ceil_div_bounds [of "tv_nsec ts"] npt_pos [OF assms(1)] v(1) by simp
  have "1 * tv_sec ts \<le> uint (tmr_hz P) * tv_sec ts" using h v(2) by (intro mult_right_mono) auto
  then have "tv_sec ts \<le> 4294967295" using v(3) c by (simp add: ticks_of_def)
  from timespec2ticks_in_range [OF assms(1) v(1,2) this, of r] v(3)
  show "timespec2ticks P (Some ts) (Some r) = (OK, Some (word_of_int (ticks_of P ts)))" by simp
  have "0 \<le> ticks_of P ts" by (rule ticks_of_nonneg) fact+
  with v(3) show "uint (word_of_int (ticks_of P ts) :: u32) = ticks_of P ts"
    by (intro uint_u32_of_int) simp_all
  show "0 < ticks_of P ts" if "TIMESPEC_IS_NOT_ZERO ts"
  proof -
    have "0 < nanos ts" using that v(1,2) by (auto simp: TIMESPEC_IS_NOT_ZERO_def TIMESPEC_IS_ZERO_def nanos_def)
    then have "0 < nanos ts * uint (tmr_hz P)" using h by simp
    then show ?thesis using ticks_of_covers [OF assms(1) v(1)] by simp
  qed
  show "ticks_of P ts = 0" if "TIMESPEC_IS_ZERO ts"
    using that npt_pos [OF assms(1)] by (simp add: TIMESPEC_IS_ZERO_def ticks_of_def ceil_div_def)
qed

text \<open>The timer after \<open>timer_settime\<close> has stopped it and set its period.\<close>

definition stopped ::
    "('t, 's, 'm, 'k, 'h, 'o) timer_env \<Rightarrow> itimerspec \<Rightarrow> 'o timer_internal \<Rightarrow> 'o timer_internal" where
  "stopped e val timer =
     timer\<lparr>ost := tmr_of (tmrs e) (ost timer),
       period := word_of_int (ticks_of (t_plat (te e)) (it_interval val))\<rparr>"

lemma settime_period:
  assumes "platform_ok P" and "in_range P ts"
  shows "(if TIMESPEC_IS_NOT_ZERO ts then the (snd (timespec2ticks P (Some ts) (Some 0))) else 0) =
    word_of_int (ticks_of P ts)"
  using in_range_ticks [OF assms] by (auto simp: TIMESPEC_IS_NOT_ZERO_def)

lemma settime_relative:
  assumes "platform_ok (t_plat (te e))" and "timers w a = Some timer"
    and "flags AND TIMER_ABSTIME \<noteq> TIMER_ABSTIME" and "TIMESPEC_IS_NOT_ZERO (it_value val)"
    and "in_range (t_plat (te e)) (it_value val)" and "in_range (t_plat (te e)) (it_interval val)"
  shows "timer_settime e n1 n2 now a flags val ov err w =
    Returns (OK, map_option (\<lambda>_. snd (timer_gettime e n1 timer)) ov, err,
      w\<lparr>timers := (timers w)(a \<mapsto>
        (stopped e val timer)\<lparr>ost := tmr_on (tmrs e) now (tmr_of (tmrs e) (ost timer))
          (word_of_int (ticks_of (t_plat (te e)) (it_value val)))\<rparr>)\<rparr>)"
proof -
  let ?P = "t_plat (te e)"
  have v: "validate_timespec (Some (it_value val))" "validate_timespec (Some (it_interval val))"
    using assms(5,6) by (simp_all add: in_range_def)
  note t = in_range_ticks [OF assms(1,5)]
  have "(word_of_int (ticks_of ?P (it_value val)) :: u32) \<noteq> 0"
    using t(2) t(3) [OF assms(4)] by (simp add: u32_eq_0_iff)
  with assms(2-4) v t(1) settime_period [OF assms(1,6)] show ?thesis
    by (simp add: timer_settime_def Let_def stopped_def)
qed

lemma settime_absolute:
  assumes "timers w a = Some timer" and "platform_ok (t_plat (te e))"
    and "flags AND TIMER_ABSTIME = TIMER_ABSTIME" and "TIMESPEC_IS_NOT_ZERO (it_value val)"
    and "validate_timespec (Some (it_value val))" and "in_range (t_plat (te e)) (it_interval val)"
    and "deadline_ticks (t_plat (te e)) (it_value val) (clock_time (t_plat (te e)) n2) 0 = (r, k)"
  shows "timer_settime e n1 n2 now a flags val ov err w =
    (if r = OK \<and> k \<noteq> 0
     then Returns (OK, map_option (\<lambda>_. snd (timer_gettime e n1 timer)) ov, err,
       w\<lparr>timers := (timers w)(a \<mapsto>
         (stopped e val timer)\<lparr>ost := tmr_on (tmrs e) now (tmr_of (tmrs e) (ost timer)) k\<rparr>)\<rparr>)
     else run_bind (timer_do e now (Some a) (w\<lparr>timers := (timers w)(a \<mapsto> stopped e val timer)\<rparr>))
       (\<lambda>(_, w). Returns (if r = Err ETIMEDOUT then OK else r,
         map_option (\<lambda>_. snd (timer_gettime e n1 timer)) ov, err, w)))"
proof -
  have v: "validate_timespec (Some (it_interval val))" using assms(6) by (simp add: in_range_def)
  show ?thesis
    using assms(1,3-5,7) v settime_period [OF assms(2,6)]
    by (auto simp: timer_settime_def Let_def stopped_def)
qed

section \<open>Expiries\<close>

text \<open>
  A timer that calls the function \<open>f\<close>, which does not touch the timer; \<open>calls\<close> counts the calls.
\<close>

definition calls_function ::
    "('t, 's, 'm, 'k, 'h, 'o) timer_env \<Rightarrow> addr \<Rightarrow> (('s, 'm, 'k, 'h) tworld \<Rightarrow> nat) \<Rightarrow> sigevent \<Rightarrow> bool" where
  "calls_function e a calls ev \<longleftrightarrow> sigev_notify ev = SIGEV_THREAD \<and> sigev_notify_attributes ev = None \<and>
     (\<exists>f. sigev_notify_function ev = Some f \<and>
       (\<forall>w. timers (notify e f (sigev_value ev) w) a = timers w a \<and>
         calls (tw (notify e f (sigev_value ev) w)) = Suc (calls (tw w))))"

lemma one_expiry:
  assumes "timer_laws (tmrs e)" and "timers w a = Some timer" and "calls_function e a calls (event timer)"
    and "0 < period timer"
  obtains w' timer' where "timer_do e now (Some a) w = Returns (0, w')" and "timers w' a = Some timer'"
    and "event timer' = event timer" and "period timer' = period timer"
    and "tmr_active (tmrs e) (ost timer')" and "expire_tick (tmrs e) (ost timer') = now + period timer"
    and "calls (tw w') = Suc (calls (tw w))"
proof -
  obtain f where f: "sigev_notify (event timer) = SIGEV_THREAD" "sigev_notify_attributes (event timer) = None"
    "sigev_notify_function (event timer) = Some f"
    "\<And>w. timers (notify e f (sigev_value (event timer)) w) a = timers w a \<and>
      calls (tw (notify e f (sigev_value (event timer)) w)) = Suc (calls (tw w))"
    using assms(3) by (auto simp: calls_function_def)
  let ?timer = "timer\<lparr>ost := tmr_on (tmrs e) now (ost timer) (period timer)\<rparr>"
  let ?w = "notify e f (sigev_value (event timer)) (w\<lparr>timers := (timers w)(a \<mapsto> ?timer)\<rparr>)"
  have "timer_do e now (Some a) w = Returns (0, ?w)"
    using assms(2,4) f(1-3) by (simp add: timer_do_def SIGEV_THREAD_def SIGEV_SIGNAL_def)
  moreover have "timers ?w a = Some ?timer" "calls (tw ?w) = Suc (calls (tw w))" using f(4) by simp_all
  ultimately show thesis
    using that [of ?w ?timer] timer_lawsD(3,4) [OF assms(1)] by simp
qed

section \<open>A reference system\<close>

definition ref_tmr :: "(bool \<times> u32) tmr_ops" where
  "ref_tmr = \<lparr>tmr_init = (False, 0), tmr_on = (\<lambda>now x n. (True, now + n)),
     tmr_of = (\<lambda>x. (False, snd x)), tmr_active = fst, expire_tick = snd\<rparr>"

lemma ref_tmr_laws [simp]: "timer_laws ref_tmr"
  by (simp add: timer_laws_def ref_tmr_def)

lemma ref_tmr_sel [simp]:
  "tmr_active ref_tmr x = fst x" "expire_tick ref_tmr x = snd x" "tmr_init ref_tmr = (False, 0)"
  "tmr_of ref_tmr x = (False, snd x)" "tmr_on ref_tmr now x n = (True, now + n)"
  by (simp_all add: ref_tmr_def)

text \<open>The notification function of the reference application releases nothing and counts its calls.\<close>

definition ref_timer_env :: "(nat, nat, nat option, unit, ref_heap, bool \<times> u32) timer_env" where
  "ref_timer_env =
     \<lparr>te = ref_thread_env, tmrs = ref_tmr,
      notify = (\<lambda>f v w. w\<lparr>tw := (tw w)\<lparr>heap := (heap (tw w))\<lparr>budget := Suc (budget (heap (tw w)))\<rparr>\<rparr>\<rparr>),
      timer_zeroed = \<lparr>ost = (False, 0), event = \<lparr>sigev_notify = 0, sigev_signo = 0, sigev_value = None,
        sigev_notify_function = None, sigev_notify_attributes = None\<rparr>, period = 0\<rparr>,
      sizeof_timer = 40\<rparr>"

definition ref_timer :: "(bool \<times> u32) timer_internal" where
  "ref_timer = \<lparr>ost = (True, 90), event = \<lparr>sigev_notify = SIGEV_THREAD, sigev_signo = 0, sigev_value = None,
     sigev_notify_function = Some 4, sigev_notify_attributes = None\<rparr>, period = 250\<rparr>"

definition ref_timer_world :: "nat \<Rightarrow> (nat, nat option, unit, ref_heap, bool \<times> u32) timer_world" where
  "ref_timer_world n = \<lparr>tw = ref_tworld n, timers = [3 \<mapsto> ref_timer]\<rparr>"

lemma ref_timer_env_sel [simp]:
  "te ref_timer_env = ref_thread_env" "tmrs ref_timer_env = ref_tmr"
  "t_plat ref_thread_env = ref_platform" "t_mem ref_thread_env = ref_mem"
  by (simp_all add: ref_timer_env_def ref_thread_env_def)

lemma in_range_ref:
  "0 \<le> s \<Longrightarrow> s \<le> 4000000 \<Longrightarrow> in_range ref_platform \<lparr>tv_sec = s, tv_nsec = 0\<rparr>"
  by (simp add: in_range_def ticks_of_def ceil_div_def NANOSECONDS_PER_TICK_def NANOSECONDS_PER_SECOND_def
      sdiv_nonneg)

section \<open>Properties\<close>

text \<open>
  C26: Arming a timer. With a non-zero valid relative time whose ticks fit 32 bits, and an
  interval in the same range, the timer fires after exactly that many ticks, which cover the
  time, and is periodic with the interval's ticks (not at all when the interval is 0);
  \<open>timer_gettime\<close> at any tick then reports a valid remaining time and interval that convert
  back to the remaining ticks and the period.
\<close>

theorem timer_settime_gettime:
  assumes "platform_ok (t_plat (te e))" and "1 < uint (tmr_hz (t_plat (te e)))" and "timer_laws (tmrs e)"
    and "timers w a = Some timer"
    and "flags AND TIMER_ABSTIME \<noteq> TIMER_ABSTIME" and "TIMESPEC_IS_NOT_ZERO (it_value val)"
    and "in_range (t_plat (te e)) (it_value val)" and "in_range (t_plat (te e)) (it_interval val)"
  shows "\<exists>timer' k.
    timer_settime e n1 n2 now a flags val None err w =
      Returns (OK, None, err, w\<lparr>timers := (timers w)(a \<mapsto> timer')\<rparr>) \<and>
    uint k = ticks_of (t_plat (te e)) (it_value val) \<and>
    nanos (it_value val) * uint (tmr_hz (t_plat (te e))) \<le> uint k * 1000000000 \<and>
    event timer' = event timer \<and>
    tmr_active (tmrs e) (ost timer') \<and> expire_tick (tmrs e) (ost timer') = now + k \<and>
    uint (period timer') = ticks_of (t_plat (te e)) (it_interval val) \<and>
    (case timer_gettime e n timer' of
       (r, v) \<Rightarrow> r = OK \<and> validate_timespec (Some (it_value v)) \<and> validate_timespec (Some (it_interval v)) \<and>
         ticks_of (t_plat (te e)) (it_value v) = uint (now + k - n) \<and>
         ticks_of (t_plat (te e)) (it_interval v) = ticks_of (t_plat (te e)) (it_interval val))"
proof -
  let ?P = "t_plat (te e)"
  let ?k = "word_of_int (ticks_of ?P (it_value val)) :: u32"
  let ?t = "(stopped e val timer)\<lparr>ost := tmr_on (tmrs e) now (tmr_of (tmrs e) (ost timer)) ?k\<rparr>"
  note k = in_range_ticks(2) [OF assms(1,7)] in_range_ticks(2) [OF assms(1,8)]
  have cover: "nanos (it_value val) * uint (tmr_hz ?P) \<le> uint ?k * 1000000000"
    using ticks_of_covers [OF assms(1)] assms(7) by (simp add: in_range_def k)
  note f = ticks_timespec_facts [OF assms(1,2)]
  have "timer_settime e n1 n2 now a flags val None err w =
      Returns (OK, None, err, w\<lparr>timers := (timers w)(a \<mapsto> ?t)\<rparr>)"
    using settime_relative [OF assms(1,4-8), of n1 n2 now None err] by simp
  with cover f k timer_lawsD(3,4) [OF assms(3)] show ?thesis
    by (intro exI [of _ ?t] exI [of _ ?k]) (simp add: stopped_def timer_gettime_def Let_def)
qed

theorem timer_settime_gettime_witness:
  "\<exists>timer'. timer_settime ref_timer_env 0 0 100 3 0
      \<lparr>it_interval = \<lparr>tv_sec = 0, tv_nsec = 0\<rparr>, it_value = \<lparr>tv_sec = 2, tv_nsec = 0\<rparr>\<rparr> None None
      (ref_timer_world 0) =
    Returns (OK, None, None, (ref_timer_world 0)\<lparr>timers := (timers (ref_timer_world 0))(3 \<mapsto> timer')\<rparr>) \<and>
    tmr_active ref_tmr (ost timer')"
proof -
  have "timers (ref_timer_world 0) 3 = Some ref_timer" by (simp add: ref_timer_world_def)
  from timer_settime_gettime [of ref_timer_env "ref_timer_world 0" 3 ref_timer 0
      "\<lparr>it_interval = \<lparr>tv_sec = 0, tv_nsec = 0\<rparr>, it_value = \<lparr>tv_sec = 2, tv_nsec = 0\<rparr>\<rparr>" 0 0 100 None 0]
    this in_range_ref [of 2] in_range_ref [of 0]
  show ?thesis
    by (simp add: TIMER_ABSTIME_def TIMESPEC_IS_NOT_ZERO_def TIMESPEC_IS_ZERO_def) blast
qed

text \<open>
  C22: an absolute deadline, valid and at most $2^{32} - 1$ seconds ahead, with an interval whose
  ticks fit 32 bits. If the deadline has been reached the notification is given at once and the
  call returns 0. If it lies ahead and the ticks \<open>T\<close> of the time left are at most \<open>UINT_MAX\<close> the
  timer is started with \<open>T\<close>, which is not 0, reaches the deadline and exceeds it by less than a
  tick; the notification is not given yet. If they are more, the call returns \<open>EINVAL\<close>, but gives
  the notification at once all the same.
\<close>

theorem timer_settime_deadline:
  assumes "platform_ok (t_plat (te e))" and "timers w a = Some timer"
    and "flags AND TIMER_ABSTIME = TIMER_ABSTIME" and "TIMESPEC_IS_NOT_ZERO (it_value val)"
    and "now_time = clock_time (t_plat (te e)) n2" and "near (t_plat (te e)) (it_value val) now_time"
    and "in_range (t_plat (te e)) (it_interval val)"
    and "T = span_ticks (t_plat (te e)) (nanos (it_value val) - nanos now_time)"
    and "fire = (\<lambda>r. run_bind (timer_do e now (Some a) (w\<lparr>timers := (timers w)(a \<mapsto> stopped e val timer)\<rparr>))
      (\<lambda>(_, w). Returns (r, None, err, w)))"
  shows "timer_settime e n1 n2 now a flags val None err w =
      (if it_value val \<le> now_time then fire OK
       else if T \<le> 4294967295
       then Returns (OK, None, err, w\<lparr>timers := (timers w)(a \<mapsto>
          (stopped e val timer)\<lparr>ost := tmr_on (tmrs e) now (tmr_of (tmrs e) (ost timer)) (word_of_int T)\<rparr>)\<rparr>)
       else fire (Err EINVAL)) \<and>
    (now_time < it_value val \<and> T \<le> 4294967295 \<longrightarrow> uint (word_of_int T :: u32) = T \<and> 0 < T \<and>
       nanos (it_value val) * uint (tmr_hz (t_plat (te e))) \<le>
         nanos now_time * uint (tmr_hz (t_plat (te e))) + T * 1000000000 \<and>
       nanos now_time + (T - 1) * NANOSECONDS_PER_TICK (t_plat (te e)) < nanos (it_value val))"
proof -
  let ?P = "t_plat (te e)" and ?a = "it_value val"
  obtain r k where rk: "deadline_ticks ?P ?a now_time 0 = (r, k)" by force
  have v: "validate_timespec (Some ?a)" using assms(6) by (simp add: near_def)
  note res = settime_absolute [OF assms(2,1,3,4) v assms(7) rk [unfolded assms(5)], of n1 now None err]
  show ?thesis
  proof (cases "?a \<le> now_time")
    case True
    with dl.conv_reached [OF assms(1,6) True, of 0] res rk assms(9) show ?thesis
      by (auto split: if_splits)
  next
    case False
    then have less: "now_time < ?a" and le: "now_time \<le> ?a" by simp_all
    note D = dl.span_ok [OF assms(6) le]
    have pos: "0 < T" using dl.conv_ahead_pos [OF assms(1,6) less] by (simp add: assms(8))
    have "T \<le> 4294967295 \<Longrightarrow> uint (word_of_int T :: u32) = T"
      using dl.ticks_fit [OF assms(1) D] by (simp add: assms(8))
    with pos have nz: "T \<le> 4294967295 \<Longrightarrow> (word_of_int T :: u32) \<noteq> 0" by (simp add: u32_eq_0_iff)
    have "r = (if T \<le> 4294967295 then OK else Err EINVAL)" "k = word_of_int T"
      using dl.ahead [OF assms(1,6) le, of 0] rk by (simp_all add: assms(8))
    then have "timer_settime e n1 n2 now a flags val None err w =
      (if T \<le> 4294967295
       then Returns (OK, None, err, w\<lparr>timers := (timers w)(a \<mapsto>
          (stopped e val timer)\<lparr>ost := tmr_on (tmrs e) now (tmr_of (tmrs e) (ost timer)) (word_of_int T)\<rparr>)\<rparr>)
       else fire (Err EINVAL))"
      using res nz assms(9) by simp
    with False pos dl.ticks_fit [OF assms(1) D] dl.reaches [OF assms(1), of ?a now_time]
      span_nominal [OF assms(1) D]
    show ?thesis by (simp add: assms(8))
  qed
qed

theorem timer_settime_deadline_witness:
  "timer_settime ref_timer_env 0 5000 100 3 1
      \<lparr>it_interval = \<lparr>tv_sec = 0, tv_nsec = 0\<rparr>, it_value = \<lparr>tv_sec = 7, tv_nsec = 0\<rparr>\<rparr> None None
      (ref_timer_world 0) =
    Returns (OK, None, None, (ref_timer_world 0)\<lparr>timers := (timers (ref_timer_world 0))(3 \<mapsto>
      (stopped ref_timer_env \<lparr>it_interval = \<lparr>tv_sec = 0, tv_nsec = 0\<rparr>, it_value = \<lparr>tv_sec = 7, tv_nsec = 0\<rparr>\<rparr> ref_timer)
        \<lparr>ost := (True, 2100)\<rparr>)\<rparr>)"
proof -
  have w: "timers (ref_timer_world 0) 3 = Some ref_timer" by (simp add: ref_timer_world_def)
  have now: "\<lparr>tv_sec = 5, tv_nsec = 0\<rparr> = clock_time (t_plat (te ref_timer_env)) 5000"
    by (simp only: ref_timer_env_sel) code_simp
  have T: "2000 = span_ticks (t_plat (te ref_timer_env)) (nanos \<lparr>tv_sec = 7, tv_nsec = 0\<rparr> - nanos \<lparr>tv_sec = 5, tv_nsec = 0\<rparr>)"
    by (simp only: ref_timer_env_sel) code_simp
  have near: "near ref_platform \<lparr>tv_sec = 7, tv_nsec = 0\<rparr> \<lparr>tv_sec = 5, tv_nsec = 0\<rparr>"
    by (simp add: near_def fits_def)
  show ?thesis
    using timer_settime_deadline [OF _ w _ _ now _ _ _ refl, where ?n1.0 = 0 and now = 100 and T = 2000
        and flags = 1 and err = None
        and val = "\<lparr>it_interval = \<lparr>tv_sec = 0, tv_nsec = 0\<rparr>, it_value = \<lparr>tv_sec = 7, tv_nsec = 0\<rparr>\<rparr>"]
      T near in_range_ref [of 0]
    by (simp add: TIMER_ABSTIME_def TIMESPEC_IS_NOT_ZERO_def TIMESPEC_IS_ZERO_def timespec_le_iff)
qed

text \<open>
  An expiry. When a timer whose notification is by thread fires, it is restarted with its
  period if it has one and left alone otherwise, and the notification is given once: the
  function is called with the value, or a thread is created to call it; with \<open>SIGEV_NONE\<close>
  nothing else happens.
\<close>

theorem timer_do_notifies_once:
  assumes "timer_laws (tmrs e)" and "timers w a = Some timer" and "sigev_notify (event timer) \<noteq> SIGEV_SIGNAL"
    and "w' = w\<lparr>timers := (timers w)(a \<mapsto>
      (if period timer = 0 then timer
       else timer\<lparr>ost := tmr_on (tmrs e) now (ost timer) (period timer)\<rparr>))\<rparr>"
  shows "timer_do e now (Some a) w =
      (if sigev_notify (event timer) \<noteq> SIGEV_THREAD then Returns (0, w')
       else
         (case sigev_notify_attributes (event timer) of
            None \<Rightarrow>
              (case sigev_notify_function (event timer) of
                 None \<Rightarrow> Faults
               | Some f \<Rightarrow> Returns (0, notify e f (sigev_value (event timer)) w'))
          | Some attr \<Rightarrow>
              run_bind (pthread_create (te e) (Some attr) (sigev_notify_function (event timer))
                  (sigev_value (event timer)) None None (tw w))
                (\<lambda>(_, _, _, t). Returns (0, w'\<lparr>tw := t\<rparr>)))) \<and>
    (\<exists>timer'. timers w' a = Some timer' \<and> event timer' = event timer \<and>
       (if period timer = 0 then timer' = timer
        else tmr_active (tmrs e) (ost timer') \<and> expire_tick (tmrs e) (ost timer') = now + period timer))"
proof -
  have p: "(0 < period timer) = (period timer \<noteq> 0)" by (simp add: word_gt_0)
  show ?thesis
    using assms(2-4) timer_lawsD(3,4) [OF assms(1)]
    by (auto simp: timer_do_def Let_def p split: option.splits)
qed

theorem timer_do_notifies_once_witness:
  "\<exists>w. timer_do ref_timer_env 90 (Some 3) (ref_timer_world 0) = Returns (0, notify ref_timer_env 4 None w) \<and>
    timers w 3 = Some (ref_timer\<lparr>ost := (True, 340)\<rparr>)"
proof -
  have "timers (ref_timer_world 0) 3 = Some ref_timer" by (simp add: ref_timer_world_def)
  from timer_do_notifies_once [of ref_timer_env "ref_timer_world 0" 3 ref_timer _ 90, OF _ this _ refl]
  show ?thesis
    by (intro exI [of _ "(ref_timer_world 0)\<lparr>timers := (timers (ref_timer_world 0))(3 \<mapsto>
        ref_timer\<lparr>ost := (True, 340)\<rparr>)\<rparr>"])
      (simp add: ref_timer_def SIGEV_THREAD_def SIGEV_SIGNAL_def)
qed

text \<open>
  Disarming and refusing. A zero value stops the timer and does nothing else, whatever
  the interval; a non-zero value with an invalid part is refused with -1 and \<open>EINVAL\<close> and
  leaves the timer running as it was. Both report the old setting when asked for it.
\<close>

theorem timer_settime_disarm_or_refuse:
  assumes "timer_laws (tmrs e)" and "timers w a = Some timer"
    and "ov' = map_option (\<lambda>_. snd (timer_gettime e n1 timer)) ov"
  shows "(TIMESPEC_IS_ZERO (it_value val) \<longrightarrow>
      (\<exists>x. timer_settime e n1 n2 now a flags val ov err w =
          Returns (OK, ov', err, w\<lparr>timers := (timers w)(a \<mapsto> timer\<lparr>ost := x\<rparr>)\<rparr>) \<and>
        \<not> tmr_active (tmrs e) x)) \<and>
    (TIMESPEC_IS_NOT_ZERO (it_value val) \<and>
       (\<not> validate_timespec (Some (it_value val)) \<or> \<not> validate_timespec (Some (it_interval val))) \<longrightarrow>
      timer_settime e n1 n2 now a flags val ov err w = Returns (MinusOne, ov', Some EINVAL, w))"
proof -
  have "w\<lparr>timers := (timers w)(a \<mapsto> timer)\<rparr> = w"
    using assms(2) by (simp add: fun_upd_idem)
  with assms timer_lawsD(2) [OF assms(1)] show ?thesis
    by (auto simp: timer_settime_def Let_def TIMESPEC_IS_NOT_ZERO_def intro!: exI [of _ "tmr_of (tmrs e) (ost timer)"])
qed

theorem timer_settime_disarm_or_refuse_witness:
  "timer_settime ref_timer_env 0 0 0 3 0
      \<lparr>it_interval = \<lparr>tv_sec = 0, tv_nsec = - 1\<rparr>, it_value = \<lparr>tv_sec = 2, tv_nsec = 0\<rparr>\<rparr> None None
      (ref_timer_world 0) = Returns (MinusOne, None, Some EINVAL, ref_timer_world 0)"
proof -
  have "timers (ref_timer_world 0) 3 = Some ref_timer" by (simp add: ref_timer_world_def)
  with timer_settime_disarm_or_refuse [of ref_timer_env "ref_timer_world 0" 3 ref_timer None 0 None
      "\<lparr>it_interval = \<lparr>tv_sec = 0, tv_nsec = - 1\<rparr>, it_value = \<lparr>tv_sec = 2, tv_nsec = 0\<rparr>\<rparr>" 0 0 0 None]
  show ?thesis by (simp add: TIMESPEC_IS_NOT_ZERO_def TIMESPEC_IS_ZERO_def)
qed

text \<open>
  C27: Creating and deleting a timer. Without an event, or with a signal as notification, the
  call returns -1 with \<open>ENOTSUP\<close> and does nothing; if the allocator has no memory it faults
  (it clears the timer before it looks at the pointer); otherwise it returns 0 and a stopped
  timer with the given event, which is the only new block, and deleting that timer restores
  the blocks in use.
\<close>

theorem timer_create_delete:
  assumes "mem_laws live al fr" and "hcos_posix_alloc (t_mem (te e)) = Some al"
    and "hcos_posix_free (t_mem (te e)) = Some fr" and "timer_laws (tmrs e)"
  shows "(case evp of
      None \<Rightarrow> timer_create e evp out err w = Returns (MinusOne, out, Some ENOTSUP, w)
    | Some ev \<Rightarrow>
        if sigev_notify ev = SIGEV_SIGNAL
        then timer_create e evp out err w = Returns (MinusOne, out, Some ENOTSUP, w)
        else if fst (al POSIX_TIMER (sizeof_timer e) (heap (tw w))) = None
        then timer_create e evp out err w = Faults
        else
          (\<exists>a w' timer. timer_create e evp out err w = Returns (OK, Some a, err, w') \<and>
             timers w' = (timers w)(a \<mapsto> timer) \<and> event timer = ev \<and> period timer = 0 \<and>
             \<not> tmr_active (tmrs e) (ost timer) \<and>
             (POSIX_TIMER, a) \<notin> live (heap (tw w)) \<and>
             live (heap (tw w')) = insert (POSIX_TIMER, a) (live (heap (tw w))) \<and>
             (\<exists>w''. timer_delete e (Some a) w' = Returns (OK, w'') \<and> timers w'' a = None \<and>
                live (heap (tw w'')) = live (heap (tw w)))))"
proof (cases "\<exists>ev. evp = Some ev \<and> sigev_notify ev \<noteq> SIGEV_SIGNAL")
  case False
  with assms(2) show ?thesis
    by (cases evp) (auto simp: timer_create_def)
next
  case True
  then obtain ev where ev: "evp = Some ev" "sigev_notify ev \<noteq> SIGEV_SIGNAL" by blast
  obtain p h where ph: "al POSIX_TIMER (sizeof_timer e) (heap (tw w)) = (p, h)" by force
  show ?thesis
  proof (cases p)
    case None
    with ev ph assms(2) show ?thesis by (simp add: timer_create_def)
  next
    case (Some a)
    with ph mem_lawsD(1) [OF assms(1)] have
      a: "(POSIX_TIMER, a) \<notin> live (heap (tw w))" "live h = insert (POSIX_TIMER, a) (live (heap (tw w)))"
      by simp_all
    with Some ev ph assms(2,3) mem_lawsD(3) [OF assms(1)] timer_lawsD(1) [OF assms(4)]
    show ?thesis
      by (simp add: timer_create_def timer_delete_def posix_free_def Let_def)
        (rule exI [of _ "(timer_zeroed e)\<lparr>event := ev, period := 0, ost := tmr_init (tmrs e)\<rparr>"], simp)
  qed
qed

theorem timer_create_delete_witness:
  "\<exists>a w' w''. timer_create ref_timer_env (Some (event ref_timer)) None None (ref_timer_world 2) =
      Returns (OK, Some a, None, w') \<and>
    timer_delete ref_timer_env (Some a) w' = Returns (OK, w'') \<and> set (blocks (heap (tw w''))) = {}"
proof -
  have "fst (ref_alloc POSIX_TIMER (sizeof_timer ref_timer_env) (heap (tw (ref_timer_world 2)))) \<noteq> None"
    "sigev_notify (event ref_timer) \<noteq> SIGEV_SIGNAL" "set (blocks (heap (tw (ref_timer_world 2)))) = {}"
    by (simp_all add: ref_alloc_def ref_timer_world_def ref_tworld_def ref_timer_def SIGEV_SIGNAL_def SIGEV_THREAD_def)
  with timer_create_delete [of "\<lambda>h. set (blocks h)" ref_alloc ref_free ref_timer_env "Some (event ref_timer)" None None
      "ref_timer_world 2"]
  show ?thesis by (simp del: not_None_eq) blast
qed

end
