(* ===== verification/Timer_Spec.thy ===== *)
theory Timer_Spec
  imports Timer
begin

text \<open>
  \<open>src/src/posix_timer.c\<close> against a specification: a timer that calls a function of the
  application is an alarm, which holds the tick at which it is due, its interval in ticks, and
  how often it has rung.
\<close>

section \<open>The calls\<close>

text \<open>
  \<open>SetTimer\<close> and \<open>GetTimer\<close> are the application's calls, with the ticks they read;
  \<open>RunOut l\<close> is the kernel's call of \<open>timer_do\<close> when an active timer has run out, \<open>l\<close> ticks after
  the tick at which it was due; nothing is assumed of this latency.
\<close>

datatype timer_call =
    SetTimer u32 u32 u32 int itimerspec "itimerspec ptr"
  | GetTimer u32
  | RunOut u32

datatype timer_reply =
    TimerSet ret "itimerspec ptr" "errno option"
  | TimerGot itimerspec
  | TimerFired u32
  | TimerQuiet

text \<open>
  The timer at one address; \<open>fired\<close> is the kernel's timer after it has run out, which is no
  longer active, and \<open>rings\<close> counts the calls of the notification function.
\<close>

record ('t, 's, 'm, 'k, 'h, 'o) timer_sys =
  t_env :: "('t, 's, 'm, 'k, 'h, 'o) timer_env"
  t_addr :: addr
  t_event :: sigevent
  fired :: "'o \<Rightarrow> 'o"
  rings :: "('s, 'm, 'k, 'h) tworld \<Rightarrow> nat"

fun timer_exec ::
    "('t, 's, 'm, 'k, 'h, 'o) timer_sys \<Rightarrow> timer_call \<Rightarrow> ('s, 'm, 'k, 'h, 'o) timer_world \<Rightarrow>
       (timer_reply \<times> ('s, 'm, 'k, 'h, 'o) timer_world) run" where
  "timer_exec y (SetTimer n1 n2 now flags val ov) w =
     run_bind (timer_settime (t_env y) n1 n2 now (t_addr y) flags val ov None w)
       (\<lambda>(r, ov, err, w). Returns (TimerSet r ov err, w))"
| "timer_exec y (GetTimer n) w =
     (case timers w (t_addr y) of
        None \<Rightarrow> Faults
      | Some timer \<Rightarrow> Returns (TimerGot (snd (timer_gettime (t_env y) n timer)), w))"
| "timer_exec y (RunOut l) w =
     (case timers w (t_addr y) of
        None \<Rightarrow> Faults
      | Some timer \<Rightarrow>
          if \<not> tmr_active (tmrs (t_env y)) (ost timer) then Returns (TimerQuiet, w)
          else
            (let now = expire_tick (tmrs (t_env y)) (ost timer) + l;
                 w = w\<lparr>timers := (timers w)(t_addr y \<mapsto> timer\<lparr>ost := fired y (ost timer)\<rparr>)\<rparr>
             in run_bind (timer_do (t_env y) now (Some (t_addr y)) w)
                  (\<lambda>(_, w). Returns (TimerFired now, w))))"

section \<open>The specification\<close>

record alarm =
  due :: "u32 option"
  every :: u32
  rung :: nat

definition ring :: "u32 \<Rightarrow> alarm \<Rightarrow> alarm" where
  "ring now s = s\<lparr>due := (if 0 < every s then Some (now + every s) else None), rung := Suc (rung s)\<rparr>"

definition reading :: "platform \<Rightarrow> u32 \<Rightarrow> alarm \<Rightarrow> itimerspec" where
  "reading P n s =
     \<lparr>it_interval = ticks_timespec P (every s),
      it_value = (case due s of None \<Rightarrow> \<lparr>tv_sec = 0, tv_nsec = 0\<rparr> | Some d \<Rightarrow> ticks_timespec P (d - n))\<rparr>"

text \<open>
  The ticks that a time set lies ahead: those of a relative time, those of the time left to an
  absolute one, and none if that has been reached.
\<close>

fun delay :: "platform \<Rightarrow> u32 \<Rightarrow> int \<Rightarrow> timespec \<Rightarrow> int option" where
  "delay P n2 flags ts =
     (if flags AND TIMER_ABSTIME \<noteq> TIMER_ABSTIME then Some (span_ticks P (nanos ts))
      else if ts \<le> clock_time P n2 then None
      else Some (span_ticks P (nanos ts - nanos (clock_time P n2))))"

fun alarm_spec :: "platform \<Rightarrow> timer_call \<Rightarrow> alarm \<Rightarrow> timer_reply \<times> alarm" where
  "alarm_spec P (SetTimer n1 n2 now flags val ov) s =
     (let old = map_option (\<lambda>_. reading P n1 s) ov in
      if TIMESPEC_IS_ZERO (it_value val) then (TimerSet OK old None, s\<lparr>due := None\<rparr>)
      else if \<not> validate_timespec (Some (it_value val)) \<or> \<not> validate_timespec (Some (it_interval val))
      then (TimerSet MinusOne old (Some EINVAL), s)
      else
        (let s = s\<lparr>every := word_of_int (span_ticks P (nanos (it_interval val)))\<rparr> in
         case delay P n2 flags (it_value val) of
           Some k \<Rightarrow> (TimerSet OK old None, s\<lparr>due := Some (now + word_of_int k)\<rparr>)
         | None \<Rightarrow> (TimerSet OK old None, ring now s)))"
| "alarm_spec P (GetTimer n) s = (TimerGot (reading P n s), s)"
| "alarm_spec P (RunOut l) s =
     (case due s of None \<Rightarrow> (TimerQuiet, s) | Some d \<Rightarrow> (TimerFired (d + l), ring (d + l) s))"

section \<open>Refinement\<close>

text \<open>The alarm that a timer is, and what is asked of the system and of the times set.\<close>

definition alarm_at :: "('t, 's, 'm, 'k, 'h, 'o) timer_sys \<Rightarrow> 'o timer_internal \<Rightarrow> nat \<Rightarrow> alarm" where
  "alarm_at y timer c =
     \<lparr>due = (if tmr_active (tmrs (t_env y)) (ost timer) then Some (expire_tick (tmrs (t_env y)) (ost timer)) else None),
      every = period timer, rung = c\<rparr>"

definition alarm_of ::
    "('t, 's, 'm, 'k, 'h, 'o) timer_sys \<Rightarrow> ('s, 'm, 'k, 'h, 'o) timer_world \<Rightarrow> alarm" where
  "alarm_of y w = alarm_at y (the (timers w (t_addr y))) (rings y (tw w))"

abbreviation t_platform :: "('t, 's, 'm, 'k, 'h, 'o) timer_sys \<Rightarrow> platform" where
  "t_platform y \<equiv> t_plat (te (t_env y))"

definition timer_sys_ok :: "('t, 's, 'm, 'k, 'h, 'o) timer_sys \<Rightarrow> bool" where
  "timer_sys_ok y \<longleftrightarrow> platform_ok (t_platform y) \<and> timer_laws (tmrs (t_env y)) \<and>
     (\<forall>x. \<not> tmr_active (tmrs (t_env y)) (fired y x)) \<and>
     calls_function (t_env y) (t_addr y) (rings y) (t_event y)"

definition timer_wf ::
    "('t, 's, 'm, 'k, 'h, 'o) timer_sys \<Rightarrow> ('s, 'm, 'k, 'h, 'o) timer_world \<Rightarrow> bool" where
  "timer_wf y w \<longleftrightarrow> (\<exists>timer. timers w (t_addr y) = Some timer \<and> event timer = t_event y)"

text \<open>
  Times that are accepted have ticks that fit 32 bits, and an absolute time is at most
  $2^{32} - 1$ seconds ahead. (For other absolute times see \<open>timer_settime_deadline\<close> of Timer.)
\<close>

fun timer_valid :: "('t, 's, 'm, 'k, 'h, 'o) timer_sys \<Rightarrow> timer_call \<Rightarrow> bool" where
  "timer_valid y (SetTimer n1 n2 now flags val ov) \<longleftrightarrow>
     TIMESPEC_IS_NOT_ZERO (it_value val) \<and> validate_timespec (Some (it_value val)) \<and>
       validate_timespec (Some (it_interval val)) \<longrightarrow>
     in_range (t_platform y) (it_interval val) \<and>
       (if flags AND TIMER_ABSTIME \<noteq> TIMER_ABSTIME then in_range (t_platform y) (it_value val)
        else near (t_platform y) (it_value val) (clock_time (t_platform y) n2) \<and>
          span_ticks (t_platform y) (nanos (it_value val) - nanos (clock_time (t_platform y) n2)) \<le> 4294967295)"
| "timer_valid y _ \<longleftrightarrow> True"

lemma reading_gettime:
  "snd (timer_gettime (t_env y) n timer) = reading (t_platform y) n (alarm_at y timer c)"
  by (simp add: timer_gettime_def reading_def alarm_at_def Let_def)

text \<open>The notification rings the alarm.\<close>

lemma timer_do_rings:
  assumes "timer_sys_ok y" and "timers w (t_addr y) = Some timer" and "event timer = t_event y"
    and "\<not> tmr_active (tmrs (t_env y)) (ost timer)"
  obtains w' where "timer_do (t_env y) now (Some (t_addr y)) w = Returns (0, w')" and "timer_wf y w'"
    and "alarm_of y w' = ring now (alarm_at y timer (rings y (tw w)))"
proof -
  let ?e = "t_env y" and ?a = "t_addr y"
  have laws: "timer_laws (tmrs ?e)" and ev: "calls_function ?e ?a (rings y) (event timer)"
    using assms(1,3) by (simp_all add: timer_sys_ok_def)
  show thesis
  proof (cases "0 < period timer")
    case True
    from one_expiry [OF laws assms(2) ev True, of now] obtain w' timer' where
      w': "timer_do ?e now (Some ?a) w = Returns (0, w')" "timers w' ?a = Some timer'"
      "event timer' = event timer" "period timer' = period timer" "tmr_active (tmrs ?e) (ost timer')"
      "expire_tick (tmrs ?e) (ost timer') = now + period timer" "rings y (tw w') = Suc (rings y (tw w))"
      by metis
    from that [OF w'(1)] w'(2-) True assms(3) show thesis
      by (simp add: timer_wf_def alarm_of_def alarm_at_def ring_def)
  next
    case False
    from ev obtain f where f: "sigev_notify (event timer) = SIGEV_THREAD"
      "sigev_notify_attributes (event timer) = None" "sigev_notify_function (event timer) = Some f"
      "\<And>w. timers (notify ?e f (sigev_value (event timer)) w) ?a = timers w ?a \<and>
        rings y (tw (notify ?e f (sigev_value (event timer)) w)) = Suc (rings y (tw w))"
      by (auto simp: calls_function_def)
    let ?w = "notify ?e f (sigev_value (event timer)) (w\<lparr>timers := (timers w)(?a \<mapsto> timer)\<rparr>)"
    have "timer_do ?e now (Some ?a) w = Returns (0, ?w)"
      using assms(2) f(1-3) False by (simp add: timer_do_def SIGEV_THREAD_def SIGEV_SIGNAL_def)
    from that [OF this] f(4) False assms(3,4) show thesis
      by (simp add: timer_wf_def alarm_of_def alarm_at_def ring_def)
  qed
qed

text \<open>Setting an alarm: the cases of the specification, each with what the code does.\<close>

lemma settime_refused:
  assumes "timers w a = Some timer" and "TIMESPEC_IS_NOT_ZERO (it_value val)"
    and "\<not> validate_timespec (Some (it_value val)) \<or> \<not> validate_timespec (Some (it_interval val))"
  shows "timer_settime e n1 n2 now a flags val ov err w =
    Returns (MinusOne, map_option (\<lambda>_. snd (timer_gettime e n1 timer)) ov, Some EINVAL, w)"
proof -
  have "w\<lparr>timers := (timers w)(a \<mapsto> timer)\<rparr> = w" using assms(1) by (simp add: fun_upd_idem)
  with assms show ?thesis by (auto simp: timer_settime_def Let_def)
qed

lemma settime_disarms:
  assumes "timers w a = Some timer" and "TIMESPEC_IS_ZERO (it_value val)"
  shows "timer_settime e n1 n2 now a flags val ov err w =
    Returns (OK, map_option (\<lambda>_. snd (timer_gettime e n1 timer)) ov, err,
      w\<lparr>timers := (timers w)(a \<mapsto> timer\<lparr>ost := tmr_of (tmrs e) (ost timer)\<rparr>)\<rparr>)"
  using assms by (simp add: timer_settime_def Let_def TIMESPEC_IS_NOT_ZERO_def)

text \<open>A timer that is started is an alarm that is due.\<close>

lemma started_alarm:
  assumes "timer_sys_ok y" and "event timer = t_event y"
    and "timer' = (stopped (t_env y) val timer)\<lparr>ost := tmr_on (tmrs (t_env y)) now x k\<rparr>"
    and "w' = w\<lparr>timers := (timers w)(t_addr y \<mapsto> timer')\<rparr>"
  shows "timer_wf y w'"
    and "alarm_of y w' = \<lparr>due = Some (now + k),
      every = period timer', rung = rings y (tw w)\<rparr>"
  using assms(2-4) timer_lawsD(3,4) [of "tmrs (t_env y)"] assms(1)
  by (simp_all add: timer_wf_def alarm_of_def alarm_at_def stopped_def timer_sys_ok_def)

lemma settime_refines:
  assumes "timer_sys_ok y" and "timer_wf y w" and "timer_valid y (SetTimer n1 n2 now flags val ov)"
  shows "\<exists>r w'. timer_exec y (SetTimer n1 n2 now flags val ov) w = Returns (r, w') \<and> timer_wf y w' \<and>
    alarm_spec (t_platform y) (SetTimer n1 n2 now flags val ov) (alarm_of y w) = (r, alarm_of y w')"
proof -
  let ?e = "t_env y" and ?a = "t_addr y" and ?P = "t_platform y"
  obtain timer where timer: "timers w ?a = Some timer" "event timer = t_event y"
    using assms(2) by (auto simp: timer_wf_def)
  have P: "platform_ok ?P" and laws: "timer_laws (tmrs ?e)" using assms(1) by (simp_all add: timer_sys_ok_def)
  have s: "alarm_of y w = alarm_at y timer (rings y (tw w))" using timer(1) by (simp add: alarm_of_def)
  have old: "map_option (\<lambda>_. snd (timer_gettime ?e n1 timer)) ov = map_option (\<lambda>_. reading ?P n1 (alarm_of y w)) ov"
    by (simp only: s reading_gettime [where c = "rings y (tw w)"])
  let ?now = "clock_time ?P n2"
  consider (zero) "TIMESPEC_IS_ZERO (it_value val)"
    | (refused) "TIMESPEC_IS_NOT_ZERO (it_value val)"
        "\<not> validate_timespec (Some (it_value val)) \<or> \<not> validate_timespec (Some (it_interval val))"
    | (relative) "TIMESPEC_IS_NOT_ZERO (it_value val)" "flags AND TIMER_ABSTIME \<noteq> TIMER_ABSTIME"
        "in_range ?P (it_value val)" "in_range ?P (it_interval val)"
    | (absolute) "TIMESPEC_IS_NOT_ZERO (it_value val)" "flags AND TIMER_ABSTIME = TIMER_ABSTIME"
        "validate_timespec (Some (it_value val))" "in_range ?P (it_interval val)"
        "near ?P (it_value val) ?now" "span_ticks ?P (nanos (it_value val) - nanos ?now) \<le> 4294967295"
    using assms(3) by (auto simp: TIMESPEC_IS_NOT_ZERO_def split: if_splits)
  then show ?thesis
  proof cases
    case zero
    with timer laws show ?thesis
      by (simp add: settime_disarms old timer_wf_def alarm_of_def alarm_at_def timer_lawsD)
  next
    case refused
    with timer assms(2) show ?thesis
      by (auto simp: settime_refused old TIMESPEC_IS_NOT_ZERO_def)
  next
    case relative
    have v: "validate_timespec (Some (it_value val))" "validate_timespec (Some (it_interval val))"
      using relative by (simp_all add: in_range_def)
    let ?k = "word_of_int (ticks_of ?P (it_value val)) :: u32"
    note started = started_alarm [OF assms(1) timer(2) refl refl, where val = val and now = now and
        x = "tmr_of (tmrs ?e) (ost timer)" and k = "?k" and w = w]
    show ?thesis
      using settime_relative [OF P timer(1) relative(2,1,3,4), of n1 n2 now ov None] relative(1,2) v
        started s ticks_of_span [OF v(1)] ticks_of_span [OF v(2)]
      by (simp add: old TIMESPEC_IS_NOT_ZERO_def alarm_at_def Let_def stopped_def del: validate_iff)
  next
    case absolute
    have v: "validate_timespec (Some (it_interval val))" using absolute by (simp add: in_range_def)
    let ?T = "span_ticks ?P (nanos (it_value val) - nanos ?now)"
    show ?thesis
    proof (cases "it_value val \<le> ?now")
      case False
      then have le: "?now \<le> it_value val" and less: "?now < it_value val" by simp_all
      have rk: "deadline_ticks ?P (it_value val) ?now 0 = (OK, word_of_int ?T)"
        using dl.ahead [OF P absolute(5) le, of 0] absolute(6) by simp
      have "uint (word_of_int ?T :: u32) = ?T"
        using dl.ticks_fit [OF P dl.span_ok [OF absolute(5) le] absolute(6)] .
      then have nz: "(word_of_int ?T :: u32) \<noteq> 0"
        using dl.conv_ahead_pos [OF P absolute(5) less] by (simp add: u32_eq_0_iff)
      note set = settime_absolute [OF timer(1) P absolute(2,1,3,4) rk, of n1 now ov None]
      note started = started_alarm [OF assms(1) timer(2) refl refl, where val = val and now = now and
        x = "tmr_of (tmrs ?e) (ost timer)" and k = "word_of_int ?T" and w = w]
      from False set nz absolute(1-3) v started s ticks_of_span [OF v] show ?thesis
        by (simp add: old TIMESPEC_IS_NOT_ZERO_def alarm_at_def Let_def stopped_def del: validate_iff)
    next
      case True
      obtain r k where rk: "deadline_ticks ?P (it_value val) ?now 0 = (r, k)"
        and r: "\<not> (r = OK \<and> k \<noteq> 0)" "(if r = Err ETIMEDOUT then OK else r) = OK"
        using dl.conv_reached [OF P absolute(5) True, of 0] by (auto split: if_splits)
      note set = settime_absolute [OF timer(1) P absolute(2,1,3,4) rk, of n1 now ov None]
      let ?w = "w\<lparr>timers := (timers w)(?a \<mapsto> stopped ?e val timer)\<rparr>"
      have "timers ?w ?a = Some (stopped ?e val timer)" "event (stopped ?e val timer) = t_event y"
        "\<not> tmr_active (tmrs ?e) (ost (stopped ?e val timer))"
        using timer(2) laws by (simp_all add: stopped_def timer_lawsD)
      from timer_do_rings [OF assms(1) this, of now] obtain w' where
        w': "timer_do ?e now (Some ?a) ?w = Returns (0, w')" "timer_wf y w'"
        "alarm_of y w' = ring now (alarm_at y (stopped ?e val timer) (rings y (tw w)))" by auto
      with True set r absolute(1-3) v s ticks_of_span [OF v] show ?thesis
        by (simp add: old TIMESPEC_IS_NOT_ZERO_def alarm_at_def Let_def ring_def stopped_def del: validate_iff)
    qed
  qed
qed

interpretation txr: simulation timer_sys_ok timer_wf timer_valid alarm_of timer_exec
  "\<lambda>y. alarm_spec (t_platform y)"
proof unfold_locales
  fix y :: "('t, 's, 'm, 'k, 'h, 'o) timer_sys" and c w
  assume ok: "timer_sys_ok y" and wf: "timer_wf y w" and valid: "timer_valid y c"
  then obtain timer where timer: "timers w (t_addr y) = Some timer" "event timer = t_event y"
    by (auto simp: timer_wf_def)
  have s: "alarm_of y w = alarm_at y timer (rings y (tw w))" using timer(1) by (simp add: alarm_of_def)
  show "\<exists>r w'. timer_exec y c w = Returns (r, w') \<and> timer_wf y w' \<and>
      alarm_spec (t_platform y) c (alarm_of y w) = (r, alarm_of y w')"
  proof (cases c)
    case SetTimer
    with settime_refines ok wf valid show ?thesis by metis
  next
    case (GetTimer n)
    with timer(1) wf s reading_gettime [of y n timer] show ?thesis by simp
  next
    case (RunOut l)
    show ?thesis
    proof (cases "tmr_active (tmrs (t_env y)) (ost timer)")
      case False
      with RunOut timer(1) wf s show ?thesis by (simp add: alarm_at_def)
    next
      case True
      let ?now = "expire_tick (tmrs (t_env y)) (ost timer) + l"
      let ?t = "timer\<lparr>ost := fired y (ost timer)\<rparr>"
      let ?w = "w\<lparr>timers := (timers w)(t_addr y \<mapsto> ?t)\<rparr>"
      have "timers ?w (t_addr y) = Some ?t" "event ?t = t_event y" "\<not> tmr_active (tmrs (t_env y)) (ost ?t)"
        using timer(2) ok by (simp_all add: timer_sys_ok_def)
      from timer_do_rings [OF ok this, of ?now] obtain w' where
        "timer_do (t_env y) ?now (Some (t_addr y)) ?w = Returns (0, w')" "timer_wf y w'"
        "alarm_of y w' = ring ?now (alarm_at y ?t (rings y (tw w)))" by auto
      with RunOut True timer(1) s show ?thesis by (simp add: alarm_at_def ring_def)
    qed
  qed
qed

text \<open>
  On the specification: between settings each expiry puts off the next by the interval and by
  its own latency.
\<close>

fun is_setting :: "timer_call \<Rightarrow> bool" where
  "is_setting (SetTimer n1 n2 now flags val ov) \<longleftrightarrow> True"
| "is_setting _ \<longleftrightarrow> False"

fun latencies :: "timer_call list \<Rightarrow> u32 list" where
  "latencies [] = []"
| "latencies (RunOut l # cs) = l # latencies cs"
| "latencies (_ # cs) = latencies cs"

lemma spec_keeps_beat:
  assumes "\<forall>c\<in>set cs. \<not> is_setting c" and "due s = Some d" and "0 < every s"
  shows "snd (spec_calls (alarm_spec P) cs s) =
    s\<lparr>due := Some (d + of_nat (length (latencies cs)) * every s + sum_list (latencies cs)),
      rung := rung s + length (latencies cs)\<rparr>"
  using assms
proof (induction cs arbitrary: s d)
  case Nil
  then show ?case by simp
next
  case (Cons c cs)
  show ?case
  proof (cases c)
    case SetTimer
    with Cons.prems(1) show ?thesis by simp
  next
    case (GetTimer n)
    with Cons.IH [OF _ Cons.prems(2,3)] Cons.prems(1) show ?thesis
      by (cases "spec_calls (alarm_spec P) cs s") simp
  next
    case (RunOut l)
    have "snd (spec_calls (alarm_spec P) cs (ring (d + l) s)) =
        (ring (d + l) s)\<lparr>due := Some (d + l + every s + of_nat (length (latencies cs)) * every s +
            sum_list (latencies cs)),
          rung := Suc (rung s) + length (latencies cs)\<rparr>"
      using Cons.IH [of "ring (d + l) s" "d + l + every s"] Cons.prems by (simp add: ring_def)
    with RunOut Cons.prems(2,3) show ?thesis
      by (cases "spec_calls (alarm_spec P) cs (ring (d + l) s)") (simp add: ring_def algebra_simps)
  qed
qed

section \<open>A reference system\<close>

definition ref_timer_sys :: "(nat, nat, nat option, unit, ref_heap, bool \<times> u32) timer_sys" where
  "ref_timer_sys =
     \<lparr>t_env = ref_timer_env, t_addr = 3, t_event = event ref_timer,
      fired = (\<lambda>x. (False, snd x)), rings = (\<lambda>w. budget (heap w))\<rparr>"

lemma ref_timer_sys_ok: "timer_sys_ok ref_timer_sys"
  by (simp add: timer_sys_ok_def ref_timer_sys_def calls_function_def ref_timer_def ref_timer_env_def)

lemma ref_timer_wf: "timer_wf ref_timer_sys (ref_timer_world n)"
  by (simp add: timer_wf_def ref_timer_sys_def ref_timer_world_def)

lemma ref_alarm: "alarm_of ref_timer_sys (ref_timer_world n) = \<lparr>due = Some 90, every = 250, rung = n\<rparr>"
  by (simp add: alarm_of_def alarm_at_def ref_timer_sys_def ref_timer_world_def ref_timer_def
      ref_tworld_def)

section \<open>Properties\<close>

text \<open>
  C16: a timer is an alarm. For a timer that calls a function of the application, any sequence
  of readings, expiries and settings (relative or absolute with ticks that fit 32 bits,
  disarming or refused: \<open>timer_valid\<close>) returns, and its replies, the tick at which the timer is
  due, its interval and the number of notifications are those of the specification. A periodic
  timer that is not set again has notified once for each expiry, however often it is read. Its
  next expiry counts from the tick at which \<open>timer_do\<close> ran, so it is due at its first time
  plus one interval for each expiry plus the sum of the latencies of all its expiries: it drifts
  by every tick that the kernel was late.
\<close>

theorem timer_refines_alarm:
  assumes "timer_sys_ok y" and "timer_wf y w" and "list_all (timer_valid y) cs"
  shows "\<exists>rs w'. run_calls (timer_exec y) cs w = Returns (rs, w') \<and> timer_wf y w' \<and>
    spec_calls (alarm_spec (t_platform y)) cs (alarm_of y w) = (rs, alarm_of y w') \<and>
    (\<forall>d. due (alarm_of y w) = Some d \<and> 0 < every (alarm_of y w) \<and> (\<forall>c\<in>set cs. \<not> is_setting c) \<longrightarrow>
      due (alarm_of y w') = Some (d + of_nat (length (latencies cs)) * every (alarm_of y w) +
        sum_list (latencies cs)) \<and>
      every (alarm_of y w') = every (alarm_of y w) \<and>
      rung (alarm_of y w') = rung (alarm_of y w) + length (latencies cs))"
proof -
  from txr.sim_calls [OF assms] obtain rs w' where
    run: "run_calls (timer_exec y) cs w = Returns (rs, w')" "timer_wf y w'"
    "spec_calls (alarm_spec (t_platform y)) cs (alarm_of y w) = (rs, alarm_of y w')" by blast
  have "alarm_of y w' = (alarm_of y w)\<lparr>due := Some (d + of_nat (length (latencies cs)) *
        every (alarm_of y w) + sum_list (latencies cs)),
      rung := rung (alarm_of y w) + length (latencies cs)\<rparr>"
    if "due (alarm_of y w) = Some d" "0 < every (alarm_of y w)" "\<forall>c\<in>set cs. \<not> is_setting c" for d
    using spec_keeps_beat [OF that(3,1,2), of "t_platform y"] run(3) by simp
  with run show ?thesis by auto
qed

theorem timer_refines_alarm_witness:
  "\<exists>w'. run_calls (timer_exec ref_timer_sys)
      [GetTimer 40, RunOut 2, RunOut 3,
       SetTimer 100 100 100 0 \<lparr>it_interval = \<lparr>tv_sec = 0, tv_nsec = 0\<rparr>, it_value = \<lparr>tv_sec = 2, tv_nsec = 0\<rparr>\<rparr> None,
       RunOut 5, RunOut 0] (ref_timer_world 0) =
    Returns ([TimerGot \<lparr>it_interval = \<lparr>tv_sec = 0, tv_nsec = 250000000\<rparr>,
        it_value = \<lparr>tv_sec = 0, tv_nsec = 50000000\<rparr>\<rparr>, TimerFired 92, TimerFired 345, TimerSet OK None None,
        TimerFired 2105, TimerQuiet], w') \<and>
    rung (alarm_of ref_timer_sys w') = 3"
proof -
  let ?val = "\<lparr>it_interval = \<lparr>tv_sec = 0, tv_nsec = 0\<rparr>, it_value = \<lparr>tv_sec = 2, tv_nsec = 0\<rparr>\<rparr>"
  let ?cs = "[GetTimer 40, RunOut 2, RunOut 3, SetTimer 100 100 100 0 ?val None, RunOut 5, RunOut 0]"
  let ?rs = "[TimerGot \<lparr>it_interval = \<lparr>tv_sec = 0, tv_nsec = 250000000\<rparr>,
        it_value = \<lparr>tv_sec = 0, tv_nsec = 50000000\<rparr>\<rparr>, TimerFired 92, TimerFired 345, TimerSet OK None None,
        TimerFired 2105, TimerQuiet]"
  have P: "t_platform ref_timer_sys = ref_platform" by (simp add: ref_timer_sys_def)
  have "list_all (timer_valid ref_timer_sys) ?cs"
    using in_range_ref [of 0] in_range_ref [of 2] by (simp add: P TIMER_ABSTIME_def)
  note refines = timer_refines_alarm [OF ref_timer_sys_ok ref_timer_wf this, of 0]
  have "spec_calls (alarm_spec ref_platform) ?cs \<lparr>due = Some 90, every = 250, rung = 0\<rparr> =
      (?rs, \<lparr>due = None, every = 0, rung = 3\<rparr>)"
    by (simp add: reading_def ring_def Let_def TIMESPEC_IS_ZERO_def TIMER_ABSTIME_def ticks_timespec_def
        span_ticks_def nanos_def ceil_div_def NANOSECONDS_PER_TICK_def NANOSECONDS_PER_SECOND_def sdiv_nonneg
        c_arith)
  with refines obtain rs w' where "run_calls (timer_exec ref_timer_sys) ?cs (ref_timer_world 0) = Returns (rs, w')"
    and "alarm_of ref_timer_sys w' = \<lparr>due = None, every = 0, rung = 3\<rparr>" and "rs = ?rs"
    by (auto simp: P ref_alarm simp del: run_calls.simps spec_calls.simps)
  then show ?thesis by (simp del: run_calls.simps)
qed

end
