(* ===== verification/Thread_End.thy ===== *)
theory Thread_End
  imports Thread
begin

text \<open>
  \<open>src/src/posix_pthread.c\<close>: how the memory of a thread is released, and how often. A detached
  thread releases its own; a joinable one leaves that to the task that joins it, and the code
  means to let only one do so.
\<close>

section \<open>Two joins of one thread\<close>

text \<open>
  A join up to the point where it has given the mutex back, its last steps, and the exit of a
  thread up to the point where it waits to be joined.
\<close>

definition join_begin :: "'t \<Rightarrow> addr \<Rightarrow> ('t, tpc) action list" where
  "join_begin t th = [Call t (JTest th), Move t, Move t, Move t, Move t, Move t, Move t]"

definition exit_begin :: "'t \<Rightarrow> addr \<Rightarrow> addr ptr \<Rightarrow> ('t, tpc) action list" where
  "exit_begin u th v = [Call u (XRet th v), Move u, Move u, Move u]"

lemma join_begin_result:
  assumes "tobj (shared s) th = Some obj" and "STATUS_JOINABLE (status (t_attr obj))"
    and "mut_take (t_muts e) t (t_mux obj) = Some m" and "pthread_self e t \<noteq> Some th"
    and "sem_take (t_sems e) (t_barrier obj) = Some b" and "pc_of s t = TIdle"
  obtains s' where "run_schedule (thread_program e) (join_begin t th) s = s'"
    and "tobj (shared s') th = Some (obj\<lparr>t_barrier := b, t_joined := sem_post (t_sems e) (t_joined obj),
      t_mux := mut_unlock (t_muts e) m\<rparr>)"
    and "heap (shared s') = heap (shared s)" and "pc_of s' = (pc_of s)(t := JRet th)"
proof -
  have "pthread_equal (pthread_self e t) (Some th) = 0"
    using assms(4) by (auto simp: pthread_equal_def)
  with that [OF refl] assms show thesis by (simp add: join_begin_def thread_simps)
qed

text \<open>Two joins that have come that far, one step each in turn.\<close>

lemma two_joins_end:
  assumes "hcos_posix_free (t_mem e) = Some fr" and "tobj (shared s) th = Some obj"
    and "pc_of s t = JRet th" and "pc_of s u = JRet th" and "t \<noteq> u"
    and "s' = run_schedule (thread_program e) [Move t, Move u, Move t, Move u, Move t, Move u] s"
  shows "heap (shared s') = fr POSIX_THREAD (Some th)
      (fr POSIX_STACK (t_stack obj) (fr POSIX_STACK (t_stack obj) (heap (shared s)))) \<and>
    pc_of s' t = TDone OK (t_ret obj) \<and> pc_of s' u = TFault"
  using assms by (simp add: thread_simps)

lemma exit_begin_result:
  assumes "tobj (shared s) th = Some obj" and "STATUS_JOINABLE (status (t_attr obj))"
    and "pc_of s u = TIdle"
  shows "run_schedule (thread_program e) (exit_begin u th v) s =
    s\<lparr>shared := (shared s)\<lparr>tobj := (tobj (shared s))(th \<mapsto>
        obj\<lparr>t_ret := v, t_barrier := sem_post (t_sems e) (t_barrier obj)\<rparr>)\<rparr>,
      pc_of := (pc_of s)(u := XGet th)\<rparr>"
  using assms by (simp add: exit_begin_def thread_simps)

text \<open>What two joins and an exit in between find in a fresh object.\<close>

lemma fresh_object_twice:
  assumes "thread_env_ok live al fr e" and "fresh_object e st obj" and "STATUS_JOINABLE (status (t_attr obj))"
  obtains m m' b b' where "mut_take (t_muts e) t (t_mux obj) = Some m"
    "mut_take (t_muts e) u (mut_unlock (t_muts e) m) = Some m'"
    "sem_take (t_sems e) (t_barrier obj) = Some b"
    "sem_take (t_sems e) (sem_post (t_sems e) b) = Some b'"
proof -
  have S: "counting_sem (t_sems e)" and M: "mutex_laws (t_muts e)"
    using assms(1) by (simp_all add: thread_env_ok_def)
  have free: "own (t_muts e) (t_mux obj) = None"
    using assms(2,3) mutex_lawsD(1) [OF M] by (simp add: fresh_object_def)
  obtain m where m: "mut_take (t_muts e) t (t_mux obj) = Some m" using mutex_lawsD(2) [OF M free] by blast
  moreover have "own (t_muts e) (mut_unlock (t_muts e) m) = None" by (rule mutex_lawsD(4) [OF M free m])
  then obtain m' where "mut_take (t_muts e) u (mut_unlock (t_muts e) m) = Some m'"
    using mutex_lawsD(2) [OF M] by blast
  moreover obtain b where "sem_take (t_sems e) (t_barrier obj) = Some b"
    using fresh_object_takes [OF assms] by metis
  moreover obtain b' where "sem_take (t_sems e) (sem_post (t_sems e) b) = Some b'"
    using sem_take_pos [OF S, of "sem_post (t_sems e) b"] counting_semD(2) [OF S] by auto
  ultimately show thesis by (rule that)
qed

section \<open>Properties\<close>

text \<open>
  C38: two joins of one thread can both succeed. The mutex that is to keep a second join out is
  given back before the memory is released, and the semaphore counts two units, one from the
  start and one from the exit: there is an interleaving in which two tasks have both joined a
  fresh thread and both release its stack, the second time after it is free, and the second
  task then uses the thread object after its release.
\<close>

theorem join_frees_twice:
  assumes "thread_env_ok live al fr e" and "tobj (shared s) th = Some obj"
    and "fresh_object e st obj" and "STATUS_JOINABLE (status (t_attr obj))"
    and "pthread_self e t \<noteq> Some th" and "pthread_self e u \<noteq> Some th"
    and "pc_of s = (\<lambda>_. TIdle)" and "pthread_self e x = Some th" and "t \<noteq> u"
  shows "\<exists>s'. (tstep (thread_program e))\<^sup>*\<^sup>* s s' \<and>
    heap (shared s') = fr POSIX_THREAD (Some th)
      (fr POSIX_STACK (Some st) (fr POSIX_STACK (Some st) (heap (shared s)))) \<and>
    pc_of s' t = TDone OK v \<and> pc_of s' u = TFault"
proof -
  let ?G = "thread_program e" and ?S = "t_sems e" and ?M = "t_muts e"
  let ?fin = "[Move t, Move u, Move t, Move u, Move t, Move u]"
  have fr: "hcos_posix_free (t_mem e) = Some fr" using assms(1) by (simp add: thread_env_ok_def)
  obtain m m' b b' where take: "mut_take ?M t (t_mux obj) = Some m"
    "mut_take ?M u (mut_unlock ?M m) = Some m'" "sem_take ?S (t_barrier obj) = Some b"
    "sem_take ?S (sem_post ?S b) = Some b'"
    using fresh_object_twice [OF assms(1,3,4)] by metis
  have idle: "pc_of s t = TIdle" using assms(7) by simp
  obtain s1 where s1: "run_schedule ?G (join_begin t th) s = s1"
    "tobj (shared s1) th = Some (obj\<lparr>t_barrier := b, t_joined := sem_post ?S (t_joined obj),
      t_mux := mut_unlock ?M m\<rparr>)" (is "_ = Some ?o1")
    "heap (shared s1) = heap (shared s)" "pc_of s1 = (pc_of s)(t := JRet th)"
    by (rule join_begin_result [OF assms(2,4) take(1) assms(5) take(3) idle])
  have diff: "distinct [t, u, x]" using assms(5,6,8,9) by auto
  then have "pc_of s1 x = TIdle" using assms(7) s1(4) by auto
  then obtain s2 where s2: "run_schedule ?G (exit_begin x th v) s1 = s2"
    "tobj (shared s2) th = Some (?o1\<lparr>t_ret := v, t_barrier := sem_post ?S b\<rparr>)" (is "_ = Some ?o2")
    "heap (shared s2) = heap (shared s)" "pc_of s2 = (pc_of s1)(x := XGet th)"
    using exit_begin_result [OF s1(2), of x e v] assms(4,7) s1(3,4) by simp
  have o2: "STATUS_JOINABLE (status (t_attr ?o2))" "mut_take ?M u (t_mux ?o2) = Some m'"
    "sem_take ?S (t_barrier ?o2) = Some b'" "pc_of s2 u = TIdle"
    using assms(4,7) diff take(2,4) s1(4) s2(4) by auto
  obtain s3 where s3: "run_schedule ?G (join_begin u th) s2 = s3"
    "tobj (shared s3) th = Some (?o2\<lparr>t_barrier := b', t_joined := sem_post ?S (t_joined ?o2),
      t_mux := mut_unlock ?M m'\<rparr>)"
    "heap (shared s3) = heap (shared s)" "pc_of s3 = (pc_of s2)(u := JRet th)"
    using join_begin_result [OF s2(2) o2(1,2) assms(6) o2(3,4)] s2(3) by metis
  have pcs: "pc_of s3 t = JRet th" "pc_of s3 u = JRet th" "t \<noteq> u"
    using diff s1(4) s2(4) s3(4) by auto
  note last = two_joins_end [OF fr s3(2) pcs refl]
  have "run_schedule ?G (join_begin t th @ exit_begin x th v @ join_begin u th @ ?fin) s =
      run_schedule ?G ?fin s3"
    unfolding run_schedule_append s1(1) s2(1) s3(1) ..
  with tsteps_schedule [of ?G s "join_begin t th @ exit_begin x th v @ join_begin u th @ ?fin"]
  have "(tstep ?G)\<^sup>*\<^sup>* s (run_schedule ?G ?fin s3)" by simp
  moreover have "t_stack obj = Some st" using assms(3) by (simp add: fresh_object_def)
  ultimately show ?thesis using last s3(3)
    by (intro exI [of _ "run_schedule ?G ?fin s3"]) (simp del: run_schedule.simps)
qed

lemma ref_one_thread_facts:
  "tobj (shared ref_one_thread) 7 = Some ref_obj" "fresh_object ref_thread_env 9 ref_obj"
  "STATUS_JOINABLE (status (t_attr ref_obj))" "pc_of ref_one_thread = (\<lambda>_. TIdle)"
  "returned ref_one_thread = []" "pthread_self ref_thread_env n = Some n"
  by (simp_all add: ref_one_thread_def fresh_object_def ref_obj_def ref_thread_env_def joinable_32774
      pthread_self_def)

theorem join_frees_twice_witness:
  "\<exists>s'. (tstep (thread_program ref_thread_env))\<^sup>*\<^sup>* ref_one_thread s' \<and>
    heap (shared s') = ref_free POSIX_THREAD (Some 7)
      (ref_free POSIX_STACK (Some 9) (ref_free POSIX_STACK (Some 9) (heap (shared ref_one_thread)))) \<and>
    pc_of s' 3 = TDone OK (Some 2) \<and> pc_of s' 4 = TFault"
  using join_frees_twice [OF ref_thread_env_ok ref_one_thread_facts(1-3), of 3 4 7 "Some 2"]
  by (simp add: ref_one_thread_facts)

text \<open>
  \<open>pthread_exit\<close> returns. A fresh joinable thread that calls \<open>pthread_exit\<close> with \<open>v\<close> gets
  past the wait for its joiner at once, so the call returns to the thread's function; when that
  goes on and returns \<open>v'\<close>, the exit runs a second time: the value is overwritten, and the
  semaphore on which joins wait is posted again.
\<close>

theorem pthread_exit_returns:
  assumes "thread_env_ok live al fr e" and "tobj (shared s) th = Some obj"
    and "fresh_object e st obj" and "STATUS_JOINABLE (status (t_attr obj))"
    and "pthread_self e u = Some th" and "pc_of s u = TIdle"
    and "s' = run_schedule (thread_program e)
      ([Call u (pthread_exit e u v), Move u, Move u, Move u, Move u, Return u] @ exit_begin u th v') s"
  shows "returned s' = (OK, None) # returned s \<and> pc_of s' u = XGet th \<and>
    (\<exists>obj'. tobj (shared s') th = Some obj' \<and> t_ret obj' = v' \<and> sem_val (t_sems e) (t_barrier obj') = 3)"
proof -
  have S: "counting_sem (t_sems e)" using assms(1) by (simp add: thread_env_ok_def)
  have b: "sem_val (t_sems e) (t_barrier obj) = 1"
    using assms(3,4) counting_semD(1) [OF S, of 1] by (simp add: fresh_object_def)
  obtain j where j: "sem_take (t_sems e) (t_joined obj) = Some j"
    using fresh_object_takes [OF assms(1,3,4)] by metis
  have "[Call u (pthread_exit e u v), Move u, Move u, Move u, Move u, Return u] = exit_run u th v"
    using assms(5) by (simp add: exit_run_def pthread_exit_def)
  with assms(7) have "s' = run_schedule (thread_program e) (exit_begin u th v')
      (run_schedule (thread_program e) (exit_run u th v) s)"
    by (simp only: run_schedule_append)
  then show ?thesis
    unfolding exit_run_result [OF assms(2,4) j assms(6)]
    by (subst (asm) exit_begin_result [where obj = "obj\<lparr>t_ret := v,
        t_barrier := sem_post (t_sems e) (t_barrier obj), t_joined := j\<rparr>"])
      (use assms(4,6) b counting_semD(2) [OF S] in simp_all)
qed

theorem pthread_exit_returns_witness:
  "let s' = run_schedule (thread_program ref_thread_env)
      ([Call 7 (pthread_exit ref_thread_env 7 (Some 2)), Move 7, Move 7, Move 7, Move 7, Return 7] @
       exit_begin 7 7 (Some 3)) ref_one_thread
   in returned s' = [(OK, None)] \<and> pc_of s' 7 = XGet 7"
  using pthread_exit_returns [OF ref_thread_env_ok ref_one_thread_facts(1-3), of 7 _ "Some 2" "Some 3"]
  by (simp add: ref_one_thread_facts Let_def del: run_schedule.simps append.simps)

text \<open>
  A detached thread releases its memory itself. When it ends, exactly its object and its
  stack are released (the stack while the thread still runs on it), its value is lost, and a
  join that comes before is refused with \<open>EDEADLK\<close> without any effect.
\<close>

theorem detached_exit_releases:
  assumes "thread_env_ok live al fr e" and "tobj (shared s) th = Some obj"
    and "t_stack obj = Some st" and "\<not> STATUS_JOINABLE (status (t_attr obj))"
    and "pc_of s t = TIdle" and "pc_of s u = TIdle"
    and "s' = run_schedule (thread_program e)
      ([Call t (JTest th), Move t, Return t] @ exit_run u th v) s"
  shows "returned s' = (OK, None) # (Err EDEADLK, None) # returned s \<and> tobj (shared s') th = None \<and>
    live (heap (shared s')) = live (heap (shared s)) - {(POSIX_THREAD, th), (POSIX_STACK, st)}"
proof -
  have laws: "mem_laws live al fr" and fr: "hcos_posix_free (t_mem e) = Some fr"
    using assms(1) by (simp_all add: thread_env_ok_def)
  have "(pc_of s)(t := TIdle) = pc_of s" using assms(5) by (simp add: fun_upd_idem)
  then show ?thesis
    using assms(2-7) fr mem_lawsD(3) [OF laws] by (auto simp: exit_run_def thread_simps)
qed

theorem detached_exit_releases_witness:
  "let s = ref_one_thread\<lparr>shared := (shared ref_one_thread)\<lparr>tobj := [7 \<mapsto> ref_obj\<lparr>t_attr := \<lparr>stack_sz = 1024, status = 6\<rparr>\<rparr>]\<rparr>\<rparr>;
     s' = run_schedule (thread_program ref_thread_env)
      ([Call 3 (JTest 7), Move 3, Return 3] @ exit_run 7 7 (Some 2)) s
   in returned s' = [(OK, None), (Err EDEADLK, None)] \<and> set (blocks (heap (shared s'))) = {}"
proof -
  let ?obj = "ref_obj\<lparr>t_attr := \<lparr>stack_sz = 1024, status = 6\<rparr>\<rparr>"
  let ?s = "ref_one_thread\<lparr>shared := (shared ref_one_thread)\<lparr>tobj := [7 \<mapsto> ?obj]\<rparr>\<rparr>"
  have "\<not> STATUS_JOINABLE (status (t_attr ?obj))" by (simp add: STATUS_JOINABLE_def MASK_DETACH_def)
  moreover have "tobj (shared ?s) 7 = Some ?obj" "t_stack ?obj = Some 9" by (simp_all add: ref_obj_def)
  ultimately show ?thesis
    using detached_exit_releases [OF ref_thread_env_ok, of ?s 7 ?obj 9 3 7 _ "Some 2"]
    by (simp add: ref_one_thread_def insert_commute Let_def del: run_schedule.simps append.simps)
qed

end
