(* ===== verification/Thread_Life.thy ===== *)
theory Thread_Life
  imports Thread
begin

text \<open>
  The life of the threads of \<open>src/src/posix_pthread.c\<close>, as one program in the sense of Threads:
  any tasks create threads, threads end, and other tasks join them, interleaved at every
  access to a thread object, to the allocator and to the kernel. The steps are those of
  \<open>pthread_create\<close>, \<open>run_thread\<close>, \<open>exit_thread\<close> and \<open>pthread_join\<close> of Thread. The threads that the
  kernel has started and those that are over are part of the state, so that the program can ask
  of the application what the code relies on: a thread ends by returning from its function, and is
  joined at most once, when it is over. What happens otherwise is the subject of Thread and Thread_End.
\<close>

section \<open>The program\<close>

text \<open>The arguments of \<open>pthread_create\<close>, with the caller's variable and \<open>errno\<close>.\<close>

record create_args =
  c_attr :: "pthread_attr ptr"
  c_fn :: "addr ptr"
  c_arg :: "addr ptr"
  c_out :: "addr ptr"
  c_err :: "errno option"

text \<open>
  \<open>LObject\<close> to \<open>LOut\<close> are the points of \<open>pthread_create\<close>, \<open>LThread\<close> those of exit and join.
  \<open>LReturn th v\<close> is the function of thread \<open>th\<close> about to return \<open>v\<close>, \<open>LJoin th\<close> the application
  about to join \<open>th\<close>. \<open>LFault\<close> is the use of a null pointer that an allocation returned or
  that the application has left.
\<close>

datatype lpc =
    LIdle
  | LObject create_args | LFill addr create_args | LStack addr create_args
  | LTask addr addr create_args | LFreeStack addr addr create_args | LFreeThread addr create_args
  | LOut addr create_args | LCreated ret create_args
  | LReturn addr "addr ptr" | LJoin addr
  | LThread tpc
  | LFault

text \<open>
  What the kernel and the application know beside the library's state: the threads whose
  task has been started and whose function has not returned, the joinable threads that are
  through \<open>exit_thread\<close> and that nobody joins, and the last value returned by the function of
  each thread.
\<close>

record ('s, 'm, 'k, 'h) life =
  lw :: "('s, 'm, 'k, 'h) tworld"
  running :: "addr set"
  over :: "addr set"
  value_of :: "addr \<Rightarrow> addr ptr"

definition with_thread ::
    "('s, 'm, 'k, 'h) life \<Rightarrow> addr \<Rightarrow>
       (('s, 'm) pthread_internal \<Rightarrow> (('s, 'm, 'k, 'h) life \<times> lpc) option) \<Rightarrow>
       (('s, 'm, 'k, 'h) life \<times> lpc) option" where
  "with_thread sh th f =
     (case tobj (lw sh) th of None \<Rightarrow> Some (sh, LThread TFault) | Some obj \<Rightarrow> f obj)"

fun ended_by :: "tpc \<Rightarrow> tpc \<Rightarrow> addr set" where
  "ended_by (XGet th) (TDone r v) = {th}"
| "ended_by _ _ = {}"

text \<open>\<open>pthread_create\<close>: the steps of \<open>create_object\<close>, \<open>fill_object\<close> and \<open>start_task\<close>.\<close>

fun create_code ::
    "('t, 's, 'm, 'k, 'h) thread_env \<Rightarrow> ('s, 'm, 'k, 'h) life \<Rightarrow> lpc \<Rightarrow>
       (('s, 'm, 'k, 'h) life \<times> lpc) option" where
  "create_code e sh (LObject c) =
     (case create_object e (c_err c) (lw sh) of
        Returns (ret, Some th, err, w) \<Rightarrow> Some (sh\<lparr>lw := w\<rparr>, LFill th (c\<lparr>c_err := err\<rparr>))
      | Returns (ret, None, err, w) \<Rightarrow> Some (sh\<lparr>lw := w\<rparr>, LCreated (Err EAGAIN) (c\<lparr>c_err := err\<rparr>))
      | _ \<Rightarrow> Some (sh, LFault))"
| "create_code e sh (LFill th c) =
     with_thread sh th (\<lambda>obj. Some (sh\<lparr>lw := (lw sh)\<lparr>tobj := (tobj (lw sh))(th \<mapsto>
       fill_object e (c_attr c) (c_fn c) (c_arg c) obj)\<rparr>\<rparr>, LStack th c))"
| "create_code e sh (LStack th c) =
     with_thread sh th (\<lambda>obj.
       case create_stack e th obj (lw sh) of
         Returns (Some st, w) \<Rightarrow> Some (sh\<lparr>lw := w\<rparr>, LTask th st c)
       | Returns (None, w) \<Rightarrow> Some (sh\<lparr>lw := w\<rparr>, LFreeThread th c)
       | _ \<Rightarrow> Some (sh, LFault))"
| "create_code e sh (LTask th st c) =
     with_thread sh th (\<lambda>obj.
       case create_task e th st obj (lw sh) of
         (r, w) \<Rightarrow>
           if r \<noteq> 0 then Some (sh\<lparr>lw := w\<rparr>, LFreeStack th st c)
           else Some (sh\<lparr>lw := w, running := insert th (running sh)\<rparr>, LOut th c))"
| "create_code e sh (LFreeStack th st c) =
     (case free_stack e (Some st) (lw sh) of
        Returns w \<Rightarrow> Some (sh\<lparr>lw := w\<rparr>, LFreeThread th c) | _ \<Rightarrow> Some (sh, LFault))"
| "create_code e sh (LFreeThread th c) =
     (case free_thread e th (lw sh) of
        Returns w \<Rightarrow> Some (sh\<lparr>lw := w\<rparr>, LCreated (Err EAGAIN) c) | _ \<Rightarrow> Some (sh, LFault))"
| "create_code e sh (LOut th c) = Some (sh, LCreated OK (c\<lparr>c_out := Some th\<rparr>))"
| "create_code e sh _ = None"

text \<open>
  All calls. A thread's function returns in the task of that thread, once it has been started; the
  application joins a thread that is over, from a task other than the thread's.
\<close>

fun life_code ::
    "('t, 's, 'm, 'k, 'h) thread_env \<Rightarrow> 't \<Rightarrow> ('s, 'm, 'k, 'h) life \<Rightarrow> lpc \<Rightarrow>
       (('s, 'm, 'k, 'h) life \<times> lpc) option" where
  "life_code e t sh (LReturn th v) =
     (if th \<in> running sh \<and> pthread_self e t = Some th
      then Some (sh\<lparr>running := running sh - {th}, value_of := (value_of sh)(th := v)\<rparr>, LThread (XRet th v))
      else None)"
| "life_code e t sh (LJoin th) =
     (if th \<in> over sh \<and> pthread_self e t \<noteq> Some th
      then Some (sh\<lparr>over := over sh - {th}\<rparr>, LThread (JTest th)) else None)"
| "life_code e t sh (LThread p) =
     (case thread_code e t (lw sh) p of
        None \<Rightarrow> None
      | Some (w, q) \<Rightarrow> Some (sh\<lparr>lw := w, over := ended_by p q \<union> over sh\<rparr>, LThread q))"
| "life_code e t sh pc = create_code e sh pc"

text \<open>A call ends with its result and, where it created a thread, the caller's variables.\<close>

datatype life_reply = Created ret "addr ptr" "errno option" | Ended ret "addr ptr"

fun life_entry :: "lpc \<Rightarrow> bool" where
  "life_entry (LObject c) \<longleftrightarrow> True"
| "life_entry (LReturn th v) \<longleftrightarrow> True"
| "life_entry (LJoin th) \<longleftrightarrow> True"
| "life_entry _ \<longleftrightarrow> False"

fun life_result :: "lpc \<Rightarrow> life_reply option" where
  "life_result (LCreated r c) = Some (Created r (c_out c) (c_err c))"
| "life_result (LThread (TDone r v)) = Some (Ended r v)"
| "life_result _ = None"

fun_cases life_entryE: "life_entry pc"

fun_cases life_resultE: "life_result pc = Some r"

definition life_program ::
    "('t, 's, 'm, 'k, 'h) thread_env \<Rightarrow> ('t, ('s, 'm, 'k, 'h) life, lpc, life_reply) program" where
  "life_program e =
     \<lparr>code = life_code e, expire = (\<lambda>_ _ _. None), entry = life_entry, idle = LIdle,
      result = life_result\<rparr>"

lemma life_program_sel [simp]:
  "code (life_program e) = life_code e" "expire (life_program e) = (\<lambda>_ _ _. None)"
  "entry (life_program e) = life_entry" "idle (life_program e) = LIdle"
  "result (life_program e) = life_result"
  by (simp_all add: life_program_def)

type_synonym ('t, 's, 'm, 'k, 'h) life_state = "('t, ('s, 'm, 'k, 'h) life, lpc, life_reply) threads"

section \<open>A reference run\<close>

text \<open>
  Task 1 creates a detached thread (at 7) and task 2 a joinable one (at 9); both return, and
  task 3 joins the second.
\<close>

definition ref_life :: "nat \<Rightarrow> (nat, nat, nat option, unit, ref_heap) life_state" where
  "ref_life n = \<lparr>shared = \<lparr>lw = ref_tworld n, running = {}, over = {}, value_of = (\<lambda>_. None)\<rparr>,
     pc_of = (\<lambda>_. LIdle), returned = []\<rparr>"

definition ref_creation :: "16 word \<Rightarrow> create_args" where
  "ref_creation st = \<lparr>c_attr = Some \<lparr>stack_sz = 1024, status = st\<rparr>, c_fn = Some 5, c_arg = None,
     c_out = None, c_err = None\<rparr>"

abbreviation ref_run :: "nat \<Rightarrow> lpc \<Rightarrow> nat \<Rightarrow> (nat, lpc) action list" where
  "ref_run t p n \<equiv> Call t p # replicate n (Move t)"

definition ref_lives :: "(nat, lpc) action list" where
  "ref_lives = ref_run 1 (LObject (ref_creation 6)) 5 @ ref_run 2 (LObject (ref_creation 32774)) 5 @
     [Return 1, Return 2] @ ref_run 7 (LReturn 7 (Some 55)) 5 @ ref_run 9 (LReturn 9 (Some 66)) 5"

section \<open>Properties\<close>

text \<open>
  A creation that is not interrupted is \<open>pthread_create\<close>. Six steps of a task that starts one
  end it with the result, the caller's variable, \<open>errno\<close> and the memory that the function gives, with one more
  thread running if it succeeds, and at a fault if the function faults.
\<close>

theorem pthread_create_alone:
  assumes "pc_of s t = LIdle"
    and "s' = run_schedule (life_program e) (Call t (LObject c) # replicate 6 (Move t)) s"
  shows "(case pthread_create e (c_attr c) (c_fn c) (c_arg c) (c_out c) (c_err c) (lw (shared s)) of
      Returns (ret, out, err, w) \<Rightarrow>
        pc_of s' t = LCreated ret (c\<lparr>c_out := out, c_err := err\<rparr>) \<and> lw (shared s') = w \<and>
        (\<forall>u. u \<noteq> t \<longrightarrow> pc_of s' u = pc_of s u) \<and> over (shared s') = over (shared s) \<and>
        running (shared s') = (if ret = OK then {the out} else {}) \<union> running (shared s)
    | _ \<Rightarrow> pc_of s' t = LFault)"
proof -
  have six: "replicate 6 (Move t) = [Move t, Move t, Move t, Move t, Move t, Move t]"
    by (simp add: eval_nat_numeral)
  show ?thesis
    unfolding assms(2) six
    by (simp add: assms(1) pthread_create_def create_object_def start_task_defs free_stack_def
        free_thread_def posix_free_def with_thread_def Let_def split: option.split prod.split)
qed

theorem pthread_create_alone_witness:
  "let s' = run_schedule (life_program ref_thread_env) (ref_run 1 (LObject (ref_creation 6)) 6) (ref_life 4)
   in \<exists>w. pthread_create ref_thread_env (c_attr (ref_creation 6)) (c_fn (ref_creation 6))
       (c_arg (ref_creation 6)) (c_out (ref_creation 6)) (c_err (ref_creation 6)) (ref_tworld 4) =
      Returns (OK, Some 7, None, w) \<and> lw (shared s') = w \<and> 7 \<in> running (shared s')"
proof -
  let ?s = "ref_life 4"
  let ?s' = "run_schedule (life_program ref_thread_env) (ref_run 1 (LObject (ref_creation 6)) 6) ?s"
  have "pc_of ?s 1 = LIdle" "lw (shared ?s) = ref_tworld 4" by (simp_all add: ref_life_def)
  note alone = pthread_create_alone [OF this(1) refl, of ref_thread_env "ref_creation 6", unfolded this(2)]
  obtain w where "pthread_create ref_thread_env (c_attr (ref_creation 6)) (c_fn (ref_creation 6))
      (c_arg (ref_creation 6)) (c_out (ref_creation 6)) (c_err (ref_creation 6)) (ref_tworld 4) =
      Returns (OK, Some 7, None, w)"
    by (simp add: ref_creation_def pthread_create_def create_object_def start_task_defs ref_thread_env_def
        ref_tworld_def ref_alloc_def Let_def)
  with alone show ?thesis by (simp del: run_schedule.simps replicate.simps add: Let_def)
qed

end
