(* ===== verification/Thread_Memory.thy ===== *)
theory Thread_Memory
  imports Thread_Life
begin

text \<open>
  What holds of \<open>Thread_Life\<close> under the discipline stated there: who holds a thread object, which
  blocks of memory are in use, and that joins do not block. Each step concerns one
  thread object; the invariant is stated for one address, with lemmas for the steps that take,
  keep, hand over, make and release an object.
\<close>

section \<open>Who holds a thread object\<close>

fun t_holds :: "tpc \<Rightarrow> addr option" where
  "t_holds (XRet th v) = Some th"
| "t_holds (XTest th) = Some th"
| "t_holds (XPost th) = Some th"
| "t_holds (XGet th) = Some th"
| "t_holds (XFreeStack th) = Some th"
| "t_holds (XFreeThread th) = Some th"
| "t_holds (JTest th) = Some th"
| "t_holds (JLock th) = Some th"
| "t_holds (JSelf th) = Some th"
| "t_holds (JGet th) = Some th"
| "t_holds (JPost th) = Some th"
| "t_holds (JUnlock th) = Some th"
| "t_holds (JRet th) = Some th"
| "t_holds (JFreeStack th v) = Some th"
| "t_holds (JFreeThread th v) = Some th"
| "t_holds _ = None"

fun holds :: "lpc \<Rightarrow> addr option" where
  "holds (LFill th c) = Some th"
| "holds (LStack th c) = Some th"
| "holds (LTask th st c) = Some th"
| "holds (LFreeStack th st c) = Some th"
| "holds (LFreeThread th c) = Some th"
| "holds (LThread p) = t_holds p"
| "holds _ = None"

text \<open>The points of a join.\<close>

fun joining :: "lpc \<Rightarrow> addr option" where
  "joining (LThread (JTest th)) = Some th"
| "joining (LThread (JLock th)) = Some th"
| "joining (LThread (JSelf th)) = Some th"
| "joining (LThread (JGet th)) = Some th"
| "joining (LThread (JPost th)) = Some th"
| "joining (LThread (JUnlock th)) = Some th"
| "joining (LThread (JRet th)) = Some th"
| "joining (LThread (JFreeStack th v)) = Some th"
| "joining (LThread (JFreeThread th v)) = Some th"
| "joining _ = None"

lemma joining_holds: "joining pc = Some th \<Longrightarrow> holds pc = Some th"
  by (cases pc rule: joining.cases) simp_all

text \<open>The points at which the object has no stack: before it is allocated and after its release.\<close>

fun stack_gone :: "lpc \<Rightarrow> bool" where
  "stack_gone (LFill th c) \<longleftrightarrow> True"
| "stack_gone (LStack th c) \<longleftrightarrow> True"
| "stack_gone (LFreeThread th c) \<longleftrightarrow> True"
| "stack_gone (LThread (XFreeThread th)) \<longleftrightarrow> True"
| "stack_gone (LThread (JFreeThread th v)) \<longleftrightarrow> True"
| "stack_gone _ \<longleftrightarrow> False"

text \<open>
  An object whose synchronisation is set up; one that a thread may run with; and one of a
  joinable thread that is over and has returned \<open>v\<close>.
\<close>

definition set_up :: "('t, 's, 'm, 'k, 'h) thread_env \<Rightarrow> ('s, 'm) pthread_internal \<Rightarrow> bool" where
  "set_up e obj \<longleftrightarrow> (STATUS_JOINABLE (status (t_attr obj)) \<longrightarrow>
     t_mux obj = mut_init (t_muts e) \<and> t_barrier obj = sem_init (t_sems e) 1 \<and>
     t_joined obj = sem_init (t_sems e) 1)"

definition posted :: "('t, 's, 'm, 'k, 'h) thread_env \<Rightarrow> ('s, 'm) pthread_internal \<Rightarrow> bool" where
  "posted e obj \<longleftrightarrow> t_stack obj \<noteq> None \<and> t_barrier obj = sem_post (t_sems e) (sem_init (t_sems e) 1)"

definition finished ::
    "('t, 's, 'm, 'k, 'h) thread_env \<Rightarrow> addr ptr \<Rightarrow> ('s, 'm) pthread_internal \<Rightarrow> bool" where
  "finished e v obj \<longleftrightarrow> posted e obj \<and> STATUS_JOINABLE (status (t_attr obj)) \<and>
     t_mux obj = mut_init (t_muts e) \<and> t_ret obj = v"

text \<open>What is known of the object at each point of the task \<open>t\<close> that holds it.\<close>

fun t_point_ok ::
    "('t, 's, 'm, 'k, 'h) thread_env \<Rightarrow> 't \<Rightarrow> addr ptr \<Rightarrow> tpc \<Rightarrow> ('s, 'm) pthread_internal \<Rightarrow> bool" where
  "t_point_ok e t v (XRet th w) obj \<longleftrightarrow> w = v \<and> t_stack obj \<noteq> None \<and> set_up e obj"
| "t_point_ok e t v (XTest th) obj \<longleftrightarrow> t_ret obj = v \<and> t_stack obj \<noteq> None \<and> set_up e obj"
| "t_point_ok e t v (XPost th) obj \<longleftrightarrow>
     t_ret obj = v \<and> t_stack obj \<noteq> None \<and> set_up e obj \<and> STATUS_JOINABLE (status (t_attr obj))"
| "t_point_ok e t v (XGet th) obj \<longleftrightarrow> finished e v obj \<and> t_joined obj = sem_init (t_sems e) 1"
| "t_point_ok e t v (XFreeStack th) obj \<longleftrightarrow> t_stack obj \<noteq> None"
| "t_point_ok e t v (JTest th) obj \<longleftrightarrow> finished e v obj \<and> pthread_self e t \<noteq> Some th"
| "t_point_ok e t v (JLock th) obj \<longleftrightarrow> finished e v obj \<and> pthread_self e t \<noteq> Some th"
| "t_point_ok e t v (JSelf th) obj \<longleftrightarrow> posted e obj \<and> t_ret obj = v \<and> pthread_self e t \<noteq> Some th"
| "t_point_ok e t v (JGet th) obj \<longleftrightarrow> posted e obj \<and> t_ret obj = v"
| "t_point_ok e t v (JPost th) obj \<longleftrightarrow> t_stack obj \<noteq> None \<and> t_ret obj = v"
| "t_point_ok e t v (JUnlock th) obj \<longleftrightarrow> t_stack obj \<noteq> None \<and> t_ret obj = v"
| "t_point_ok e t v (JRet th) obj \<longleftrightarrow> t_stack obj \<noteq> None \<and> t_ret obj = v"
| "t_point_ok e t v (JFreeStack th w) obj \<longleftrightarrow> t_stack obj \<noteq> None \<and> w = v"
| "t_point_ok e t v (JFreeThread th w) obj \<longleftrightarrow> w = v"
| "t_point_ok e t v _ obj \<longleftrightarrow> True"

fun point_ok ::
    "('t, 's, 'm, 'k, 'h) thread_env \<Rightarrow> 't \<Rightarrow> addr ptr \<Rightarrow> lpc \<Rightarrow> ('s, 'm) pthread_internal \<Rightarrow> bool" where
  "point_ok e t v (LStack th c) obj \<longleftrightarrow> set_up e obj"
| "point_ok e t v (LTask th st c) obj \<longleftrightarrow> t_stack obj = Some st \<and> set_up e obj"
| "point_ok e t v (LFreeStack th st c) obj \<longleftrightarrow> t_stack obj = Some st"
| "point_ok e t v (LThread p) obj \<longleftrightarrow> t_point_ok e t v p obj"
| "point_ok e t v _ obj \<longleftrightarrow> True"

definition owners :: "('t \<Rightarrow> lpc) \<Rightarrow> addr \<Rightarrow> 't set" where
  "owners pcs th = {t. holds (pcs t) = Some th}"

lemma owners_upd:
  "owners (pcs(t := p)) th = (if holds p = Some th then insert t (owners pcs th) else owners pcs th - {t})"
  by (auto simp: owners_def)

text \<open>An object is held by one task, or its thread runs, or its thread is over.\<close>

definition place_ok ::
    "('t, 's, 'm, 'k, 'h) thread_env \<Rightarrow> ('s, 'm, 'k, 'h) life \<Rightarrow> ('t \<Rightarrow> lpc) \<Rightarrow> addr \<Rightarrow> bool" where
  "place_ok e sh pcs th \<longleftrightarrow>
     (case tobj (lw sh) th of
        None \<Rightarrow> owners pcs th = {} \<and> th \<notin> running sh \<and> th \<notin> over sh
      | Some obj \<Rightarrow>
          (\<exists>t. owners pcs th = {t} \<and> th \<notin> running sh \<and> th \<notin> over sh \<and>
             point_ok e t (value_of sh th) (pcs t) obj) \<or>
          (owners pcs th = {} \<and> th \<in> running sh \<and> th \<notin> over sh \<and> t_stack obj \<noteq> None \<and> set_up e obj) \<or>
          (owners pcs th = {} \<and> th \<notin> running sh \<and> th \<in> over sh \<and> finished e (value_of sh th) obj))"

text \<open>The stack of a thread object, as long as it is allocated.\<close>

definition own_stack :: "('s, 'm, 'k, 'h) life \<Rightarrow> ('t \<Rightarrow> lpc) \<Rightarrow> addr \<Rightarrow> addr option" where
  "own_stack sh pcs th =
     (case tobj (lw sh) th of
        None \<Rightarrow> None
      | Some obj \<Rightarrow> if \<exists>t\<in>owners pcs th. stack_gone (pcs t) then None else t_stack obj)"

section \<open>The memory of thread objects and stacks\<close>

definition thread_blocks :: "addr set \<Rightarrow> (addr \<Rightarrow> addr option) \<Rightarrow> (posix_obj \<times> addr) set" where
  "thread_blocks D S = Pair POSIX_THREAD ` D \<union> Pair POSIX_STACK ` ran S"

text \<open>
  The blocks in use are those of \<open>base\<close>, the objects and the stacks, all different.
\<close>

definition mem_ok ::
    "(posix_obj \<times> addr) set \<Rightarrow> (posix_obj \<times> addr) set \<Rightarrow> addr set \<Rightarrow> (addr \<Rightarrow> addr option) \<Rightarrow> bool" where
  "mem_ok L base D S \<longleftrightarrow> L = base \<union> thread_blocks D S \<and> base \<inter> thread_blocks D S = {} \<and>
     dom S \<subseteq> D \<and> (\<forall>a b st. S a = Some st \<longrightarrow> S b = Some st \<longrightarrow> a = b)"

lemma mem_new_thread:
  "mem_ok L base D S \<Longrightarrow> (POSIX_THREAD, th) \<notin> L \<Longrightarrow> mem_ok (insert (POSIX_THREAD, th) L) base (insert th D) S"
  by (auto simp: mem_ok_def thread_blocks_def)

lemma mem_new_stack:
  assumes "mem_ok L base D S" and "(POSIX_STACK, st) \<notin> L" and "th \<in> D" and "S th = None"
  shows "mem_ok (insert (POSIX_STACK, st) L) base D (S(th \<mapsto> st))"
proof -
  have "ran (S(th \<mapsto> st)) = insert st (ran S)" using assms(4) by simp
  with assms(1-3) show ?thesis
    by (auto simp: mem_ok_def thread_blocks_def image_iff ran_def)
qed

lemma mem_free_stack:
  assumes "mem_ok L base D S" and "S th = Some st"
  shows "mem_ok (L - {(POSIX_STACK, st)}) base D (S(th := None))"
proof -
  have inj: "\<forall>a b st. S a = Some st \<longrightarrow> S b = Some st \<longrightarrow> a = b" using assms(1) by (simp add: mem_ok_def)
  have "ran (S(th := None)) = ran S - {st}"
    using inj assms(2) unfolding ran_def by (auto split: if_splits) (metis option.inject)
  moreover have "st \<in> ran S" using assms(2) by (rule ranI)
  ultimately show ?thesis
    using assms(1) by (auto simp: mem_ok_def thread_blocks_def image_iff)
qed

lemma mem_free_thread:
  "mem_ok L base D S \<Longrightarrow> th \<in> D \<Longrightarrow> S th = None \<Longrightarrow> mem_ok (L - {(POSIX_THREAD, th)}) base (D - {th}) S"
  by (auto simp: mem_ok_def thread_blocks_def image_iff domIff)

section \<open>The invariant\<close>

type_synonym ('t, 's, 'm, 'k, 'h) life_sys =
  "('t, 's, 'm, 'k, 'h) thread_env \<times> ('h \<Rightarrow> (posix_obj \<times> addr) set) \<times> (posix_obj \<times> addr) set"

definition mem_of ::
    "('h \<Rightarrow> (posix_obj \<times> addr) set) \<Rightarrow> (posix_obj \<times> addr) set \<Rightarrow> ('s, 'm, 'k, 'h) life \<Rightarrow> ('t \<Rightarrow> lpc) \<Rightarrow> bool" where
  "mem_of live base sh pcs \<longleftrightarrow> mem_ok (live (heap (lw sh))) base (dom (tobj (lw sh))) (own_stack sh pcs)"

fun life_ok :: "('t, 's, 'm, 'k, 'h) life_sys \<Rightarrow> bool" where
  "life_ok (e, live, base) \<longleftrightarrow> (\<exists>al fr. thread_env_ok live al fr e)"

text \<open>At the start there is no thread object and no task is in a call.\<close>

fun life_start :: "('t, 's, 'm, 'k, 'h) life_sys \<Rightarrow> ('t, 's, 'm, 'k, 'h) life_state \<Rightarrow> bool" where
  "life_start (e, live, base) s \<longleftrightarrow> pc_of s = (\<lambda>_. LIdle) \<and> tobj (lw (shared s)) = Map.empty \<and>
     running (shared s) = {} \<and> over (shared s) = {} \<and> live (heap (lw (shared s))) = base"

fun life_inv :: "('t, 's, 'm, 'k, 'h) life_sys \<Rightarrow> ('t, 's, 'm, 'k, 'h) life_state \<Rightarrow> bool" where
  "life_inv (e, live, base) s \<longleftrightarrow> (\<forall>th. place_ok e (shared s) (pc_of s) th) \<and>
     mem_of live base (shared s) (pc_of s) \<and> (\<forall>t. pc_of s t \<notin> {LThread TFault, LThread TIdle})"

lemma life_invD:
  assumes "life_inv (e, live, base) s"
  shows "place_ok e (shared s) (pc_of s) th" and "mem_of live base (shared s) (pc_of s)"
    and "pc_of s t \<notin> {LThread TFault, LThread TIdle}"
  using assms by simp_all

lemma life_invI:
  "(\<And>th. place_ok e (shared s) (pc_of s) th) \<Longrightarrow> mem_of live base (shared s) (pc_of s) \<Longrightarrow>
     (\<And>t. pc_of s t \<notin> {LThread TFault, LThread TIdle}) \<Longrightarrow> life_inv (e, live, base) s"
  by auto

declare life_inv.simps [simp del]

text \<open>A step of one task concerns one address; elsewhere the state is as it was.\<close>

definition agree_off :: "addr \<Rightarrow> ('s, 'm, 'k, 'h) life \<Rightarrow> ('s, 'm, 'k, 'h) life \<Rightarrow> bool" where
  "agree_off a sh sh' \<longleftrightarrow> (\<forall>th. th \<noteq> a \<longrightarrow> tobj (lw sh') th = tobj (lw sh) th \<and>
     (th \<in> running sh' \<longleftrightarrow> th \<in> running sh) \<and> (th \<in> over sh' \<longleftrightarrow> th \<in> over sh) \<and>
     value_of sh' th = value_of sh th)"

lemma owners_frame:
  assumes "holds (pcs t) \<in> {None, Some a}" and "holds q \<in> {None, Some a}" and "th \<noteq> a"
  shows "owners (pcs(t := q)) th = owners pcs th" and "t \<notin> owners pcs th"
  using assms by (auto simp: owners_def)

lemma place_frame:
  assumes "agree_off a sh sh'" and "holds (pcs t) \<in> {None, Some a}" and "holds q \<in> {None, Some a}"
    and "th \<noteq> a" and "place_ok e sh pcs th"
  shows "place_ok e sh' (pcs(t := q)) th"
proof -
  note own = owners_frame [where pcs = pcs and t = t, OF assms(2-4)]
  have "tobj (lw sh') th = tobj (lw sh) th" "th \<in> running sh' \<longleftrightarrow> th \<in> running sh"
    "th \<in> over sh' \<longleftrightarrow> th \<in> over sh" "value_of sh' th = value_of sh th"
    using assms(1,4) by (simp_all add: agree_off_def)
  moreover have "(pcs(t := q)) u = pcs u" if "owners pcs th = {u}" for u
    using that own(2) by auto
  ultimately show ?thesis
    using assms(5) unfolding place_ok_def own(1) by (simp split: option.splits) metis
qed

lemma own_stack_frame:
  assumes "agree_off a sh sh'" and "holds (pcs t) \<in> {None, Some a}" and "holds q \<in> {None, Some a}"
  shows "own_stack sh' (pcs(t := q)) = (own_stack sh pcs)(a := own_stack sh' (pcs(t := q)) a)"
proof (rule ext)
  fix th
  show "own_stack sh' (pcs(t := q)) th = ((own_stack sh pcs)(a := own_stack sh' (pcs(t := q)) a)) th"
  proof (cases "th = a")
    case True
    then show ?thesis by simp
  next
    case False
    note own = owners_frame [where pcs = pcs and t = t, OF assms(2,3) False]
    have "tobj (lw sh') th = tobj (lw sh) th" using assms(1) False by (simp add: agree_off_def)
    moreover have "(\<exists>u\<in>owners pcs th. stack_gone ((pcs(t := q)) u)) \<longleftrightarrow> (\<exists>u\<in>owners pcs th. stack_gone (pcs u))"
      using own(2) by (intro bex_cong) auto
    ultimately show ?thesis using False unfolding own_stack_def own(1)
      by (cases "tobj (lw sh) th") simp_all
  qed
qed

lemma life_step_at:
  assumes "life_inv (e, live, base) s" and "agree_off a (shared s) sh'"
    and "holds (pc_of s t) \<in> {None, Some a}" and "holds q \<in> {None, Some a}" and "q \<notin> {LThread TFault, LThread TIdle}"
    and "place_ok e sh' ((pc_of s)(t := q)) a"
    and "own_stack sh' ((pc_of s)(t := q)) a = st"
    and "mem_ok (live (heap (lw sh'))) base (dom (tobj (lw sh'))) ((own_stack (shared s) (pc_of s))(a := st))"
  shows "life_inv (e, live, base) (s\<lparr>shared := sh', pc_of := (pc_of s)(t := q)\<rparr>)"
proof -
  have "place_ok e sh' ((pc_of s)(t := q)) th" for th
  proof (cases "th = a")
    case True
    with assms(6) show ?thesis by simp
  next
    case False
    from place_frame [where pcs = "pc_of s" and t = t, OF assms(2-4) False life_invD(1) [OF assms(1)]]
    show ?thesis .
  qed
  moreover have "mem_of live base sh' ((pc_of s)(t := q))"
    using assms(8) own_stack_frame [where pcs = "pc_of s" and t = t, OF assms(2-4)]
    unfolding mem_of_def assms(7) by simp
  moreover have "((pc_of s)(t := q)) u \<notin> {LThread TFault, LThread TIdle}" for u
    using assms(5) life_invD(3) [OF assms(1), of u] by simp
  ultimately show ?thesis by (intro life_invI) simp_all
qed

text \<open>What the invariant says of the object that a task holds, and of objects nobody holds.\<close>

lemma held_object:
  assumes "life_inv (e, live, base) s" and "holds (pc_of s t) = Some a"
  obtains obj where "tobj (lw (shared s)) a = Some obj" and "owners (pc_of s) a = {t}"
    and "a \<notin> running (shared s)" and "a \<notin> over (shared s)"
    and "point_ok e t (value_of (shared s) a) (pc_of s t) obj"
proof -
  have t: "t \<in> owners (pc_of s) a" using assms(2) by (simp add: owners_def)
  have "place_ok e (shared s) (pc_of s) a" by (rule life_invD(1)) fact
  with t show thesis
    unfolding place_ok_def by (auto split: option.splits intro: that)
qed

lemma running_object:
  assumes "life_inv (e, live, base) s" and "a \<in> running (shared s)"
  obtains obj where "tobj (lw (shared s)) a = Some obj" and "owners (pc_of s) a = {}"
    and "a \<notin> over (shared s)" and "t_stack obj \<noteq> None" and "set_up e obj"
proof -
  have "place_ok e (shared s) (pc_of s) a" by (rule life_invD(1)) fact
  with assms(2) show thesis unfolding place_ok_def by (auto split: option.splits intro: that)
qed

lemma over_object:
  assumes "life_inv (e, live, base) s" and "a \<in> over (shared s)"
  obtains obj where "tobj (lw (shared s)) a = Some obj" and "owners (pc_of s) a = {}"
    and "a \<notin> running (shared s)" and "finished e (value_of (shared s) a) obj"
proof -
  have "place_ok e (shared s) (pc_of s) a" by (rule life_invD(1)) fact
  with assms(2) show thesis unfolding place_ok_def by (auto split: option.splits intro: that)
qed

lemma own_stack_held:
  assumes "owners pcs a = {t}" and "tobj (lw sh) a = Some obj"
  shows "own_stack sh pcs a = (if stack_gone (pcs t) then None else t_stack obj)"
  using assms by (simp add: own_stack_def)

lemma own_stack_parked:
  assumes "owners pcs a = {}"
  shows "own_stack sh pcs a = (case tobj (lw sh) a of None \<Rightarrow> None | Some obj \<Rightarrow> t_stack obj)"
  using assms by (simp add: own_stack_def split: option.split)

section \<open>The steps\<close>

text \<open>A step of the task that holds an object, and goes on holding it.\<close>

lemma step_keep:
  assumes "life_inv (e, live, base) s" and "holds (pc_of s t) = Some a" and "holds q = Some a"
    and "tobj (lw sh') = (tobj (lw (shared s)))(a \<mapsto> obj')" and "running sh' = running (shared s)"
    and "over sh' = over (shared s)" and "value_of sh' = value_of (shared s)"
    and "point_ok e t (value_of (shared s) a) q obj'"
    and "mem_ok (live (heap (lw sh'))) base (dom (tobj (lw (shared s))))
      ((own_stack (shared s) (pc_of s))(a := if stack_gone q then None else t_stack obj'))"
  shows "life_inv (e, live, base) (s\<lparr>shared := sh', pc_of := (pc_of s)(t := q)\<rparr>)"
proof -
  obtain obj where obj: "tobj (lw (shared s)) a = Some obj" "owners (pc_of s) a = {t}"
    "a \<notin> running (shared s)" "a \<notin> over (shared s)"
    using assms(1,2) by (rule held_object)
  have own: "owners ((pc_of s)(t := q)) a = {t}" using obj(2) assms(3) by (simp add: owners_upd)
  have "agree_off a (shared s) sh'" using assms(4-7) by (simp add: agree_off_def)
  moreover have "place_ok e sh' ((pc_of s)(t := q)) a"
    using own obj assms(4-8) by (simp add: place_ok_def)
  moreover have "own_stack sh' ((pc_of s)(t := q)) a = (if stack_gone q then None else t_stack obj')"
    using own_stack_held [OF own, of sh' obj'] assms(4) by simp
  moreover have "dom (tobj (lw sh')) = dom (tobj (lw (shared s)))" using obj(1) assms(4) by auto
  moreover have "q \<notin> {LThread TFault, LThread TIdle}" using assms(3) by auto
  ultimately show ?thesis using assms(1-3,9) by (intro life_step_at [where a = a]) (simp_all add: mem_of_def)
qed

lemma step_same:
  assumes "life_inv (e, live, base) s" and "holds (pc_of s t) = Some a" and "holds q = Some a"
    and "tobj (lw (shared s)) a = Some obj" and "tobj (lw sh') = (tobj (lw (shared s)))(a \<mapsto> obj')"
    and "heap (lw sh') = heap (lw (shared s))" and "running sh' = running (shared s)"
    and "over sh' = over (shared s)" and "value_of sh' = value_of (shared s)"
    and "point_ok e t (value_of (shared s) a) q obj'" and "stack_gone q \<longleftrightarrow> stack_gone (pc_of s t)"
    and "stack_gone q \<or> t_stack obj' = t_stack obj"
  shows "life_inv (e, live, base) (s\<lparr>shared := sh', pc_of := (pc_of s)(t := q)\<rparr>)"
proof (rule step_keep [OF assms(1-3,5,7-10)])
  obtain ob where "tobj (lw (shared s)) a = Some ob" "owners (pc_of s) a = {t}"
    using assms(1,2) by (rule held_object)
  with own_stack_held [OF this(2,1)] assms(4,11,12)
  have "own_stack (shared s) (pc_of s) a = (if stack_gone q then None else t_stack obj')" by auto
  then have "(own_stack (shared s) (pc_of s))(a := if stack_gone q then None else t_stack obj') =
      own_stack (shared s) (pc_of s)"
    by (rule fun_upd_idem)
  moreover have "mem_of live base (shared s) (pc_of s)" by (rule life_invD(2)) fact
  ultimately show "mem_ok (live (heap (lw sh'))) base (dom (tobj (lw (shared s))))
      ((own_stack (shared s) (pc_of s))(a := if stack_gone q then None else t_stack obj'))"
    by (simp add: mem_of_def assms(6))
qed

text \<open>A step with which a task hands over the object it holds: its thread runs, or is over.\<close>

lemma step_park:
  assumes "life_inv (e, live, base) s" and "holds (pc_of s t) = Some a" and "holds q = None"
    and "q \<notin> {LThread TFault, LThread TIdle}" and "tobj (lw (shared s)) a = Some obj"
    and "tobj (lw sh') = (tobj (lw (shared s)))(a \<mapsto> obj')" and "heap (lw sh') = heap (lw (shared s))"
    and "value_of sh' = value_of (shared s)" and "\<not> stack_gone (pc_of s t)" and "t_stack obj' = t_stack obj"
    and "running sh' = insert a (running (shared s)) \<and> over sh' = over (shared s) \<and>
        t_stack obj' \<noteq> None \<and> set_up e obj' \<or>
      running sh' = running (shared s) \<and> over sh' = insert a (over (shared s)) \<and>
        finished e (value_of (shared s) a) obj'"
  shows "life_inv (e, live, base) (s\<lparr>shared := sh', pc_of := (pc_of s)(t := q)\<rparr>)"
proof -
  obtain ob where ob: "tobj (lw (shared s)) a = Some ob" "owners (pc_of s) a = {t}"
    "a \<notin> running (shared s)" "a \<notin> over (shared s)"
    using assms(1,2) by (rule held_object)
  have own: "owners ((pc_of s)(t := q)) a = {}" using ob(2) assms(3) by (simp add: owners_upd)
  have "agree_off a (shared s) sh'" using assms(6,8,11) by (auto simp: agree_off_def)
  moreover have "place_ok e sh' ((pc_of s)(t := q)) a"
    using own ob(3,4) assms(6,8,11) by (auto simp: place_ok_def)
  moreover have "own_stack sh' ((pc_of s)(t := q)) a = own_stack (shared s) (pc_of s) a"
    using own_stack_parked [OF own, of sh'] own_stack_held [OF ob(2,1)] assms(5,6,9,10) ob(1) by simp
  moreover have "dom (tobj (lw sh')) = dom (tobj (lw (shared s)))" using ob(1) assms(6) by auto
  moreover have "mem_ok (live (heap (lw (shared s)))) base (dom (tobj (lw (shared s))))
      ((own_stack (shared s) (pc_of s))(a := own_stack (shared s) (pc_of s) a))"
    using life_invD(2) [OF assms(1)] by (simp add: mem_of_def)
  ultimately show ?thesis
    using assms(1-4,7)
    by (intro life_step_at [where a = a and st = "own_stack (shared s) (pc_of s) a"]) (simp_all del: fun_upd_triv)
qed

text \<open>The release of an object.\<close>

lemma step_gone:
  assumes "life_inv (e, live, base) s" and "holds (pc_of s t) = Some a" and "holds q = None"
    and "q \<notin> {LThread TFault, LThread TIdle}" and "tobj (lw sh') = (tobj (lw (shared s)))(a := None)"
    and "live (heap (lw sh')) = live (heap (lw (shared s))) - {(POSIX_THREAD, a)}"
    and "value_of sh' = value_of (shared s)" and "stack_gone (pc_of s t)"
    and "running sh' = running (shared s)" and "over sh' = over (shared s)"
  shows "life_inv (e, live, base) (s\<lparr>shared := sh', pc_of := (pc_of s)(t := q)\<rparr>)"
proof -
  obtain ob where ob: "tobj (lw (shared s)) a = Some ob" "owners (pc_of s) a = {t}"
    "a \<notin> running (shared s)" "a \<notin> over (shared s)"
    using assms(1,2) by (rule held_object)
  have own: "owners ((pc_of s)(t := q)) a = {}" using ob(2) assms(3) by (simp add: owners_upd)
  have "agree_off a (shared s) sh'" using assms(5,7,9,10) by (auto simp: agree_off_def)
  moreover have "place_ok e sh' ((pc_of s)(t := q)) a"
    using own ob(3,4) assms(5,9,10) by (auto simp: place_ok_def)
  moreover have S: "own_stack sh' ((pc_of s)(t := q)) a = None" "own_stack (shared s) (pc_of s) a = None"
    using own_stack_held [OF ob(2,1)] assms(5,8) by (simp_all add: own_stack_def)
  moreover have "mem_ok (live (heap (lw (shared s))) - {(POSIX_THREAD, a)}) base
      (dom (tobj (lw (shared s))) - {a}) ((own_stack (shared s) (pc_of s))(a := None))"
    unfolding fun_upd_idem [where f = "own_stack (shared s) (pc_of s)", OF S(2)]
    using life_invD(2) [OF assms(1)] ob(1) S(2) by (intro mem_free_thread) (auto simp: mem_of_def)
  ultimately show ?thesis
    using assms(1-6) by (intro life_step_at [where a = a]) (simp_all add: mem_of_def)
qed

text \<open>A task takes an object that nobody holds: its thread ends, or is joined.\<close>

lemma step_claim:
  assumes "life_inv (e, live, base) s" and "holds (pc_of s t) = None" and "holds q = Some a"
    and "tobj (lw (shared s)) a = Some obj" and "owners (pc_of s) a = {}" and "lw sh' = lw (shared s)"
    and "\<forall>th. th \<noteq> a \<longrightarrow> value_of sh' th = value_of (shared s) th" and "\<not> stack_gone q"
    and "running sh' = running (shared s) - {a}" and "over sh' = over (shared s) - {a}"
    and "point_ok e t (value_of sh' a) q obj"
  shows "life_inv (e, live, base) (s\<lparr>shared := sh', pc_of := (pc_of s)(t := q)\<rparr>)"
proof -
  have own: "owners ((pc_of s)(t := q)) a = {t}" using assms(3,5) by (simp add: owners_upd)
  have "agree_off a (shared s) sh'" using assms(6,7,9,10) by (auto simp: agree_off_def)
  moreover have "place_ok e sh' ((pc_of s)(t := q)) a"
    using own assms(4,6,9-11) by (auto simp: place_ok_def)
  moreover have "own_stack sh' ((pc_of s)(t := q)) a = own_stack (shared s) (pc_of s) a"
    using own_stack_held [OF own, of sh' obj] own_stack_parked [OF assms(5), of "shared s"] assms(4,6,8) by simp
  moreover have "mem_ok (live (heap (lw (shared s)))) base (dom (tobj (lw (shared s))))
      ((own_stack (shared s) (pc_of s))(a := own_stack (shared s) (pc_of s) a))"
    using life_invD(2) [OF assms(1)] by (simp add: mem_of_def)
  moreover have "q \<notin> {LThread TFault, LThread TIdle}" using assms(3) by auto
  ultimately show ?thesis
    using assms(1-3,6)
    by (intro life_step_at [where a = a and st = "own_stack (shared s) (pc_of s) a"]) (simp_all del: fun_upd_triv)
qed

text \<open>A new object.\<close>

lemma step_new:
  assumes "life_inv (e, live, base) s" and "holds (pc_of s t) = None" and "q = LFill a c"
    and "(POSIX_THREAD, a) \<notin> live (heap (lw (shared s)))"
    and "tobj (lw sh') = (tobj (lw (shared s)))(a \<mapsto> obj)"
    and "live (heap (lw sh')) = insert (POSIX_THREAD, a) (live (heap (lw (shared s))))"
    and "value_of sh' = value_of (shared s)" and "running sh' = running (shared s)" and "over sh' = over (shared s)"
  shows "life_inv (e, live, base) (s\<lparr>shared := sh', pc_of := (pc_of s)(t := q)\<rparr>)"
proof -
  have mem: "mem_of live base (shared s) (pc_of s)" by (rule life_invD(2)) fact
  then have none: "tobj (lw (shared s)) a = None"
    using assms(4) by (auto simp: mem_of_def mem_ok_def thread_blocks_def)
  have "place_ok e (shared s) (pc_of s) a" by (rule life_invD(1)) fact
  with none have free: "owners (pc_of s) a = {}" "a \<notin> running (shared s)" "a \<notin> over (shared s)"
    by (simp_all add: place_ok_def)
  have own: "owners ((pc_of s)(t := q)) a = {t}" using assms(3) free(1) by (simp add: owners_upd)
  have "agree_off a (shared s) sh'" using assms(5,7-9) by (simp add: agree_off_def)
  moreover have "place_ok e sh' ((pc_of s)(t := q)) a"
    using own free assms(3,5,8,9) by (simp add: place_ok_def)
  moreover have S: "own_stack sh' ((pc_of s)(t := q)) a = None" "own_stack (shared s) (pc_of s) a = None"
    using own_stack_held [OF own, of sh'] assms(3,5) none by (simp_all add: own_stack_def)
  moreover have "mem_ok (insert (POSIX_THREAD, a) (live (heap (lw (shared s))))) base
      (insert a (dom (tobj (lw (shared s))))) ((own_stack (shared s) (pc_of s))(a := None))"
    unfolding fun_upd_idem [where f = "own_stack (shared s) (pc_of s)", OF S(2)]
    using mem assms(4) by (intro mem_new_thread) (simp_all add: mem_of_def)
  ultimately show ?thesis
    using assms(1-3,5,6) by (intro life_step_at [where a = a]) (simp_all add: mem_of_def)
qed

text \<open>A step that concerns no object.\<close>

lemma step_none:
  assumes "life_inv (e, live, base) s" and "holds (pc_of s t) = None" and "holds q = None"
    and "q \<notin> {LThread TFault, LThread TIdle}" and "tobj (lw sh') = tobj (lw (shared s))"
    and "live (heap (lw sh')) = live (heap (lw (shared s)))"
    and "value_of sh' = value_of (shared s)" and "running sh' = running (shared s)" and "over sh' = over (shared s)"
  shows "life_inv (e, live, base) (s\<lparr>shared := sh', pc_of := (pc_of s)(t := q)\<rparr>)"
proof -
  have own: "owners ((pc_of s)(t := q)) a = owners (pc_of s) a" for a
    using assms(2,3) by (auto simp: owners_def)
  have "agree_off 0 (shared s) sh'" using assms(5,7-9) by (simp add: agree_off_def)
  moreover have "place_ok e sh' ((pc_of s)(t := q)) 0"
  proof (rule place_frame [where a = 1 and sh = "shared s"])
    show "agree_off 1 (shared s) sh'" using assms(5,7-9) by (simp add: agree_off_def)
    show "place_ok e (shared s) (pc_of s) 0" by (rule life_invD(1)) fact
  qed (use assms(2,3) in simp_all)
  moreover have "own_stack sh' ((pc_of s)(t := q)) 0 = own_stack (shared s) (pc_of s) 0"
  proof -
    have "t \<notin> owners (pc_of s) 0" using assms(2) by (simp add: owners_def)
    then have "(\<exists>u\<in>owners (pc_of s) 0. stack_gone (((pc_of s)(t := q)) u)) \<longleftrightarrow>
        (\<exists>u\<in>owners (pc_of s) 0. stack_gone (pc_of s u))"
      by (intro bex_cong) auto
    then show ?thesis unfolding own_stack_def own assms(5)
      by (cases "tobj (lw (shared s)) 0") simp_all
  qed
  moreover have "mem_ok (live (heap (lw (shared s)))) base (dom (tobj (lw (shared s))))
      ((own_stack (shared s) (pc_of s))(0 := own_stack (shared s) (pc_of s) 0))"
    using life_invD(2) [OF assms(1)] by (simp add: mem_of_def)
  ultimately show ?thesis
    using assms(1-6)
    by (intro life_step_at [where a = 0 and st = "own_stack (shared s) (pc_of s) 0"]) (simp_all del: fun_upd_triv)
qed

section \<open>Every step keeps the invariant\<close>

definition after :: "('t, 's, 'm, 'k, 'h) life_state \<Rightarrow> 't \<Rightarrow> ('s, 'm, 'k, 'h) life \<times> lpc \<Rightarrow>
    ('t, 's, 'm, 'k, 'h) life_state" where
  "after s t r = s\<lparr>shared := fst r, pc_of := (pc_of s)(t := snd r)\<rparr>"

lemmas life_simps = with_thread_def with_obj_def put_obj_def thread_code_def run_step_free

text \<open>The points of \<open>pthread_create\<close>.\<close>

lemma life_object:
  assumes "thread_env_ok live al fr e" and "life_inv (e, live, base) s" and "pc_of s t = LObject c"
    and "life_code e t (shared s) (LObject c) = Some r"
  shows "life_inv (e, live, base) (after s t r)"
proof -
  have laws: "mem_laws live al fr" and al: "hcos_posix_alloc (t_mem e) = Some al"
    using assms(1) by (simp_all add: thread_env_ok_def)
  obtain p h where ph: "al POSIX_THREAD (sizeof_thread e) (heap (lw (shared s))) = (p, h)" by force
  show ?thesis
  proof (cases p)
    case None
    with assms(3,4) ph al show ?thesis
      unfolding after_def by (intro step_none [OF assms(2)]) (auto simp: create_object_def)
  next
    case (Some a)
    with ph mem_lawsD(1) [OF laws] have
      "(POSIX_THREAD, a) \<notin> live (heap (lw (shared s)))" "live h = insert (POSIX_THREAD, a) (live (heap (lw (shared s))))"
      by simp_all
    with Some assms(3,4) ph al show ?thesis
      unfolding after_def by (intro step_new [OF assms(2)]) (auto simp: create_object_def)
  qed
qed

lemma set_up_fill: "set_up e (fill_object e attr fn arg obj)"
  by (simp add: set_up_def fill_object_def Let_def)

lemma life_stack:
  assumes "thread_env_ok live al fr e" and "life_inv (e, live, base) s" and "pc_of s t = LStack th c"
    and "life_code e t (shared s) (LStack th c) = Some r"
  shows "life_inv (e, live, base) (after s t r)"
proof -
  have laws: "mem_laws live al fr" and al: "hcos_posix_alloc (t_mem e) = Some al"
    using assms(1) by (simp_all add: thread_env_ok_def)
  have "holds (pc_of s t) = Some th" by (simp add: assms(3))
  with assms(2) obtain obj where obj: "tobj (lw (shared s)) th = Some obj" "owners (pc_of s) th = {t}"
    and ok: "set_up e obj"
    by (rule held_object) (simp add: assms(3))
  have mem: "mem_ok (live (heap (lw (shared s)))) base (dom (tobj (lw (shared s)))) (own_stack (shared s) (pc_of s))"
    using life_invD(2) [OF assms(2)] by (simp add: mem_of_def)
  have S: "own_stack (shared s) (pc_of s) th = None"
    using own_stack_held [OF obj(2,1)] by (simp add: assms(3))
  obtain p h where ph: "al POSIX_STACK (ucast (stack_sz (t_attr obj))) (heap (lw (shared s))) = (p, h)" by force
  show ?thesis
  proof (cases p)
    case None
    with ph mem_lawsD(2) [OF laws] have "live h = live (heap (lw (shared s)))" by simp
    with mem have "mem_ok (live h) base (dom (tobj (lw (shared s)))) ((own_stack (shared s) (pc_of s))(th := None))"
      using S by (simp add: fun_upd_idem)
    with None assms(3,4) obj(1) ph al ok show ?thesis
      unfolding after_def
      by (intro step_keep [OF assms(2), where a = th and obj' = "obj\<lparr>t_stack := None\<rparr>"])
        (auto simp: life_simps create_stack_def)
  next
    case (Some st)
    with ph mem_lawsD(1) [OF laws] have
      "(POSIX_STACK, st) \<notin> live (heap (lw (shared s)))" "live h = insert (POSIX_STACK, st) (live (heap (lw (shared s))))"
      by simp_all
    with mem_new_stack [OF mem _ _ S] obj(1)
    have "mem_ok (live h) base (dom (tobj (lw (shared s)))) ((own_stack (shared s) (pc_of s))(th \<mapsto> st))"
      by auto
    with Some assms(3,4) obj(1) ph al ok show ?thesis
      unfolding after_def
      by (intro step_keep [OF assms(2), where a = th and obj' = "obj\<lparr>t_stack := Some st\<rparr>"])
        (auto simp: life_simps create_stack_def set_up_def)
  qed
qed

lemma life_task:
  assumes "life_inv (e, live, base) s" and "pc_of s t = LTask th st c"
    and "life_code e t (shared s) (LTask th st c) = Some r"
  shows "life_inv (e, live, base) (after s t r)"
proof -
  have "holds (pc_of s t) = Some th" by (simp add: assms(2))
  with assms(1) obtain obj where obj: "tobj (lw (shared s)) th = Some obj"
    and ok: "t_stack obj = Some st" "set_up e obj"
    by (rule held_object) (simp add: assms(2))
  obtain n k where nk: "task_init e th (uint (STATUS_PRIORITY (status (t_attr obj)))) st
      (ucast (stack_sz (t_attr obj))) (kern (lw (shared s))) = (n, k)" by force
  have same: "tobj (lw (shared s)) = (tobj (lw (shared s)))(th \<mapsto> obj)" using obj by auto
  show ?thesis
  proof (cases "n = 0")
    case True
    with assms(2,3) obj ok nk same show ?thesis
      unfolding after_def
      by (intro step_park [OF assms(1), where a = th and obj = obj and obj' = obj])
        (auto simp: life_simps create_task_def)
  next
    case False
    with assms(2,3) obj ok nk same show ?thesis
      unfolding after_def
      by (intro step_same [OF assms(1), where a = th and obj = obj and obj' = obj])
        (auto simp: life_simps create_task_def)
  qed
qed

text \<open>The release of a stack and of an object, by whomever.\<close>

lemma life_free_stack:
  assumes "thread_env_ok live al fr e" and "life_inv (e, live, base) s" and "holds (pc_of s t) = Some th"
    and "tobj (lw (shared s)) th = Some obj" and "t_stack obj = Some st" and "\<not> stack_gone (pc_of s t)"
    and "holds q = Some th" and "stack_gone q" and "point_ok e t (value_of (shared s) th) q obj"
    and "lw sh' = (lw (shared s))\<lparr>heap := fr POSIX_STACK (Some st) (heap (lw (shared s)))\<rparr>"
    and "running sh' = running (shared s)" and "over sh' = over (shared s)" and "value_of sh' = value_of (shared s)"
  shows "life_inv (e, live, base) (after s t (sh', q))"
proof -
  have laws: "mem_laws live al fr" using assms(1) by (simp add: thread_env_ok_def)
  obtain ob where ob: "tobj (lw (shared s)) th = Some ob" "owners (pc_of s) th = {t}"
    using assms(2,3) by (rule held_object)
  have mem: "mem_ok (live (heap (lw (shared s)))) base (dom (tobj (lw (shared s)))) (own_stack (shared s) (pc_of s))"
    using life_invD(2) [OF assms(2)] by (simp add: mem_of_def)
  have "own_stack (shared s) (pc_of s) th = Some st"
    using own_stack_held [OF ob(2,1)] assms(4-6) ob(1) by simp
  from mem_free_stack [OF mem this] show ?thesis
    unfolding after_def using assms(3-13) mem_lawsD(3) [OF laws]
    by (intro step_keep [OF assms(2), where a = th and obj' = obj]) (auto simp: fun_upd_idem)
qed

lemma life_free_thread:
  assumes "thread_env_ok live al fr e" and "life_inv (e, live, base) s" and "holds (pc_of s t) = Some th"
    and "stack_gone (pc_of s t)" and "holds q = None" and "q \<notin> {LThread TFault, LThread TIdle}"
    and "lw sh' = (lw (shared s))\<lparr>heap := fr POSIX_THREAD (Some th) (heap (lw (shared s))),
      tobj := (tobj (lw (shared s)))(th := None)\<rparr>"
    and "running sh' = running (shared s)" and "over sh' = over (shared s)" and "value_of sh' = value_of (shared s)"
  shows "life_inv (e, live, base) (after s t (sh', q))"
proof -
  have "mem_laws live al fr" using assms(1) by (simp add: thread_env_ok_def)
  with assms(3-10) show ?thesis
    unfolding after_def by (intro step_gone [OF assms(2), where a = th]) (simp_all add: mem_lawsD(3))
qed

text \<open>The points of \<open>exit_thread\<close> and \<open>pthread_join\<close> at which the object only changes inside.\<close>

fun inner :: "tpc \<Rightarrow> bool" where
  "inner (XRet th v) \<longleftrightarrow> True"
| "inner (XTest th) \<longleftrightarrow> True"
| "inner (XPost th) \<longleftrightarrow> True"
| "inner (JTest th) \<longleftrightarrow> True"
| "inner (JLock th) \<longleftrightarrow> True"
| "inner (JSelf th) \<longleftrightarrow> True"
| "inner (JGet th) \<longleftrightarrow> True"
| "inner (JPost th) \<longleftrightarrow> True"
| "inner (JUnlock th) \<longleftrightarrow> True"
| "inner (JRet th) \<longleftrightarrow> True"
| "inner _ \<longleftrightarrow> False"

lemma inner_step:
  assumes "thread_env_ok live al fr e" and "inner p" and "t_holds p = Some th" and "tobj w th = Some obj"
    and "t_point_ok e t v p obj" and "thread_code e t w p = Some (w', q)"
  obtains obj' where "w' = w\<lparr>tobj := (tobj w)(th \<mapsto> obj')\<rparr>" and "t_stack obj' = t_stack obj"
    and "t_holds q = Some th" and "t_point_ok e t v q obj'" and "ended_by p q = {}"
    and "\<not> stack_gone (LThread p)" and "\<not> stack_gone (LThread q)"
proof -
  have same: "w = w\<lparr>tobj := (tobj w)(th \<mapsto> obj)\<rparr>" using assms(4) by (simp add: fun_upd_idem)
  have M: "mutex_laws (t_muts e)" using assms(1) by (simp add: thread_env_ok_def)
  obtain m where m: "mut_take (t_muts e) t (mut_init (t_muts e)) = Some m"
    using mutex_lawsD(1,2) [OF M] by blast
  have self: "pthread_equal (pthread_self e t) (Some th) = 0" if "pthread_self e t \<noteq> Some th"
    using that by (auto simp: pthread_equal_def)
  show thesis
  proof (cases p)
    case (XRet a x)
    with assms(3-6) show thesis
      by (intro that [of "obj\<lparr>t_ret := x\<rparr>"]) (auto simp: life_simps set_up_def)
  next
    case (XTest a)
    with assms(3-6) same show thesis
      by (intro that [of obj]) (auto simp: life_simps split: if_splits)
  next
    case (XPost a)
    with assms(3-6) show thesis
      by (intro that [of "obj\<lparr>t_barrier := sem_post (t_sems e) (t_barrier obj)\<rparr>"])
        (auto simp: life_simps finished_def posted_def set_up_def)
  next
    case (JTest a)
    with assms(3-6) same show thesis
      by (intro that [of obj]) (auto simp: life_simps finished_def)
  next
    case (JLock a)
    with assms(3-6) m show thesis
      by (intro that [of "obj\<lparr>t_mux := m\<rparr>"]) (auto simp: life_simps finished_def posted_def)
  next
    case (JSelf a)
    with assms(3-6) same self show thesis
      by (intro that [of obj]) (auto simp: life_simps)
  next
    case (JGet a)
    with assms(3-6) obtain b where "sem_take (t_sems e) (t_barrier obj) = Some b"
      by (auto simp: life_simps split: option.splits)
    with JGet assms(3-6) show thesis
      by (intro that [of "obj\<lparr>t_barrier := b\<rparr>"]) (auto simp: life_simps posted_def)
  next
    case (JPost a)
    with assms(3-6) show thesis
      by (intro that [of "obj\<lparr>t_joined := sem_post (t_sems e) (t_joined obj)\<rparr>"]) (auto simp: life_simps)
  next
    case (JUnlock a)
    with assms(3-6) show thesis
      by (intro that [of "obj\<lparr>t_mux := mut_unlock (t_muts e) (t_mux obj)\<rparr>"]) (auto simp: life_simps)
  next
    case (JRet a)
    with assms(3-6) same show thesis
      by (intro that [of obj]) (auto simp: life_simps)
  qed (use assms(2) in simp_all)
qed

lemma life_thread:
  assumes "thread_env_ok live al fr e" and "life_inv (e, live, base) s" and "pc_of s t = LThread p"
    and "life_code e t (shared s) (LThread p) = Some r"
  shows "life_inv (e, live, base) (after s t r)"
proof -
  obtain w q where wq: "thread_code e t (lw (shared s)) p = Some (w, q)"
    and r: "r = ((shared s)\<lparr>lw := w, over := ended_by p q \<union> over (shared s)\<rparr>, LThread q)"
    using assms(4) by (auto split: option.splits)
  obtain th where th: "t_holds p = Some th"
    using wq by (cases p) (auto simp: life_simps)
  then have held: "holds (pc_of s t) = Some th" by (simp add: assms(3))
  with assms(2) obtain obj where obj: "tobj (lw (shared s)) th = Some obj"
    and ok: "t_point_ok e t (value_of (shared s) th) p obj"
    by (rule held_object) (simp add: assms(3))
  have fr: "hcos_posix_free (t_mem e) = Some fr" using assms(1) by (simp add: thread_env_ok_def)
  show ?thesis
  proof (cases "inner p")
    case True
    from inner_step [OF assms(1) True th obj ok wq] obtain obj' where
      "w = (lw (shared s))\<lparr>tobj := (tobj (lw (shared s)))(th \<mapsto> obj')\<rparr>" "t_stack obj' = t_stack obj"
      "t_holds q = Some th" "t_point_ok e t (value_of (shared s) th) q obj'" "ended_by p q = {}"
      "\<not> stack_gone (LThread p)" "\<not> stack_gone (LThread q)" .
    with held obj assms(3) show ?thesis
      unfolding r after_def
      by (intro step_same [OF assms(2), where a = th and obj = obj and obj' = obj']) simp_all
  next
    case False
    then consider (get) "p = XGet th" | (stack) "p = XFreeStack th" | (jstack) v where "p = JFreeStack th v"
      | (object) "p = XFreeThread th" | (jobject) v where "p = JFreeThread th v"
      using th by (cases p) auto
    then show ?thesis
    proof cases
      case get
      with wq obj obtain j where "q = TDone OK None"
        "w = (lw (shared s))\<lparr>tobj := (tobj (lw (shared s)))(th \<mapsto> obj\<lparr>t_joined := j\<rparr>)\<rparr>"
        by (auto simp: life_simps split: option.splits)
      with get held obj ok assms(3) show ?thesis
        unfolding r after_def
        by (intro step_park [OF assms(2), where a = th and obj = obj and obj' = "obj\<lparr>t_joined := j\<rparr>"])
          (simp_all add: finished_def posted_def)
    next
      case stack
      with ok obtain st where "t_stack obj = Some st" by auto
      with stack wq obj fr held assms(3) show ?thesis
        unfolding r by (intro life_free_stack [OF assms(1,2), where th = th and obj = obj and st = st])
          (auto simp: life_simps)
    next
      case (jstack v)
      with ok obtain st where "t_stack obj = Some st" "v = value_of (shared s) th" by auto
      with jstack wq obj fr held assms(3) show ?thesis
        unfolding r by (intro life_free_stack [OF assms(1,2), where th = th and obj = obj and st = st])
          (auto simp: life_simps)
    next
      case object
      with wq obj fr held assms(3) show ?thesis
        unfolding r by (intro life_free_thread [OF assms(1,2), where th = th]) (auto simp: life_simps)
    next
      case (jobject v)
      with wq obj fr held assms(3) show ?thesis
        unfolding r by (intro life_free_thread [OF assms(1,2), where th = th]) (auto simp: life_simps)
    qed
  qed
qed

lemma life_move:
  assumes "thread_env_ok live al fr e" and "life_inv (e, live, base) s"
    and "life_code e t (shared s) (pc_of s t) = Some r"
  shows "life_inv (e, live, base) (after s t r)"
proof (cases "pc_of s t")
  case (LObject c)
  with life_object [OF assms(1,2)] assms(3) show ?thesis by simp
next
  case (LFill th c)
  then have "holds (pc_of s t) = Some th" by simp
  with assms(2) obtain obj where "tobj (lw (shared s)) th = Some obj" by (rule held_object)
  with LFill assms(3) show ?thesis
    unfolding after_def
    by (intro step_same [OF assms(2), where a = th and obj = obj and
          obj' = "fill_object e (c_attr c) (c_fn c) (c_arg c) obj"]) (auto simp: life_simps set_up_fill)
next
  case (LStack th c)
  with life_stack [OF assms(1,2)] assms(3) show ?thesis by simp
next
  case (LTask th st c)
  with life_task [OF assms(2)] assms(3) show ?thesis by simp
next
  case (LFreeStack th st c)
  then have held: "holds (pc_of s t) = Some th" by simp
  with assms(2) obtain obj where obj: "tobj (lw (shared s)) th = Some obj" "t_stack obj = Some st"
    by (rule held_object) (simp add: LFreeStack)
  have "r = ((shared s)\<lparr>lw := (lw (shared s))\<lparr>heap := fr POSIX_STACK (Some st) (heap (lw (shared s)))\<rparr>\<rparr>,
      LFreeThread th c)"
    using assms(1,3) LFreeStack by (simp add: thread_env_ok_def free_stack_def posix_free_def)
  with life_free_stack [OF assms(1,2) held obj] LFreeStack show ?thesis by simp
next
  case (LFreeThread th c)
  then have held: "holds (pc_of s t) = Some th" "stack_gone (pc_of s t)" by simp_all
  have "r = ((shared s)\<lparr>lw := (lw (shared s))\<lparr>heap := fr POSIX_THREAD (Some th) (heap (lw (shared s))),
      tobj := (tobj (lw (shared s)))(th := None)\<rparr>\<rparr>, LCreated (Err EAGAIN) c)"
    using assms(1,3) LFreeThread by (simp add: thread_env_ok_def free_thread_def posix_free_def)
  with life_free_thread [OF assms(1,2) held] show ?thesis by simp
next
  case (LOut th c)
  with assms(3) show ?thesis unfolding after_def by (intro step_none [OF assms(2)]) auto
next
  case (LReturn th v)
  with assms(3) have run: "th \<in> running (shared s)" and r: "r = ((shared s)\<lparr>running := running (shared s) - {th},
      value_of := (value_of (shared s))(th := v)\<rparr>, LThread (XRet th v))"
    by (auto split: if_splits)
  from assms(2) run obtain obj where "tobj (lw (shared s)) th = Some obj" "owners (pc_of s) th = {}"
    "th \<notin> over (shared s)" "t_stack obj \<noteq> None" "set_up e obj" by (rule running_object)
  with LReturn show ?thesis
    unfolding after_def r by (intro step_claim [OF assms(2), where a = th and obj = obj]) auto
next
  case (LJoin th)
  with assms(3) have run: "th \<in> over (shared s)" and self: "pthread_self e t \<noteq> Some th"
    and r: "r = ((shared s)\<lparr>over := over (shared s) - {th}\<rparr>, LThread (JTest th))"
    by (auto split: if_splits)
  from assms(2) run obtain obj where "tobj (lw (shared s)) th = Some obj" "owners (pc_of s) th = {}"
    "th \<notin> running (shared s)" "finished e (value_of (shared s) th) obj" by (rule over_object)
  with LJoin self show ?thesis
    unfolding after_def r by (intro step_claim [OF assms(2), where a = th and obj = obj]) auto
next
  case (LThread p)
  with life_thread [OF assms(1,2)] assms(3) show ?thesis by simp
qed (use assms(3) in simp_all)

interpretation lt: invariant_system life_ok life_start "\<lambda>p. tstep (life_program (fst p))" life_inv
proof unfold_locales
  fix p :: "('t, 's, 'm, 'k, 'h) life_sys" and s
  obtain e live base where p: "p = (e, live, base)" by (cases p)
  show "life_inv p s" if "life_ok p" and "life_start p s"
  proof -
    have "own_stack (shared s) (pc_of s) = Map.empty"
      using that(2) by (auto simp: p own_stack_def)
    with that(2) show ?thesis
      unfolding p by (intro life_invI) (auto simp: place_ok_def owners_def mem_of_def mem_ok_def thread_blocks_def)
  qed
  show "life_inv p s'" if ok: "life_ok p" and inv: "life_inv p s" and step: "tstep (life_program (fst p)) s s'"
    for s'
  proof -
    obtain al fr where e: "thread_env_ok live al fr e" using ok by (auto simp: p)
    note i = inv [unfolded p]
    from step show ?thesis
    proof (cases rule: tstep_cases)
      case (call t q)
      then have "holds (pc_of s t) = None" "holds q = None" "q \<notin> {LThread TFault, LThread TIdle}" by (auto elim: life_entryE)
      from step_none [OF i this, of "shared s"] call(3) show ?thesis by (simp add: p)
    next
      case (move t sh q)
      with life_move [OF e i, of t "(sh, q)"] show ?thesis by (simp add: p after_def)
    next
      case (expire t sh q)
      then show ?thesis by simp
    next
      case (return t r)
      then have "holds (pc_of s t) = None" by (auto elim!: life_resultE)
      from step_none [OF i this, of LIdle "shared s"] return(2) have
        inv: "life_inv (e, live, base) (s\<lparr>pc_of := (pc_of s)(t := LIdle)\<rparr>)" by simp
      show ?thesis
        unfolding p by (intro life_invI) (use life_invD [OF inv] return(2) in simp_all)
    qed
  qed
qed

lemma reachable_life:
  assumes "life_ok (e, live, base)" and "reachable (life_start (e, live, base)) (tstep (life_program e)) s"
  shows "life_inv (e, live, base) s"
  using lt.inv_reachable [of "(e, live, base)" s] assms by simp

text \<open>A task that holds an object can take its next step.\<close>

lemma holder_moves:
  assumes "thread_env_ok live al fr e" and "life_inv (e, live, base) s" and "holds (pc_of s t) = Some th"
  shows "life_code e t (shared s) (pc_of s t) \<noteq> None"
proof -
  from assms(2,3) obtain obj where obj: "tobj (lw (shared s)) th = Some obj"
    and ok: "point_ok e t (value_of (shared s) th) (pc_of s t) obj" by (rule held_object)
  have S: "counting_sem (t_sems e)" and fr: "hcos_posix_free (t_mem e) = Some fr"
    using assms(1) by (simp_all add: thread_env_ok_def)
  have one: "sem_val (t_sems e) (sem_init (t_sems e) 1) = 1" using counting_semD(1) [OF S, of 1] by simp
  obtain j b where "sem_take (t_sems e) (sem_init (t_sems e) 1) = Some j"
    "sem_take (t_sems e) (sem_post (t_sems e) (sem_init (t_sems e) 1)) = Some b"
    using sem_take_pos [OF S, of "sem_init (t_sems e) 1"]
      sem_take_pos [OF S, of "sem_post (t_sems e) (sem_init (t_sems e) 1)"] counting_semD(2) [OF S] one by auto
  note take = this
  show ?thesis
  proof (cases "pc_of s t")
    case (LThread p)
    with obj ok take fr assms(3) have "thread_code e t (lw (shared s)) p \<noteq> None"
      by (cases p) (auto simp: life_simps finished_def posted_def split: option.splits)
    with LThread show ?thesis by auto
  qed (use assms(3) obj in \<open>auto simp: with_thread_def split: option.splits run.splits prod.splits\<close>)
qed

section \<open>Joins of threads that are over\<close>

text \<open>A join of a thread that is over, without interruption.\<close>

lemma join_alone:
  assumes "thread_env_ok live al fr e" and "pc_of s t = LIdle \<and> th \<in> over (shared s) \<and> pthread_self e t \<noteq> Some th"
    and "tobj (lw (shared s)) th = Some obj" and "finished e v obj"
    and "s' = run_schedule (life_program e) (Call t (LJoin th) # replicate 10 (Move t)) s"
  shows "pc_of s' t = LThread (TDone OK v)" and "tobj (lw (shared s')) th = None" and "th \<notin> over (shared s')"
proof -
  have S: "counting_sem (t_sems e)" and M: "mutex_laws (t_muts e)" and fr: "hcos_posix_free (t_mem e) = Some fr"
    using assms(1) by (simp_all add: thread_env_ok_def)
  have "0 < sem_val (t_sems e) (sem_post (t_sems e) (sem_init (t_sems e) 1))"
    using counting_semD(1) [OF S, of 1] counting_semD(2) [OF S] by simp
  then obtain b where b: "sem_take (t_sems e) (t_barrier obj) = Some b"
    using sem_take_pos [OF S] assms(4) by (auto simp: finished_def posted_def)
  obtain m where m: "mut_take (t_muts e) t (t_mux obj) = Some m"
    using mutex_lawsD(1,2) [OF M] assms(4) by (auto simp: finished_def)
  have self: "pthread_equal (pthread_self e t) (Some th) = 0"
    using assms(2) by (auto simp: pthread_equal_def)
  have ten: "replicate 10 (Move t) = [Move t, Move t, Move t, Move t, Move t, Move t, Move t, Move t, Move t, Move t]"
    by (simp add: eval_nat_numeral)
  have joinable: "STATUS_JOINABLE (status (t_attr obj))" and ret: "t_ret obj = v"
    using assms(4) by (simp_all add: finished_def)
  have "s' = s\<lparr>shared := (shared s)\<lparr>lw := (lw (shared s))
        \<lparr>heap := fr POSIX_THREAD (Some th) (fr POSIX_STACK (t_stack obj) (heap (lw (shared s)))),
         tobj := (tobj (lw (shared s)))(th := None)\<rparr>, over := over (shared s) - {th}\<rparr>,
      pc_of := (pc_of s)(t := LThread (TDone OK v))\<rparr>"
    unfolding assms(5) ten using assms(2,3) b m self fr joinable ret by (simp add: life_simps)
  then show "pc_of s' t = LThread (TDone OK v)" and "tobj (lw (shared s')) th = None"
    and "th \<notin> over (shared s')"
    by simp_all
qed

section \<open>The reference run\<close>

lemma ref_life_ok: "life_ok (ref_thread_env, \<lambda>h. set (blocks h), {})"
  using ref_thread_env_ok by auto

lemma ref_life_start: "life_start (ref_thread_env, \<lambda>h. set (blocks h), {}) (ref_life n)"
  by (simp add: ref_life_def ref_tworld_def)

lemma ref_life_run:
  "reachable (life_start (ref_thread_env, \<lambda>h. set (blocks h), {})) (tstep (life_program ref_thread_env))
     (run_schedule (life_program ref_thread_env) as (ref_life n))"
  by (rule reachable_schedule, rule reach_init, rule ref_life_start)

section \<open>Properties\<close>

text \<open>
  C9: The memory of threads. As long as the functions of threads end by returning, and the
  application joins a joinable thread at most once and only when it is over: with any
  interleaving of creations, ends and joins by any tasks, the blocks in use are those from
  before, the object of every thread and its stack while it has one, all different. Every object
  has one task that holds it, or its thread runs, or is over and not joined; no task uses an object that
  is not there. So when all threads have ended and all joinable ones are joined, the
  memory is as it was.
\<close>

theorem thread_memory_exact:
  assumes "life_ok (e, live, base)" and "reachable (life_start (e, live, base)) (tstep (life_program e)) s"
    and "shared s = sh"
  shows "live (heap (lw sh)) = base \<union> thread_blocks (dom (tobj (lw sh))) (own_stack sh (pc_of s)) \<and>
    base \<inter> thread_blocks (dom (tobj (lw sh))) (own_stack sh (pc_of s)) = {} \<and>
    (\<forall>th. tobj (lw sh) th \<noteq> None \<longleftrightarrow>
       (\<exists>t. holds (pc_of s t) = Some th) \<or> th \<in> running sh \<or> th \<in> over sh) \<and>
    (\<forall>t u th. holds (pc_of s t) = Some th \<and> holds (pc_of s u) = Some th \<longrightarrow> t = u) \<and>
    (\<forall>t. pc_of s t \<noteq> LThread TFault) \<and>
    ((\<forall>t. holds (pc_of s t) = None) \<and> running sh = {} \<and> over sh = {} \<longrightarrow> live (heap (lw sh)) = base)"
proof -
  note inv = reachable_life [OF assms(1,2)]
  have mem: "mem_ok (live (heap (lw sh))) base (dom (tobj (lw sh))) (own_stack sh (pc_of s))"
    using life_invD(2) [OF inv] by (simp add: mem_of_def assms(3))
  have place: "place_ok e sh (pc_of s) th" for th using life_invD(1) [OF inv] assms(3) by simp
  have roles: "tobj (lw sh) th \<noteq> None \<longleftrightarrow>
      (\<exists>t. holds (pc_of s t) = Some th) \<or> th \<in> running sh \<or> th \<in> over sh" for th
    using place [of th] by (auto simp: place_ok_def owners_def split: option.splits)
  have "t = u" if "holds (pc_of s t) = Some th" "holds (pc_of s u) = Some th" for t u th
  proof -
    from inv that(1) obtain obj where "owners (pc_of s) th = {t}" by (rule held_object)
    with that(2) show ?thesis by (auto simp: owners_def)
  qed
  moreover have "live (heap (lw sh)) = base"
    if "\<forall>t. holds (pc_of s t) = None" "running sh = {}" "over sh = {}"
  proof -
    have "tobj (lw sh) = Map.empty" using roles that by auto
    moreover from this have "own_stack sh (pc_of s) = Map.empty" by (auto simp: own_stack_def)
    ultimately show ?thesis using mem by (simp add: mem_ok_def thread_blocks_def)
  qed
  ultimately show ?thesis
    using mem roles life_invD(3) [OF inv] unfolding mem_ok_def by blast
qed

theorem thread_memory_exact_witness:
  "let s = run_schedule (life_program ref_thread_env)
       (ref_lives @ [Return 7, Return 9] @ ref_run 3 (LJoin 9) 10) (ref_life 4)
   in (\<forall>t. pc_of s t \<noteq> LThread TFault) \<and> blocks (heap (lw (shared s))) = [] \<and>
     pc_of s 3 = LThread (TDone OK (Some 66))"
proof -
  let ?as = "ref_lives @ [Return 7, Return 9] @ ref_run 3 (LJoin 9) 10"
  have "\<forall>t. pc_of (run_schedule (life_program ref_thread_env) ?as (ref_life 4)) t \<noteq> LThread TFault"
    using thread_memory_exact [OF ref_life_ok ref_life_run refl] by blast
  moreover have "blocks (heap (lw (shared (run_schedule (life_program ref_thread_env) ?as (ref_life 4))))) = []"
    "pc_of (run_schedule (life_program ref_thread_env) ?as (ref_life 4)) 3 = LThread (TDone OK (Some 66))"
    by code_simp+
  ultimately show ?thesis by (simp del: run_schedule.simps replicate.simps append.simps add: Let_def)
qed

text \<open>
  C17: joins of threads that are over, under the same discipline (a thread ends by returning and
  is joined at most once, when it is over). A task inside such a join can always take its next
  step, so no join blocks; the value that a join is about to give is the one that the thread's
  function has returned last; and a join that is not interrupted returns 0 with that value and
  has released the thread's object. Nothing is said of the thread's own side: \<open>exit_thread\<close> does
  not wait for the join, as its comment says it does, because \<open>joined\<close> starts at 1
  (\<open>pthread_exit_returns\<close> of Thread_End).
\<close>

theorem thread_joins_in_order:
  assumes "life_ok (e, live, base)" and "reachable (life_start (e, live, base)) (tstep (life_program e)) s"
  shows "(\<forall>t. joining (pc_of s t) \<noteq> None \<longrightarrow> act (life_program e) (Move t) s \<noteq> None) \<and>
    (\<forall>t th v. pc_of s t = LThread (JFreeThread th v) \<longrightarrow> v = value_of (shared s) th) \<and>
    (\<forall>t th. pc_of s t = LIdle \<and> th \<in> over (shared s) \<and> pthread_self e t \<noteq> Some th \<longrightarrow>
      (let s' = run_schedule (life_program e) (Call t (LJoin th) # replicate 10 (Move t)) s
       in pc_of s' t = LThread (TDone OK (value_of (shared s) th)) \<and> tobj (lw (shared s')) th = None \<and>
         th \<notin> over (shared s')))"
proof (intro conjI allI impI)
  note inv = reachable_life [OF assms]
  obtain al fr where e: "thread_env_ok live al fr e" using assms(1) by auto
  show "act (life_program e) (Move t) s \<noteq> None" if join: "joining (pc_of s t) \<noteq> None" for t
  proof -
    obtain th where "joining (pc_of s t) = Some th" using join by blast
    then have "holds (pc_of s t) = Some th" by (rule joining_holds)
    from holder_moves [OF e inv this] show ?thesis by auto
  qed
  show "v = value_of (shared s) th" if "pc_of s t = LThread (JFreeThread th v)" for t th v
  proof -
    have "holds (pc_of s t) = Some th" by (simp add: that)
    with inv show ?thesis by (rule held_object) (simp add: that)
  qed
  fix t th
  assume a: "pc_of s t = LIdle \<and> th \<in> over (shared s) \<and> pthread_self e t \<noteq> Some th"
  then have th: "th \<in> over (shared s)" by simp
  with inv obtain obj where obj: "tobj (lw (shared s)) th = Some obj"
    and f: "finished e (value_of (shared s) th) obj" by (rule over_object)
  from join_alone [OF e _ obj f] a
  show "let s' = run_schedule (life_program e) (Call t (LJoin th) # replicate 10 (Move t)) s
       in pc_of s' t = LThread (TDone OK (value_of (shared s) th)) \<and> tobj (lw (shared s')) th = None \<and>
         th \<notin> over (shared s')" by simp
qed

theorem thread_joins_in_order_witness:
  "let s = run_schedule (life_program ref_thread_env) (ref_lives @ [Return 7, Return 9]) (ref_life 4);
     s' = run_schedule (life_program ref_thread_env) (ref_run 3 (LJoin 9) 10) s
   in pc_of s' 3 = LThread (TDone OK (Some 66)) \<and> tobj (lw (shared s')) 9 = None"
proof -
  let ?s = "run_schedule (life_program ref_thread_env) (ref_lives @ [Return 7, Return 9]) (ref_life 4)"
  have "pc_of ?s 3 = LIdle" "9 \<in> over (shared ?s)" "value_of (shared ?s) 9 = Some 66"
    "pthread_self ref_thread_env 3 \<noteq> Some 9"
    by code_simp+
  with thread_joins_in_order [OF ref_life_ok ref_life_run, of "ref_lives @ [Return 7, Return 9]" 4] show ?thesis
    by (simp del: run_schedule.simps replicate.simps append.simps act.simps add: Let_def)
qed

end
