(* ===== verification/Mutex_Spec.thy ===== *)
theory Mutex_Spec
  imports Mutex
begin

text \<open>
  \<open>src/src/posix_pthread_mutex.c\<close> against a specification: an error-checking mutex is a
  variable that holds its owner, if any. The owner is the specified one; of the results one
  differs, \<open>EBUSY\<close>, which the code reports as 0.
\<close>

section \<open>The specification\<close>

text \<open>
  What the calls of any tasks do to the owner, and their results: \<open>pthread_mutex_trylock\<close> fails
  if the mutex is locked (\<open>pthread.h\<close>, line 302), with \<open>EBUSY\<close> or, if the caller itself holds
  it, \<open>EDEADLK\<close>; only the owner can unlock.
\<close>

fun mutex_spec :: "'t mop \<Rightarrow> 't option \<Rightarrow> ret \<times> 't option" where
  "mutex_spec (TryLock t n z) h =
     (case h of
        None \<Rightarrow> (OK, Some t)
      | Some u \<Rightarrow> (Err (if u = t then EDEADLK else EBUSY), Some u))"
| "mutex_spec (Unlock t) h = (if h = Some t then (OK, None) else (Err EPERM, h))"

text \<open>
  What the code makes of the results: it drops the result of the kernel's lock, so that a
  busy mutex is reported as locked.
\<close>

definition busy_as_ok :: "ret \<Rightarrow> ret" where
  "busy_as_ok r = (if r = Err EBUSY then OK else r)"

definition reported :: "'t mop \<Rightarrow> 't option \<Rightarrow> ret \<times> 't option" where
  "reported c h = map_prod busy_as_ok id (mutex_spec c h)"

lemma reported_calls:
  "spec_calls reported cs h = map_prod (map busy_as_ok) id (spec_calls mutex_spec cs h)"
  by (induction cs arbitrary: h) (auto simp: reported_def split: prod.splits)

text \<open>The code's side.\<close>

fun mutex_exec ::
    "platform \<times> ('t, 'm) mut_ops \<Rightarrow> 't mop \<Rightarrow> 'm pthread_mutex \<Rightarrow> (ret \<times> 'm pthread_mutex) run" where
  "mutex_exec (P, M) (TryLock t n z) mux = Returns (pthread_mutex_trylock P M t n z mux)"
| "mutex_exec (P, M) (Unlock t) mux = Returns (pthread_mutex_unlock M t mux)"

fun mutex_kernel_ok :: "platform \<times> ('t, 'm) mut_ops \<Rightarrow> bool" where
  "mutex_kernel_ok (P, M) \<longleftrightarrow> platform_ok P \<and> 1 < uint (tmr_hz P) \<and> mutex_laws M \<and> polling_mut M 0"

text \<open>An error-checking mutex in use: if it is held, one unlock frees it.\<close>

fun mutex_wf :: "platform \<times> ('t, 'm) mut_ops \<Rightarrow> 'm pthread_mutex \<Rightarrow> bool" where
  "mutex_wf (P, M) mux \<longleftrightarrow> m_inited mux \<noteq> 0 \<and> mtype (m_attr mux) = PTHREAD_MUTEX_ERRORCHECK \<and>
     (owner M mux \<noteq> None \<longrightarrow> own M (mut_unlock M (m_mux mux)) = None)"

lemma init_wf:
  assumes "mutex_laws M" and "pthread_mutex_init M (Some mux) (Some \<lparr>mtype = PTHREAD_MUTEX_ERRORCHECK\<rparr>) = (r, Some mux')"
  shows "mutex_wf (P, M) mux'" and "owner M mux' = None"
  using assms mutex_lawsD(1) [OF assms(1)] by (auto simp: pthread_mutex_init_def owner_def Let_def)

lemma trylock_refines:
  assumes "mutex_kernel_ok (P, M)" and "mutex_wf (P, M) mux"
  shows "mutex_wf (P, M) (snd (pthread_mutex_trylock P M t n z mux)) \<and>
    reported (TryLock t n z) (owner M mux) =
      (fst (pthread_mutex_trylock P M t n z mux), owner M (snd (pthread_mutex_trylock P M t n z mux)))"
proof -
  have M: "mutex_laws M" and poll: "polling_mut M 0" and P: "platform_ok P" "1 < uint (tmr_hz P)"
    using assms(1) by simp_all
  have mux: "m_inited mux \<noteq> 0" "mtype (m_attr mux) = PTHREAD_MUTEX_ERRORCHECK" using assms(2) by simp_all
  show ?thesis
  proof (cases "owner M mux")
    case None
    then have free: "own M (m_mux mux) = None" by (simp add: owner_def)
    obtain m where m: "mut_take M t (m_mux mux) = Some m" using mutex_lawsD(2) [OF M free] by blast
    then have "mut_lock M t (m_mux mux) 0 = (True, m)" using poll by (simp add: polling_mut_def)
    with None mux mutex_lawsD(3,4) [OF M free m] show ?thesis
      by (simp add: trylock_poll [OF P mux(1)] owner_def reported_def busy_as_ok_def)
  next
    case (Some u)
    show ?thesis
    proof (cases "u = t")
      case True
      with Some mux assms(2) show ?thesis by (simp add: trylock_poll [OF P mux(1)] reported_def busy_as_ok_def)
    next
      case False
      with Some assms(2) trylock_other [OF P mux(1) M poll Some] show ?thesis
        by (simp add: reported_def busy_as_ok_def)
    qed
  qed
qed

lemma unlock_refines:
  assumes "mutex_wf (P, M) mux"
  shows "mutex_wf (P, M) (snd (pthread_mutex_unlock M t mux)) \<and>
    reported (Unlock t) (owner M mux) =
      (fst (pthread_mutex_unlock M t mux), owner M (snd (pthread_mutex_unlock M t mux)))"
  using assms by (cases "owner M mux = Some t") (auto simp: pthread_mutex_unlock_def owner_def reported_def busy_as_ok_def)

interpretation mxr: simulation mutex_kernel_ok mutex_wf "\<lambda>_ _. True" "\<lambda>(P, M). owner M" mutex_exec
  "\<lambda>_. reported"
proof unfold_locales
  fix p :: "platform \<times> ('t, 'm) mut_ops" and mux :: "'m pthread_mutex" and c :: "'t mop"
  assume ok: "mutex_kernel_ok p" "mutex_wf p mux"
  obtain P M where p: "p = (P, M)" by (cases p)
  note trylock = trylock_refines [OF ok [unfolded p]] and unlock = unlock_refines [OF ok(2) [unfolded p]]
  show "\<exists>r mux'. mutex_exec p c mux = Returns (r, mux') \<and> mutex_wf p mux' \<and>
      reported c ((case p of (P, M) \<Rightarrow> owner M) mux) = (r, (case p of (P, M) \<Rightarrow> owner M) mux')"
  proof (cases c)
    case (TryLock t n z)
    from trylock [of t n z] show ?thesis
      unfolding p TryLock mutex_exec.simps
      by (intro exI [of _ "fst (pthread_mutex_trylock P M t n z mux)"]
          exI [of _ "snd (pthread_mutex_trylock P M t n z mux)"]) simp
  next
    case (Unlock t)
    from unlock [of t] show ?thesis
      unfolding p Unlock mutex_exec.simps
      by (intro exI [of _ "fst (pthread_mutex_unlock M t mux)"]
          exI [of _ "snd (pthread_mutex_unlock M t mux)"]) simp
  qed
qed

text \<open>On the specification: a task that holds the mutex keeps it until it unlocks it.\<close>

lemma spec_keeps_owner:
  "Unlock u \<notin> set ops \<Longrightarrow> snd (spec_calls mutex_spec ops (Some u)) = Some u"
proof (induction ops)
  case Nil
  then show ?case by simp
next
  case (Cons c ops)
  have "snd (mutex_spec c (Some u)) = Some u" using Cons.prems by (cases c) auto
  with Cons show ?case by (cases "mutex_spec c (Some u)"; cases "spec_calls mutex_spec ops (Some u)") simp
qed

section \<open>Properties\<close>

text \<open>
  C15: an error-checking mutex is its owner, except that it does not report to be busy. From
  any state of use (such as \<open>pthread_mutex_init\<close> leaves, lemma \<open>init_wf\<close>), any sequence of
  \<open>trylock\<close> and \<open>unlock\<close> calls of any tasks leaves the owner of the specification, and has its
  results but for one: where the specification says \<open>EBUSY\<close>, because another task holds the
  mutex, the code returns 0. So a caller of \<open>trylock\<close> that gets 0 need not have the lock, but
  whoever has it keeps it until it unlocks it itself, whatever the others do.
\<close>

theorem mutex_refines_owner:
  assumes "mutex_kernel_ok (P, M)" and "mutex_wf (P, M) mux"
    and "spec_calls mutex_spec ops (owner M mux) = (rs, h)"
  shows "\<exists>mux'. run_calls (mutex_exec (P, M)) ops mux =
      Returns (map (\<lambda>r. if r = Err EBUSY then OK else r) rs, mux') \<and>
    mutex_wf (P, M) mux' \<and> owner M mux' = h \<and>
    (\<forall>u. owner M mux = Some u \<longrightarrow> Unlock u \<notin> set ops \<longrightarrow> owner M mux' = Some u)"
proof -
  have "list_all (\<lambda>_. True) ops" by (simp add: list_all_iff)
  from mxr.sim_calls [OF assms(1,2) this] obtain rs' mux' where
    run: "run_calls (mutex_exec (P, M)) ops mux = Returns (rs', mux')" "mutex_wf (P, M) mux'"
    and spec: "spec_calls reported ops (owner M mux) = (rs', owner M mux')" by auto
  from spec assms(3) have h: "owner M mux' = h" and rs: "rs' = map (\<lambda>r. if r = Err EBUSY then OK else r) rs"
    by (auto simp: reported_calls busy_as_ok_def)
  have "h = Some u" if "owner M mux = Some u" "Unlock u \<notin> set ops" for u
    using spec_keeps_owner [OF that(2)] assms(3) that(1) by simp
  with run h rs show ?thesis by blast
qed

theorem mutex_refines_owner_witness:
  "\<exists>mux'. run_calls (mutex_exec (ref_platform, ref_mut))
      [TryLock (2 :: nat) 5 9, TryLock 3 5 9, Unlock 3, TryLock 2 5 9, Unlock 2]
      \<lparr>m_inited = 5, m_mux = None, m_attr = \<lparr>mtype = PTHREAD_MUTEX_ERRORCHECK\<rparr>\<rparr> =
    Returns ([OK, OK, Err EPERM, Err EDEADLK, OK], mux') \<and> m_mux mux' = None"
proof -
  let ?mux = "\<lparr>m_inited = 5, m_mux = None :: nat option, m_attr = \<lparr>mtype = PTHREAD_MUTEX_ERRORCHECK\<rparr>\<rparr>"
  let ?ops = "[TryLock (2 :: nat) 5 9, TryLock 3 5 9, Unlock 3, TryLock 2 5 9, Unlock 2]"
  have "mutex_kernel_ok (ref_platform, ref_mut :: (nat, nat option) mut_ops)"
    "mutex_wf (ref_platform, ref_mut) ?mux"
    by (simp_all add: owner_def)
  moreover have "spec_calls mutex_spec ?ops (owner ref_mut ?mux) =
      ([OK, Err EBUSY, Err EPERM, Err EDEADLK, OK], None)"
    by (simp add: owner_def)
  ultimately show ?thesis
    using mutex_refines_owner [of ref_platform ref_mut ?mux ?ops]
    by (auto simp: owner_def simp del: run_calls.simps)
qed

end
