(* ===== verification/Mqueue.thy ===== *)
theory Mqueue
  imports Clock Memory
begin

text \<open>
  \<open>src/src/posix_mqueue.c\<close>: message queues, kept in a registry \<open>allq\<close> behind one mutex. A call
  names its task \<open>t\<close>, takes \<open>errno\<close> and the state of the library and returns them; it runs
  without interference except inside the kernel's \<open>mq_put\<close> and \<open>mq_get\<close>, whose result may
  reflect what other tasks did to the queue. The parts a call runs under the lock have names of
  their own, from which \<open>Mq_Threads\<close> makes a program whose steps are interleaved. The kernel's
  queues are a parameter.
\<close>

section \<open>Queues and the registry\<close>

definition POSIX_MQUEUE_NAME_SZ :: nat where
  "POSIX_MQUEUE_NAME_SZ = 16"

definition POSIX_MQUEUE_DEF_MSG_MAX :: int where
  "POSIX_MQUEUE_DEF_MSG_MAX = 128"

definition POSIX_MQUEUE_DEF_MSG_SZ :: int where
  "POSIX_MQUEUE_DEF_MSG_SZ = 4"

definition POSIX_NAME_MAX :: nat where
  "POSIX_NAME_MAX = 64"

text \<open>
  The kernel's queue: \<open>sz\<close>, \<open>isz\<close> and \<open>n\<close> are its fields. \<open>mq_put q m t\<close> and \<open>mq_get q t\<close> are
  whole calls with timeout \<open>t\<close> on a message of words: whether it succeeded (and the message
  got), and the queue afterwards.
\<close>

record 'q mq_ops =
  mq_init :: "u32 \<Rightarrow> addr ptr \<Rightarrow> u32 \<Rightarrow> 'q"
  mq_sz :: "'q \<Rightarrow> u32"
  mq_isz :: "'q \<Rightarrow> u32"
  mq_n :: "'q \<Rightarrow> u32"
  mq_put :: "'q \<Rightarrow> u32 list \<Rightarrow> u32 \<Rightarrow> bool \<times> 'q"
  mq_get :: "'q \<Rightarrow> u32 \<Rightarrow> u32 list option \<times> 'q"

record mq_attr =
  mq_flags :: int
  mq_maxmsg :: int
  mq_msgsize :: int
  mq_curmsgs :: int

text \<open>A descriptor is the address of the queue's object, \<open>NULL\<close>, or \<open>(mqd_t) -1\<close>.\<close>

datatype mqd = MqdNull | MqdError | Mqd addr

text \<open>The link \<open>ll\<close> of a queue object is its membership in the list \<open>allq\<close>.\<close>

record 'q mqd_internal =
  d_q :: 'q
  d_buf :: "addr ptr"
  d_name :: string
  d_flags :: int
  d_open_count :: u16
  d_pending_unlink :: u16

record ('q, 'm, 'h) mq_world =
  q_heap :: 'h
  q_obj :: "addr \<Rightarrow> 'q mqd_internal option"
  allq :: "addr list"
  allq_mux :: 'm
  mq_inited :: int

text \<open>
  What is not in the sources: the flags are those of \<open>fcntl.h\<close>, \<open>zero_mq\<close> is a kernel queue of
  zero bytes.
\<close>

record ('t, 'q, 'm, 'h) mq_env =
  q_plat :: platform
  q_muts :: "('t, 'm) mut_ops"
  q_mem :: "'h hcos_posix"
  q_ops :: "'q mq_ops"
  zero_mq :: 'q
  sizeof_mqd :: u32
  O_CREAT :: int
  O_EXCL :: int
  O_NONBLOCK :: int

section \<open>Helpers\<close>

definition get_tick_timeout ::
    "('t, 'q, 'm, 'h) mq_env \<Rightarrow> u32 \<Rightarrow> int \<Rightarrow> timespec ptr \<Rightarrow> u32 \<Rightarrow> ret \<times> u32" where
  "get_tick_timeout e tmr_ticks flags timeout ptimeout =
     (if flags AND O_NONBLOCK e \<noteq> 0 then (OK, 0)
      else
        (case timeout of
           None \<Rightarrow> (OK, WAIT (q_plat e))
         | Some _ \<Rightarrow>
             if \<not> validate_timespec timeout then (Err EINVAL, ptimeout)
             else
               (case clock_gettime (q_plat e) tmr_ticks CLOCK_REALTIME (Some \<lparr>tv_sec = 0, tv_nsec = 0\<rparr>) of
                  (r, cur) \<Rightarrow>
                    if r \<noteq> OK then (Err EINVAL, ptimeout)
                    else
                      (case abs_timespec2ticks (q_plat e) timeout cur (Some ptimeout) of
                         (r, p) \<Rightarrow> (if r \<noteq> OK then Err ETIMEDOUT else OK, the p)))))"

definition validate_name :: "string \<Rightarrow> u32 \<Rightarrow> int \<times> u32" where
  "validate_name name len0 =
     (if name = [] \<or> hd name \<noteq> CHR ''/'' then (0, len0)
      else
        (let len = min (length name) (POSIX_NAME_MAX + 2)
         in if len = POSIX_NAME_MAX + 2 then (0, len0) else (1, of_nat len)))"

definition mq_check_init ::
    "('t, 'q, 'm, 'h) mq_env \<Rightarrow> ('q, 'm, 'h) mq_world \<Rightarrow> ('q, 'm, 'h) mq_world" where
  "mq_check_init e w =
     (if mq_inited w \<noteq> 0 then w
      else w\<lparr>allq := [], allq_mux := mut_init (q_muts e), mq_inited := 1\<rparr>)"

text \<open>\<open>mut_lock(&allq_mux, WAIT)\<close> and its unlock.\<close>

definition lock_allq ::
    "('t, 'q, 'm, 'h) mq_env \<Rightarrow> 't \<Rightarrow> ('q, 'm, 'h) mq_world \<Rightarrow> ('q, 'm, 'h) mq_world run" where
  "lock_allq e t w =
     (case mut_take (q_muts e) t (allq_mux w) of
        None \<Rightarrow> Blocks
      | Some m \<Rightarrow> Returns (w\<lparr>allq_mux := m\<rparr>))"

definition unlock_allq ::
    "('t, 'q, 'm, 'h) mq_env \<Rightarrow> ('q, 'm, 'h) mq_world \<Rightarrow> ('q, 'm, 'h) mq_world" where
  "unlock_allq e w = w\<lparr>allq_mux := mut_unlock (q_muts e) (allq_mux w)\<rparr>"

text \<open>The two searches; an element of the list that is no longer there is a fault.\<close>

fun mq_extract_locked ::
    "(addr \<Rightarrow> 'q mqd_internal option) \<Rightarrow> addr list \<Rightarrow> mqd \<Rightarrow> addr option run" where
  "mq_extract_locked obj [] mq = Returns None"
| "mq_extract_locked obj (p # ps) mq =
     (case obj p of
        None \<Rightarrow> Faults
      | Some _ \<Rightarrow> if Mqd p = mq then Returns (Some p) else mq_extract_locked obj ps mq)"

fun mq_find_locked ::
    "(addr \<Rightarrow> 'q mqd_internal option) \<Rightarrow> addr list \<Rightarrow> string \<Rightarrow> addr option run" where
  "mq_find_locked obj [] name = Returns None"
| "mq_find_locked obj (p # ps) name =
     (case obj p of
        None \<Rightarrow> Faults
      | Some mq \<Rightarrow> if name = d_name mq then Returns (Some p) else mq_find_locked obj ps name)"

definition put_mq ::
    "addr \<Rightarrow> 'q mqd_internal \<Rightarrow> ('q, 'm, 'h) mq_world \<Rightarrow> ('q, 'm, 'h) mq_world" where
  "put_mq a mq w = w\<lparr>q_obj := (q_obj w)(a \<mapsto> mq)\<rparr>"

definition mq_free ::
    "('t, 'q, 'm, 'h) mq_env \<Rightarrow> addr \<Rightarrow> ('q, 'm, 'h) mq_world \<Rightarrow> ('q, 'm, 'h) mq_world run" where
  "mq_free e a w =
     (case q_obj w a of
        None \<Rightarrow> Faults
      | Some mq \<Rightarrow>
          run_bind (posix_free (q_mem e) POSIX_MQUEUE_BUF (d_buf mq) (q_heap w)) (\<lambda>h.
          run_bind (posix_free (q_mem e) POSIX_MQUEUE (Some a) h) (\<lambda>h.
            Returns (w\<lparr>q_heap := h, q_obj := (q_obj w)(a := None)\<rparr>))))"

text \<open>What \<open>mq_close\<close> and \<open>mq_unlink\<close> do last: free the queue if it was \<open>removed\<close>.\<close>

definition free_removed ::
    "('t, 'q, 'm, 'h) mq_env \<Rightarrow> addr option \<Rightarrow> ('q, 'm, 'h) mq_world \<Rightarrow> ('q, 'm, 'h) mq_world run" where
  "free_removed e removed w = (case removed of None \<Rightarrow> Returns w | Some a \<Rightarrow> mq_free e a w)"

section \<open>Closing, attributes, unlinking\<close>

text \<open>
  What a call does while it holds \<open>allq_mux\<close> is a function of its own (\<open>_locked\<close>, or
  \<open>_checks\<close>), so that calls can be composed whole here and step by step in \<open>Mq_Threads\<close>. The
  queue that \<open>mq_close\<close> or \<open>mq_unlink\<close> has \<open>removed\<close> is the second result.
\<close>

text \<open>One descriptor fewer, at the start of \<open>mq_close\<close>.\<close>

definition drop_descriptor :: "'q mqd_internal \<Rightarrow> 'q mqd_internal" where
  "drop_descriptor mq =
     (if 0 < d_open_count mq then mq\<lparr>d_open_count := d_open_count mq - 1\<rparr> else mq)"

definition mq_close_locked ::
    "('t, 'q, 'm, 'h) mq_env \<Rightarrow> mqd \<Rightarrow> errno option \<Rightarrow> ('q, 'm, 'h) mq_world \<Rightarrow>
       (ret \<times> addr option \<times> errno option \<times> ('q, 'm, 'h) mq_world) run" where
  "mq_close_locked e mqdes err w =
     run_bind (mq_extract_locked (q_obj w) (allq w) mqdes) (\<lambda>found.
       case found of
         None \<Rightarrow> Returns (MinusOne, None, Some EBADF, w)
       | Some a \<Rightarrow>
           (let mq = drop_descriptor (the (q_obj w a))
            in if d_open_count mq = 0 then
                 if d_pending_unlink mq \<noteq> 0 then
                   Returns (OK, Some a, err, (put_mq a mq w)\<lparr>allq := remove1 a (allq w)\<rparr>)
                 else Returns (OK, None, err, put_mq a (mq\<lparr>d_pending_unlink := 1\<rparr>) w)
               else Returns (OK, None, err, put_mq a mq w)))"

definition mq_close ::
    "('t, 'q, 'm, 'h) mq_env \<Rightarrow> 't \<Rightarrow> mqd \<Rightarrow> errno option \<Rightarrow> ('q, 'm, 'h) mq_world \<Rightarrow>
       (ret \<times> errno option \<times> ('q, 'm, 'h) mq_world) run" where
  "mq_close e t mqdes err w =
     run_bind (lock_allq e t (mq_check_init e w)) (\<lambda>w.
     run_bind (mq_close_locked e mqdes err w) (\<lambda>(ret, removed, err, w).
     run_bind (free_removed e removed (unlock_allq e w)) (\<lambda>w. Returns (ret, err, w))))"

definition mq_getattr_locked ::
    "('t, 'q, 'm, 'h) mq_env \<Rightarrow> mqd \<Rightarrow> mq_attr ptr \<Rightarrow> errno option \<Rightarrow> ('q, 'm, 'h) mq_world \<Rightarrow>
       (ret \<times> mq_attr ptr \<times> errno option) run" where
  "mq_getattr_locked e mqdes mqstat err w =
     run_bind (mq_extract_locked (q_obj w) (allq w) mqdes) (\<lambda>found.
       case found of
         None \<Rightarrow> Returns (MinusOne, mqstat, Some EBADF)
       | Some a \<Rightarrow>
           (case mqstat of
              None \<Rightarrow> Faults
            | Some _ \<Rightarrow>
                (let mq = the (q_obj w a)
                 in Returns (OK,
                      Some \<lparr>mq_flags = d_flags mq,
                        mq_maxmsg = s32 (uint (mq_sz (q_ops e) (d_q mq))),
                        mq_msgsize = s32 (uint (mq_isz (q_ops e) (d_q mq))),
                        mq_curmsgs = s32 (uint (mq_n (q_ops e) (d_q mq)))\<rparr>,
                      err))))"

definition mq_getattr ::
    "('t, 'q, 'm, 'h) mq_env \<Rightarrow> 't \<Rightarrow> mqd \<Rightarrow> mq_attr ptr \<Rightarrow> errno option \<Rightarrow>
       ('q, 'm, 'h) mq_world \<Rightarrow> (ret \<times> mq_attr ptr \<times> errno option \<times> ('q, 'm, 'h) mq_world) run" where
  "mq_getattr e t mqdes mqstat err w =
     run_bind (lock_allq e t (mq_check_init e w)) (\<lambda>w.
     run_bind (mq_getattr_locked e mqdes mqstat err w) (\<lambda>(ret, mqstat, err).
       Returns (ret, mqstat, err, unlock_allq e w)))"

definition mq_unlink_locked ::
    "string \<Rightarrow> errno option \<Rightarrow> ('q, 'm, 'h) mq_world \<Rightarrow>
       (ret \<times> addr option \<times> errno option \<times> ('q, 'm, 'h) mq_world) run" where
  "mq_unlink_locked name err w =
     run_bind (mq_find_locked (q_obj w) (allq w) name) (\<lambda>found.
       case found of
         None \<Rightarrow> Returns (MinusOne, None, Some ENOENT, w)
       | Some a \<Rightarrow>
           (let mq = the (q_obj w a)
            in if d_open_count mq = 0 then
                 Returns (OK, Some a, err, w\<lparr>allq := remove1 a (allq w)\<rparr>)
               else Returns (OK, None, err, put_mq a (mq\<lparr>d_pending_unlink := 1\<rparr>) w)))"

definition mq_unlink ::
    "('t, 'q, 'm, 'h) mq_env \<Rightarrow> 't \<Rightarrow> string \<Rightarrow> errno option \<Rightarrow> ('q, 'm, 'h) mq_world \<Rightarrow>
       (ret \<times> errno option \<times> ('q, 'm, 'h) mq_world) run" where
  "mq_unlink e t name err w =
     (let w = mq_check_init e w
      in if fst (validate_name name 0) = 0 then Returns (MinusOne, Some ENAMETOOLONG, w)
         else
           run_bind (lock_allq e t w) (\<lambda>w.
           run_bind (mq_unlink_locked name err w) (\<lambda>(ret, removed, err, w).
           run_bind (free_removed e removed (unlock_allq e w)) (\<lambda>w. Returns (ret, err, w)))))"

section \<open>Opening\<close>

text \<open>
  The size of a new queue: words per message, and the size passed to the allocator. The
  arithmetic of \<open>mq_msgsize\<close> is signed, the product unsigned.
\<close>

definition queue_nwords :: "mq_attr \<Rightarrow> u32" where
  "queue_nwords a = word_of_int (drop_bit 2 (s32 (mq_msgsize a + 3)))"

definition queue_buf_sz :: "mq_attr \<Rightarrow> u32" where
  "queue_buf_sz a = word_of_int (mq_maxmsg a) * queue_nwords a"

text \<open>
  Creating a queue, with \<open>allq_mux\<close> held. An allocation that fails leaves by \<open>goto out\<close>, past
  the unlock: the second result says so. \<open>strcpy\<close> into \<open>name\<close> faults when the name and its terminator do not fit.
\<close>

definition mq_create ::
    "('t, 'q, 'm, 'h) mq_env \<Rightarrow> string \<Rightarrow> int \<Rightarrow> mq_attr ptr \<Rightarrow> errno option \<Rightarrow>
       ('q, 'm, 'h) mq_world \<Rightarrow> (mqd \<times> bool \<times> errno option \<times> ('q, 'm, 'h) mq_world) run" where
  "mq_create e name oflag attr err w =
     (let def_attr =
        (case attr of
           None \<Rightarrow> \<lparr>mq_flags = 0, mq_maxmsg = POSIX_MQUEUE_DEF_MSG_MAX,
             mq_msgsize = POSIX_MQUEUE_DEF_MSG_SZ, mq_curmsgs = 0\<rparr>
         | Some a \<Rightarrow> a);
          def_attr = def_attr\<lparr>mq_flags := oflag\<rparr>
      in case hcos_posix_alloc (q_mem e) of
           None \<Rightarrow> Faults
         | Some alloc \<Rightarrow>
             (case alloc POSIX_MQUEUE (sizeof_mqd e) (q_heap w) of
                (None, h) \<Rightarrow> Returns (MqdError, True, Some ENOENT, w\<lparr>q_heap := h\<rparr>)
              | (Some a, h) \<Rightarrow>
                  (let mq = \<lparr>d_q = zero_mq e, d_buf = None, d_name = '''', d_flags = 0,
                         d_open_count = 0, d_pending_unlink = 0\<rparr>;
                       nwords = queue_nwords def_attr;
                       buf_sz = queue_buf_sz def_attr
                   in case alloc POSIX_MQUEUE_BUF buf_sz h of
                        (None, h) \<Rightarrow>
                          Returns (MqdError, True, Some ENOENT, (put_mq a mq w)\<lparr>q_heap := h\<rparr>)
                      | (Some b, h) \<Rightarrow>
                          if POSIX_MQUEUE_NAME_SZ \<le> length name then Faults
                          else
                            (let mq = mq\<lparr>d_buf := Some b, d_name := name,
                                   d_flags := mq_flags def_attr, d_open_count := 0,
                                   d_q := mq_init (q_ops e) nwords (Some b) buf_sz\<rparr>
                             in Returns (Mqd a, False, err, (put_mq a mq w)\<lparr>q_heap := h\<rparr>)))))"

definition mq_open_locked ::
    "('t, 'q, 'm, 'h) mq_env \<Rightarrow> string \<Rightarrow> int \<Rightarrow> mq_attr ptr \<Rightarrow> errno option \<Rightarrow>
       ('q, 'm, 'h) mq_world \<Rightarrow> (mqd \<times> bool \<times> errno option \<times> ('q, 'm, 'h) mq_world) run" where
  "mq_open_locked e name oflag attr err w =
     run_bind (mq_find_locked (q_obj w) (allq w) name) (\<lambda>found.
       case found of
         Some a \<Rightarrow>
           if oflag AND O_EXCL e \<noteq> 0 \<and> oflag AND O_CREAT e \<noteq> 0
           then Returns (MqdError, False, Some EEXIST, w)
           else
             (let mq = the (q_obj w a)
              in Returns (Mqd a, False, err, put_mq a (mq\<lparr>d_open_count := d_open_count mq + 1\<rparr>) w))
       | None \<Rightarrow>
           if oflag AND O_CREAT e \<noteq> 0 then mq_create e name oflag attr err w
           else Returns (MqdError, False, Some ENOENT, w))"

text \<open>The tests before the lock: the descriptor to return, \<open>NULL\<close> to go on, and \<open>errno\<close>.\<close>

definition mq_open_checks :: "string \<Rightarrow> mq_attr ptr \<Rightarrow> errno option \<Rightarrow> mqd \<times> errno option" where
  "mq_open_checks name attr err =
     (let (mq, err) =
            (if fst (validate_name name 0) = 0 then (MqdError, Some EINVAL) else (MqdNull, err));
          (mq, err) =
            (if mq = MqdNull \<and> (case attr of None \<Rightarrow> False | Some a \<Rightarrow> mq_maxmsg a < 0 \<or> mq_msgsize a < 0)
             then (MqdError, Some EINVAL) else (mq, err))
      in (mq, err))"

definition mq_open ::
    "('t, 'q, 'm, 'h) mq_env \<Rightarrow> 't \<Rightarrow> string \<Rightarrow> int \<Rightarrow> u32 \<Rightarrow> mq_attr ptr \<Rightarrow> errno option \<Rightarrow>
       ('q, 'm, 'h) mq_world \<Rightarrow> (mqd \<times> errno option \<times> ('q, 'm, 'h) mq_world) run" where
  "mq_open e t name oflag mode attr err w =
     (let w = mq_check_init e w;
          (mq, err) = mq_open_checks name attr err
      in if mq \<noteq> MqdNull then Returns (mq, err, w)
         else
           run_bind (lock_allq e t w) (\<lambda>w.
           run_bind (mq_open_locked e name oflag attr err w) (\<lambda>(mq, goto_out, err, w).
             Returns (mq, err, if goto_out then w else unlock_allq e w))))"

section \<open>Sending and receiving\<close>

text \<open>
  The locked first half that \<open>mq_timedreceive\<close> and \<open>mq_timedsend\<close> have in common, with the test
  of the message size as an argument. It does not call \<open>mq_check_init\<close>: before any other
  call it uses a mutex and a list that were never initialised, which is a fault.
\<close>

definition mq_io_checks ::
    "('t, 'q, 'm, 'h) mq_env \<Rightarrow> u32 \<Rightarrow> mqd \<Rightarrow> u32 \<Rightarrow> ('q \<Rightarrow> bool) \<Rightarrow> timespec ptr \<Rightarrow>
       errno option \<Rightarrow> ('q, 'm, 'h) mq_world \<Rightarrow> (ret \<times> addr option \<times> u32 \<times> errno option) run" where
  "mq_io_checks e tmr_ticks mqdes msg_ptr bad_size abstime err w =
     run_bind (mq_extract_locked (q_obj w) (allq w) mqdes) (\<lambda>found.
       (let mq = the (q_obj w (the found));
            (ret, err) = (if found = None then (MinusOne, Some EBADF) else (OK, err));
            (ret, err) = (if msg_ptr AND 3 \<noteq> 0 then (MinusOne, Some EINVAL) else (ret, err));
            (ret, err) =
              (if ret = OK \<and> bad_size (d_q mq) then (MinusOne, Some EMSGSIZE) else (ret, err));
            (timeout_ret, timeout) =
              (if ret = OK then get_tick_timeout e tmr_ticks (d_flags mq) abstime 0 else (OK, 0));
            (ret, err) =
              (case timeout_ret of Err x \<Rightarrow> (MinusOne, Some x) | _ \<Rightarrow> (ret, err))
        in Returns (ret, found, timeout, err)))"

definition mq_locked_checks ::
    "('t, 'q, 'm, 'h) mq_env \<Rightarrow> 't \<Rightarrow> u32 \<Rightarrow> mqd \<Rightarrow> u32 \<Rightarrow> ('q \<Rightarrow> bool) \<Rightarrow> timespec ptr \<Rightarrow>
       errno option \<Rightarrow> ('q, 'm, 'h) mq_world \<Rightarrow>
       (ret \<times> addr option \<times> u32 \<times> errno option \<times> ('q, 'm, 'h) mq_world) run" where
  "mq_locked_checks e t tmr_ticks mqdes msg_ptr bad_size abstime err w =
     (if mq_inited w = 0 then Faults
      else
        run_bind (lock_allq e t w) (\<lambda>w.
        run_bind (mq_io_checks e tmr_ticks mqdes msg_ptr bad_size abstime err w)
          (\<lambda>(ret, found, timeout, err). Returns (ret, found, timeout, err, unlock_allq e w))))"

text \<open>The message received is the second result.\<close>

definition mq_timedreceive ::
    "('t, 'q, 'm, 'h) mq_env \<Rightarrow> 't \<Rightarrow> u32 \<Rightarrow> mqd \<Rightarrow> u32 \<Rightarrow> u32 \<Rightarrow> timespec ptr \<Rightarrow> errno option \<Rightarrow>
       ('q, 'm, 'h) mq_world \<Rightarrow> (int \<times> u32 list option \<times> errno option \<times> ('q, 'm, 'h) mq_world) run" where
  "mq_timedreceive e t tmr_ticks mqdes msg_ptr msg_len abstime err w =
     run_bind
       (mq_locked_checks e t tmr_ticks mqdes msg_ptr (\<lambda>q. msg_len < mq_isz (q_ops e) q) abstime err w)
       (\<lambda>(ret, found, timeout, err, w).
          if ret \<noteq> OK then Returns (-1, None, err, w)
          else
            (let a = the found; mq = the (q_obj w a)
             in case mq_get (q_ops e) (d_q mq) timeout of
                  (None, q) \<Rightarrow>
                    Returns (-1, None,
                      Some (if d_flags mq AND O_NONBLOCK e \<noteq> 0 then EAGAIN else ETIMEDOUT),
                      put_mq a (mq\<lparr>d_q := q\<rparr>) w)
                | (Some msg, q) \<Rightarrow>
                    Returns (s32 (uint (mq_isz (q_ops e) q)), Some msg, err, put_mq a (mq\<lparr>d_q := q\<rparr>) w)))"

definition mq_receive ::
    "('t, 'q, 'm, 'h) mq_env \<Rightarrow> 't \<Rightarrow> u32 \<Rightarrow> mqd \<Rightarrow> u32 \<Rightarrow> u32 \<Rightarrow> errno option \<Rightarrow>
       ('q, 'm, 'h) mq_world \<Rightarrow> (int \<times> u32 list option \<times> errno option \<times> ('q, 'm, 'h) mq_world) run" where
  "mq_receive e t tmr_ticks mqdes msg_ptr msg_len err w =
     mq_timedreceive e t tmr_ticks mqdes msg_ptr msg_len None err w"

text \<open>\<open>msg\<close> are the words at \<open>msg_ptr\<close>.\<close>

definition mq_timedsend ::
    "('t, 'q, 'm, 'h) mq_env \<Rightarrow> 't \<Rightarrow> u32 \<Rightarrow> mqd \<Rightarrow> u32 \<Rightarrow> u32 list \<Rightarrow> u32 \<Rightarrow> timespec ptr \<Rightarrow>
       errno option \<Rightarrow> ('q, 'm, 'h) mq_world \<Rightarrow> (ret \<times> errno option \<times> ('q, 'm, 'h) mq_world) run" where
  "mq_timedsend e t tmr_ticks mqdes msg_ptr msg msg_len abstime err w =
     run_bind
       (mq_locked_checks e t tmr_ticks mqdes msg_ptr (\<lambda>q. mq_isz (q_ops e) q < msg_len) abstime err w)
       (\<lambda>(ret, found, timeout, err, w).
          if ret \<noteq> OK then Returns (MinusOne, err, w)
          else
            (let a = the found; mq = the (q_obj w a)
             in case mq_put (q_ops e) (d_q mq) msg timeout of
                  (False, q) \<Rightarrow>
                    Returns (MinusOne,
                      Some (if d_flags mq AND O_NONBLOCK e \<noteq> 0 then EAGAIN else ETIMEDOUT),
                      put_mq a (mq\<lparr>d_q := q\<rparr>) w)
                | (True, q) \<Rightarrow> Returns (OK, err, put_mq a (mq\<lparr>d_q := q\<rparr>) w)))"

definition mq_send ::
    "('t, 'q, 'm, 'h) mq_env \<Rightarrow> 't \<Rightarrow> u32 \<Rightarrow> mqd \<Rightarrow> u32 \<Rightarrow> u32 list \<Rightarrow> u32 \<Rightarrow> errno option \<Rightarrow>
       ('q, 'm, 'h) mq_world \<Rightarrow> (ret \<times> errno option \<times> ('q, 'm, 'h) mq_world) run" where
  "mq_send e t tmr_ticks mqdes msg_ptr msg msg_len err w =
     mq_timedsend e t tmr_ticks mqdes msg_ptr msg msg_len None err w"

section \<open>Facts\<close>

lemmas mq_close_defs = mq_close_def mq_close_locked_def free_removed_def
lemmas mq_getattr_defs = mq_getattr_def mq_getattr_locked_def
lemmas mq_unlink_defs = mq_unlink_def mq_unlink_locked_def free_removed_def
lemmas mq_open_defs = mq_open_def mq_open_checks_def mq_open_locked_def
lemmas mq_checks_defs = mq_locked_checks_def mq_io_checks_def

lemmas mq_ops_defs = mq_close_defs mq_getattr_defs mq_unlink_defs mq_open_defs mq_timedreceive_def
  mq_timedsend_def

lemma run_bind_Returns:
  "run_bind r f = Returns x \<longleftrightarrow> (\<exists>y. r = Returns y \<and> f y = Returns x)"
  by (cases r) auto

lemma lock_allq_world:
  "lock_allq e t w = Returns w' \<Longrightarrow> allq w' = allq w \<and> q_obj w' = q_obj w \<and>
     q_heap w' = q_heap w \<and> mq_inited w' = mq_inited w"
  by (auto simp: lock_allq_def split: option.splits)

lemma unlock_allq_sel [simp]:
  "allq (unlock_allq e w) = allq w" "q_obj (unlock_allq e w) = q_obj w"
  "q_heap (unlock_allq e w) = q_heap w" "mq_inited (unlock_allq e w) = mq_inited w"
  "allq_mux (unlock_allq e w) = mut_unlock (q_muts e) (allq_mux w)"
  by (simp_all add: unlock_allq_def)

lemma put_mq_sel [simp]:
  "allq (put_mq a mq w) = allq w" "q_obj (put_mq a mq w) = (q_obj w)(a \<mapsto> mq)"
  "q_heap (put_mq a mq w) = q_heap w" "mq_inited (put_mq a mq w) = mq_inited w"
  "allq_mux (put_mq a mq w) = allq_mux w"
  by (simp_all add: put_mq_def)

text \<open>The queue object at an address.\<close>

definition mq_at :: "('q, 'm, 'h) mq_world \<Rightarrow> addr \<Rightarrow> 'q mqd_internal" where
  "mq_at w a = the (q_obj w a)"

lemma mq_check_init_inited [simp]:
  "mq_inited w \<noteq> 0 \<Longrightarrow> mq_check_init e w = w"
  "mq_inited (mq_check_init e w) \<noteq> 0"
  by (simp_all add: mq_check_init_def)

subsection \<open>The registry stays empty\<close>

text \<open>
  The states that calls lead to. The library starts with \<open>inited\<close> 0 and no assumption on the
  other variables; the calls may come from any tasks, with any arguments.
\<close>

definition mq_start :: "('t, 'q, 'm, 'h) mq_env \<Rightarrow> ('q, 'm, 'h) mq_world \<Rightarrow> bool" where
  "mq_start e w \<longleftrightarrow> mq_inited w = 0"

inductive mq_step ::
    "('t, 'q, 'm, 'h) mq_env \<Rightarrow> ('q, 'm, 'h) mq_world \<Rightarrow> ('q, 'm, 'h) mq_world \<Rightarrow> bool"
  for e :: "('t, 'q, 'm, 'h) mq_env" where
  close: "mq_close e t d err w = Returns (r, err', w') \<Longrightarrow> mq_step e w w'"
| getattr: "mq_getattr e t d st err w = Returns (r, st', err', w') \<Longrightarrow> mq_step e w w'"
| unlink: "mq_unlink e t n err w = Returns (r, err', w') \<Longrightarrow> mq_step e w w'"
| open_queue: "mq_open e t n oflag mode attr err w = Returns (d, err', w') \<Longrightarrow> mq_step e w w'"
| send: "mq_timedsend e t k d p msg len abstime err w = Returns (r, err', w') \<Longrightarrow> mq_step e w w'"
| receive: "mq_timedreceive e t k d p len abstime err w = Returns (n, msg, err', w') \<Longrightarrow> mq_step e w w'"

definition registry_empty :: "('t, 'q, 'm, 'h) mq_env \<Rightarrow> ('q, 'm, 'h) mq_world \<Rightarrow> bool" where
  "registry_empty e w \<longleftrightarrow> (mq_inited w \<noteq> 0 \<longrightarrow> allq w = [])"

lemma registry_empty_init:
  "registry_empty e w \<Longrightarrow> allq (mq_check_init e w) = []"
  by (auto simp: registry_empty_def mq_check_init_def)

lemma registry_empty_locked:
  assumes "registry_empty e w" and "lock_allq e t (mq_check_init e w) = Returns w'"
  shows "allq w' = []"
  using lock_allq_world [OF assms(2)] registry_empty_init [OF assms(1)] by simp

text \<open>What \<open>mq_open\<close> does once the name and the attributes have passed.\<close>

definition bad_open :: "string \<Rightarrow> mq_attr ptr \<Rightarrow> bool" where
  "bad_open name attr \<longleftrightarrow> fst (validate_name name 0) = 0 \<or>
     (case attr of None \<Rightarrow> False | Some a \<Rightarrow> mq_maxmsg a < 0 \<or> mq_msgsize a < 0)"

lemma mq_open_checks_eq:
  "mq_open_checks name attr err = (if bad_open name attr then (MqdError, Some EINVAL) else (MqdNull, err))"
  by (cases "fst (validate_name name 0) = 0";
      cases "case attr of None \<Rightarrow> False | Some a \<Rightarrow> mq_maxmsg a < 0 \<or> mq_msgsize a < 0")
    (simp_all add: mq_open_checks_def bad_open_def)

lemma mq_open_cases:
  "mq_open e t name oflag mode attr err w =
     (if bad_open name attr then Returns (MqdError, Some EINVAL, mq_check_init e w)
      else
        run_bind (lock_allq e t (mq_check_init e w)) (\<lambda>w.
        run_bind (mq_open_locked e name oflag attr err w) (\<lambda>(mq, goto_out, err, w).
          Returns (mq, err, if goto_out then w else unlock_allq e w))))"
  by (simp add: mq_open_def mq_open_checks_eq)

lemma mq_create_allq:
  "mq_create e n f attr err w = Returns (d, out, err', w') \<Longrightarrow> allq w' = allq w"
  by (auto simp: mq_create_def Let_def split: option.splits prod.splits if_splits)

lemma mq_checks_empty:
  assumes "mq_locked_checks e t k d p bad abstime err w = Returns (r, found, tmo, err', w')"
    and "registry_empty e w"
  shows "r = MinusOne \<and> found = None \<and> allq w' = [] \<and> err' = Some (if p AND 3 \<noteq> 0 then EINVAL else EBADF)"
proof -
  from assms(1) obtain u where i: "mq_inited w \<noteq> 0" and u: "lock_allq e t w = Returns u"
    by (auto simp: mq_checks_defs run_bind_Returns split: if_splits)
  with assms(2) lock_allq_world [OF u] have "allq u = []" by (simp add: registry_empty_def)
  with assms(1) i u show ?thesis by (auto simp: mq_checks_defs run_bind_Returns split: if_splits)
qed

lemma empty_calls:
  assumes "registry_empty e w"
  shows "mq_close e t d err w = Returns (r, err', w') \<Longrightarrow> allq w' = [] \<and> r = MinusOne \<and> err' = Some EBADF"
    and "mq_getattr e t d st err w = Returns (r, st', err', w') \<Longrightarrow>
      allq w' = [] \<and> r = MinusOne \<and> err' = Some EBADF"
    and "mq_unlink e t n err w = Returns (r, err', w') \<Longrightarrow> allq w' = [] \<and> r = MinusOne \<and>
      err' = Some (if fst (validate_name n 0) = 0 then ENAMETOOLONG else ENOENT)"
    and "mq_timedsend e t k d p msg len abstime err w = Returns (r, err', w') \<Longrightarrow>
      allq w' = [] \<and> r = MinusOne \<and> err' = Some (if p AND 3 \<noteq> 0 then EINVAL else EBADF)"
    and "mq_timedreceive e t k d p len abstime err w = Returns (i, m, err', w') \<Longrightarrow>
      allq w' = [] \<and> i = -1 \<and> m = None \<and> err' = Some (if p AND 3 \<noteq> 0 then EINVAL else EBADF)"
    and "mq_open e t n oflag mode attr err w = Returns (q, err', w') \<Longrightarrow> allq w' = []"
proof -
  note emp = registry_empty_locked [OF assms] registry_empty_init [OF assms]
  show "mq_close e t d err w = Returns (r, err', w') \<Longrightarrow> allq w' = [] \<and> r = MinusOne \<and> err' = Some EBADF"
    by (auto simp: mq_close_defs run_bind_Returns lock_allq_world emp(2))
  show "mq_getattr e t d st err w = Returns (r, st', err', w') \<Longrightarrow>
      allq w' = [] \<and> r = MinusOne \<and> err' = Some EBADF"
    by (auto simp: mq_getattr_defs run_bind_Returns lock_allq_world emp(2))
  show "mq_unlink e t n err w = Returns (r, err', w') \<Longrightarrow> allq w' = [] \<and> r = MinusOne \<and>
      err' = Some (if fst (validate_name n 0) = 0 then ENAMETOOLONG else ENOENT)"
    by (auto simp: mq_unlink_defs Let_def run_bind_Returns lock_allq_world emp(2) split: if_splits)
  show "mq_timedsend e t k d p msg len abstime err w = Returns (r, err', w') \<Longrightarrow>
      allq w' = [] \<and> r = MinusOne \<and> err' = Some (if p AND 3 \<noteq> 0 then EINVAL else EBADF)"
    by (auto simp: mq_timedsend_def run_bind_Returns dest: mq_checks_empty [OF _ assms])
  show "mq_timedreceive e t k d p len abstime err w = Returns (i, m, err', w') \<Longrightarrow>
      allq w' = [] \<and> i = -1 \<and> m = None \<and> err' = Some (if p AND 3 \<noteq> 0 then EINVAL else EBADF)"
    by (auto simp: mq_timedreceive_def run_bind_Returns dest: mq_checks_empty [OF _ assms])
  show "allq w' = []" if q: "mq_open e t n oflag mode attr err w = Returns (q, err', w')"
  proof (cases "bad_open n attr")
    case True
    with q show ?thesis by (auto simp: mq_open_cases mq_open_locked_def run_bind_Returns lock_allq_world emp(2))
  next
    case False
    with q obtain u where u: "lock_allq e t (mq_check_init e w) = Returns u"
      by (auto simp: mq_open_cases mq_open_locked_def run_bind_Returns)
    with False q emp(1) [OF u] show ?thesis
      by (auto simp: mq_open_cases mq_open_locked_def run_bind_Returns lock_allq_world emp(2) dest!: mq_create_allq split: if_splits)
  qed
qed

interpretation mqe: invariant_system "\<lambda>_. True" mq_start mq_step registry_empty
proof unfold_locales
  fix e :: "('t, 'q, 'm, 'h) mq_env" and w w' :: "('q, 'm, 'h) mq_world"
  show "mq_start e w \<Longrightarrow> registry_empty e w" by (simp add: mq_start_def registry_empty_def)
  assume "registry_empty e w"
  note emp = empty_calls [OF this]
  assume "mq_step e w w'"
  then have "allq w' = []" by cases (auto dest: emp)
  then show "registry_empty e w'" by (simp add: registry_empty_def)
qed

lemma locked_empty:
  assumes "registry_empty e w" and "lock_allq e t (mq_check_init e w) = Returns u"
  shows "mq_extract_locked (q_obj u) (allq u) d = Returns None"
    and "mq_find_locked (q_obj u) (allq u) n = Returns None"
  using registry_empty_locked [OF assms] by simp_all

subsection \<open>Failed allocations\<close>

lemma lock_blocks:
  assumes "mutex_laws (q_muts e)" and "mq_inited w \<noteq> 0" and "own (q_muts e) (allq_mux w) = Some t"
    and "u \<noteq> t"
  shows "lock_allq e u w = Blocks"
  using mutex_lawsD(5) [OF assms(1,3), of u] assms(4) by (auto simp: lock_allq_def)

lemma lock_free:
  assumes "mutex_laws (q_muts e)" and "own (q_muts e) (allq_mux w) = None"
  obtains u where "lock_allq e t w = Returns u" and "own (q_muts e) (allq_mux u) = Some t"
    and "own (q_muts e) (allq_mux (unlock_allq e u)) = None"
proof -
  obtain m where m: "mut_take (q_muts e) t (allq_mux w) = Some m"
    using mutex_lawsD(2) [OF assms] by blast
  from that [of "w\<lparr>allq_mux := m\<rparr>"] mutex_lawsD(3,4) [OF assms m] m show thesis
    by (simp add: lock_allq_def)
qed

section \<open>A reference kernel\<close>

text \<open>A queue is its message size in words, its capacity and the messages in it.\<close>

type_synonym ref_queue = "u32 \<times> u32 \<times> u32 list list"

definition ref_mq_ops :: "ref_queue mq_ops" where
  "ref_mq_ops =
     \<lparr>mq_init = (\<lambda>isz buf sz. (isz, sz div isz, [])),
      mq_sz = (\<lambda>(isz, sz, ms). sz), mq_isz = fst, mq_n = (\<lambda>(isz, sz, ms). of_nat (length ms)),
      mq_put = (\<lambda>(isz, sz, ms) m t.
        if length ms < unat sz then (True, (isz, sz, ms @ [take (unat isz) m]))
        else (False, (isz, sz, ms))),
      mq_get = (\<lambda>(isz, sz, ms) t.
        case ms of [] \<Rightarrow> (None, (isz, sz, ms)) | m # ms \<Rightarrow> (Some m, (isz, sz, ms)))\<rparr>"

definition ref_mq_env :: "(nat, ref_queue, nat option, ref_heap) mq_env" where
  "ref_mq_env =
     \<lparr>q_plat = ref_platform, q_muts = ref_mut, q_mem = ref_mem, q_ops = ref_mq_ops,
      zero_mq = (0, 0, []), sizeof_mqd = 64, O_CREAT = 512, O_EXCL = 2048, O_NONBLOCK = 16384\<rparr>"

definition ref_mq_world :: "nat \<Rightarrow> (ref_queue, nat option, ref_heap) mq_world" where
  "ref_mq_world n =
     \<lparr>q_heap = \<lparr>blocks = [], next_addr = 100, budget = n\<rparr>, q_obj = (\<lambda>_. None), allq = [],
      allq_mux = None, mq_inited = 0\<rparr>"

lemma ref_mq_env_sel [simp]:
  "q_plat ref_mq_env = ref_platform" "q_muts ref_mq_env = ref_mut" "q_mem ref_mq_env = ref_mem"
  "q_ops ref_mq_env = ref_mq_ops" "O_CREAT ref_mq_env = 512" "O_EXCL ref_mq_env = 2048"
  "O_NONBLOCK ref_mq_env = 16384" "zero_mq ref_mq_env = (0, 0, [])"
  by (simp_all add: ref_mq_env_def)

lemmas mq_run_simps = ref_mq_world_def ref_mq_ops_def ref_alloc_def ref_free_def mq_ops_defs
  mq_create_def mq_checks_defs mq_free_def mq_check_init_def lock_allq_def unlock_allq_def
  put_mq_def posix_free_def validate_name_def POSIX_NAME_MAX_def POSIX_MQUEUE_NAME_SZ_def
  POSIX_MQUEUE_DEF_MSG_MAX_def POSIX_MQUEUE_DEF_MSG_SZ_def queue_nwords_def queue_buf_sz_def
  get_tick_timeout_def

text \<open>The state after \<open>mq_open (''/q'', O_CREAT)\<close> with memory for \<open>n\<close> blocks.\<close>

definition opened :: "nat \<Rightarrow> (ref_queue, nat option, ref_heap) mq_world" where
  "opened n =
     (case mq_open ref_mq_env 2 ''/q'' 512 0 None None (ref_mq_world n) of
        Returns (d, err, w) \<Rightarrow> w | _ \<Rightarrow> ref_mq_world n)"

lemma opened_queue:
  "mq_open ref_mq_env 2 ''/q'' 512 0 None None (ref_mq_world 5) = Returns (Mqd 100, None, opened 5)"
  by (simp add: opened_def mq_run_simps c_arith)

lemma opened_no_buffer:
  "mq_open ref_mq_env 2 ''/q'' 512 0 None None (ref_mq_world 1) =
     Returns (MqdError, Some ENOENT, opened 1)"
  by (simp add: opened_def mq_run_simps c_arith)

section \<open>Properties\<close>

lemma opened_reachable: "reachable (mq_start ref_mq_env) (mq_step ref_mq_env) (opened 5)"
proof (rule reach_step)
  show "reachable (mq_start ref_mq_env) (mq_step ref_mq_env) (ref_mq_world 5)"
    by (rule reach_init) (simp add: mq_start_def ref_mq_world_def)
  show "mq_step ref_mq_env (ref_mq_world 5) (opened 5)"
    by (rule mq_step.open_queue [OF opened_queue])
qed

text \<open>
  C8: No queue is ever registered. In every state that calls lead to, one after the other, with
  any tasks and arguments, the registry is empty, because \<open>mq_open\<close> links no queue it creates into it. So
  a call that gets the registry's lock finds no queue: \<open>mq_close\<close>, \<open>mq_getattr\<close>,
  \<open>mq_send\<close> and \<open>mq_receive\<close> fail with \<open>EBADF\<close> (\<open>EINVAL\<close> for a message not word aligned) for
  every descriptor, those that \<open>mq_open\<close> has returned included, \<open>mq_unlink\<close> fails for every
  name, and \<open>mq_open\<close> creates a new queue whether or not there is one of that name.
\<close>

theorem mq_registry_empty:
  assumes "reachable (mq_start e) (mq_step e) w" and "lock_allq e t (mq_check_init e w) = Returns u"
  shows "allq u = [] \<and>
    mq_close e t d err w = Returns (MinusOne, Some EBADF, unlock_allq e u) \<and>
    mq_getattr e t d st err w = Returns (MinusOne, st, Some EBADF, unlock_allq e u) \<and>
    mq_timedsend e t k d p msg len abstime err w =
      (if mq_inited w = 0 then Faults
       else Returns (MinusOne, Some (if p AND 3 \<noteq> 0 then EINVAL else EBADF), unlock_allq e u)) \<and>
    mq_timedreceive e t k d p len abstime err w =
      (if mq_inited w = 0 then Faults
       else Returns (-1, None, Some (if p AND 3 \<noteq> 0 then EINVAL else EBADF), unlock_allq e u)) \<and>
    mq_unlink e t n err w =
      (if fst (validate_name n 0) = 0 then Returns (MinusOne, Some ENAMETOOLONG, mq_check_init e w)
       else Returns (MinusOne, Some ENOENT, unlock_allq e u)) \<and>
    mq_open e t n oflag mode attr err w =
      (if bad_open n attr then Returns (MqdError, Some EINVAL, mq_check_init e w)
       else if oflag AND O_CREAT e \<noteq> 0 then
         run_bind (mq_create e n oflag attr err u) (\<lambda>(d, goto_out, err, v).
           Returns (d, err, if goto_out then v else unlock_allq e v))
       else Returns (MqdError, Some ENOENT, unlock_allq e u))"
proof -
  have emp: "registry_empty e w" using assms(1) by (rule mqe.inv_reachable [OF TrueI])
  note none = locked_empty [OF this assms(2)]
  have "mq_locked_checks e t k d p bad abstime err w =
      (if mq_inited w = 0 then Faults
       else Returns (MinusOne, None, 0, Some (if p AND 3 \<noteq> 0 then EINVAL else EBADF), unlock_allq e u))"
    for bad
    using assms(2) none by (cases "mq_inited w = 0") (simp_all add: mq_checks_defs)
  then have io: "mq_timedsend e t k d p msg len abstime err w =
      (if mq_inited w = 0 then Faults
       else Returns (MinusOne, Some (if p AND 3 \<noteq> 0 then EINVAL else EBADF), unlock_allq e u))"
    "mq_timedreceive e t k d p len abstime err w =
      (if mq_inited w = 0 then Faults
       else Returns (-1, None, Some (if p AND 3 \<noteq> 0 then EINVAL else EBADF), unlock_allq e u))"
    by (simp_all add: mq_timedsend_def mq_timedreceive_def)
  show ?thesis
    using registry_empty_locked [OF emp assms(2)] none io
    by (simp add: mq_close_defs mq_getattr_defs mq_unlink_defs mq_open_cases mq_open_locked_def assms(2))
qed

theorem mq_registry_empty_witness:
  "mq_open ref_mq_env 2 ''/q'' 512 0 None None (ref_mq_world 5) = Returns (Mqd 100, None, opened 5) \<and>
    (\<exists>w. mq_close ref_mq_env 2 (Mqd 100) None (opened 5) = Returns (MinusOne, Some EBADF, w)) \<and>
    (\<exists>w. mq_timedsend ref_mq_env 2 0 (Mqd 100) 64 [7] 1 None None (opened 5) =
       Returns (MinusOne, Some EBADF, w)) \<and>
    (\<exists>w. mq_open ref_mq_env 2 ''/q'' 2560 0 None None (opened 5) = Returns (Mqd 102, None, w))"
proof -
  obtain u where u: "lock_allq ref_mq_env 2 (mq_check_init ref_mq_env (opened 5)) = Returns u"
    by (simp add: opened_def mq_run_simps c_arith)
  have "mq_inited (opened 5) \<noteq> 0" by (simp add: opened_def mq_run_simps c_arith)
  moreover have "\<exists>w. mq_open ref_mq_env 2 ''/q'' 2560 0 None None (opened 5) = Returns (Mqd 102, None, w)"
    by (simp add: opened_def mq_run_simps c_arith)
  ultimately show ?thesis
    using mq_registry_empty [OF opened_reachable u, of "Mqd 100" None None 0 64 "[7]" 1 None "''/q''" 0 0 None]
    by (simp add: opened_queue)
qed

text \<open>
  C23: the timeout of a send or receive. A non-blocking queue does not wait and a queue without a
  deadline waits forever. An invalid deadline is \<open>EINVAL\<close>, a passed one \<open>ETIMEDOUT\<close>. One not
  passed, at most $2^{32} - 1$ seconds ahead, gives the ticks of the time left, which reach it and
  exceed it by less than a tick; but if these do not fit \<open>unsigned\<close> the result is \<open>ETIMEDOUT\<close>
  too, although the comment of the function gives that for deadlines in the past only.
\<close>

theorem mq_tick_timeout:
  assumes "platform_ok P" and "P = q_plat e" and "now = clock_time P k"
    and "\<And>d. abstime = Some d \<Longrightarrow> validate_timespec abstime \<Longrightarrow> near P d now"
  shows "get_tick_timeout e k flags abstime tmo =
      (if flags AND O_NONBLOCK e \<noteq> 0 then (OK, 0)
       else
         (case abstime of
            None \<Rightarrow> (OK, WAIT P)
          | Some d \<Rightarrow>
              if \<not> validate_timespec abstime then (Err EINVAL, tmo)
              else if d < now then (Err ETIMEDOUT, tmo)
              else (if span_ticks P (nanos d - nanos now) \<le> 4294967295 then OK else Err ETIMEDOUT,
                    word_of_int (span_ticks P (nanos d - nanos now))))) \<and>
    (\<forall>d. abstime = Some d \<and> validate_timespec abstime \<and> now \<le> d \<and>
        span_ticks P (nanos d - nanos now) \<le> 4294967295 \<longrightarrow>
      (let n = uint (word_of_int (span_ticks P (nanos d - nanos now)) :: u32) in
        nanos d * uint (tmr_hz P) \<le> nanos now * uint (tmr_hz P) + n * 1000000000 \<and>
        nanos now + (n - 1) * NANOSECONDS_PER_TICK P < nanos d))"
proof (cases abstime)
  case None
  then show ?thesis using assms(2) by (simp add: get_tick_timeout_def)
next
  case (Some d)
  show ?thesis
  proof (cases "validate_timespec (Some d)")
    case False
    with Some show ?thesis by (auto simp: get_tick_timeout_def)
  next
    case True
    with Some have near: "near P d now" using assms(4) by blast
    have "get_tick_timeout e k flags (Some d) tmo =
      (if flags AND O_NONBLOCK e \<noteq> 0 then (OK, 0)
       else if d < now then (Err ETIMEDOUT, tmo)
       else (if span_ticks P (nanos d - nanos now) \<le> 4294967295 then OK else Err ETIMEDOUT,
         word_of_int (span_ticks P (nanos d - nanos now))))"
      using True dl.ahead [OF assms(1) near, of tmo] dl.past [of d now P tmo] assms(2,3)
      by (cases "d < now") (auto simp: get_tick_timeout_def)
    moreover have "let n = uint (word_of_int (span_ticks P (nanos d - nanos now)) :: u32) in
        nanos d * uint (tmr_hz P) \<le> nanos now * uint (tmr_hz P) + n * 1000000000 \<and>
        nanos now + (n - 1) * NANOSECONDS_PER_TICK P < nanos d"
      if "now \<le> d" "span_ticks P (nanos d - nanos now) \<le> 4294967295"
      using dl.ticks_fit [OF assms(1) dl.span_ok [OF near that(1)] that(2)] dl.reaches [OF assms(1), of d now]
        span_nominal [OF assms(1) dl.span_ok [OF near that(1)]] by (simp add: Let_def)
    ultimately show ?thesis using Some True by (simp del: validate_iff)
  qed
qed

theorem mq_tick_timeout_witness:
  "get_tick_timeout ref_mq_env 5 0 (Some \<lparr>tv_sec = 3, tv_nsec = 0\<rparr>) 9 = (OK, 2995) \<and>
   get_tick_timeout ref_mq_env 5 0 (Some \<lparr>tv_sec = 4294968, tv_nsec = 0\<rparr>) 9 = (Err ETIMEDOUT, 699)"
proof -
  let ?a = "\<lparr>tv_sec = 3, tv_nsec = 0\<rparr> :: timespec" and ?b = "\<lparr>tv_sec = 4294968, tv_nsec = 0\<rparr> :: timespec"
  have now: "\<lparr>tv_sec = 0, tv_nsec = 5000000\<rparr> = clock_time ref_platform 5" by code_simp
  have T: "span_ticks ref_platform (nanos ?a - nanos \<lparr>tv_sec = 0, tv_nsec = 5000000\<rparr>) = 2995"
    "span_ticks ref_platform (nanos ?b - nanos \<lparr>tv_sec = 0, tv_nsec = 5000000\<rparr>) = 4294967995" by code_simp+
  have near: "near ref_platform ?a \<lparr>tv_sec = 0, tv_nsec = 5000000\<rparr>"
    "near ref_platform ?b \<lparr>tv_sec = 0, tv_nsec = 5000000\<rparr>"
    by (auto simp: near_def fits_def)
  from conjunct1 [OF mq_tick_timeout [OF ref_platform_ok _ now, where abstime = "Some ?a" and e = ref_mq_env and flags = 0 and tmo = 9]]
    conjunct1 [OF mq_tick_timeout [OF ref_platform_ok _ now, where abstime = "Some ?b" and e = ref_mq_env and flags = 0 and tmo = 9]] T near
  show ?thesis by (simp add: timespec_less_iff)
qed

text \<open>
  C40: a failed allocation leaves the registry locked. When \<open>mq_open\<close> is to create a queue and
  the allocator has no memory for the object or for the buffer, the call returns -1 with
  \<open>ENOENT\<close> but still holds the mutex. From then on every call of another task that comes to the
  lock blocks: \<open>mq_close\<close>, \<open>mq_getattr\<close>, \<open>mq_send\<close> and \<open>mq_receive\<close> with any arguments,
  \<open>mq_unlink\<close> with any valid name and \<open>mq_open\<close> with any name and attributes that pass its
  checks (otherwise these two fail before they lock). If it was the buffer that failed, the
  object stays allocated although nothing refers to it.
\<close>

theorem mq_open_leaks_lock:
  assumes "mutex_laws (q_muts e)" and "mem_laws live al fr" and "hcos_posix_alloc (q_mem e) = Some al"
    and "own (q_muts e) (allq_mux (mq_check_init e w)) = None"
    and "mq_find_locked (q_obj w) (allq (mq_check_init e w)) n = Returns None"
    and "\<not> bad_open n attr" and "oflag AND O_CREAT e \<noteq> 0"
    and "al POSIX_MQUEUE (sizeof_mqd e) (q_heap w) = (obj, h)"
    and "\<And>sz. obj = None \<or> fst (al POSIX_MQUEUE_BUF sz h) = None"
    and "v \<noteq> t"
  shows "\<exists>w'. mq_open e t n oflag mode attr err w = Returns (MqdError, Some ENOENT, w') \<and>
    live (q_heap w') = (case obj of None \<Rightarrow> live (q_heap w)
      | Some a \<Rightarrow> insert (POSIX_MQUEUE, a) (live (q_heap w))) \<and>
    mq_close e v d err w' = Blocks \<and> mq_getattr e v d st err w' = Blocks \<and>
    mq_timedsend e v k d p msg len abstime err w' = Blocks \<and>
    mq_timedreceive e v k d p len abstime err w' = Blocks \<and>
    (\<forall>n2. mq_unlink e v n2 err w' =
      (if fst (validate_name n2 0) = 0 then Returns (MinusOne, Some ENAMETOOLONG, w') else Blocks)) \<and>
    (\<forall>n2 f2 m2 a2. mq_open e v n2 f2 m2 a2 err w' =
      (if bad_open n2 a2 then Returns (MqdError, Some EINVAL, w') else Blocks))"
proof -
  obtain u where u: "lock_allq e t (mq_check_init e w) = Returns u"
    and o: "own (q_muts e) (allq_mux u) = Some t"
    using lock_free [OF assms(1,4)] by blast
  have same: "q_heap u = q_heap w" "q_obj u = q_obj w" "mq_inited u \<noteq> 0" "allq u = allq (mq_check_init e w)"
    using lock_allq_world [OF u] by (simp_all add: mq_check_init_def split: if_splits)
  have run: "mq_open e t n oflag mode attr err w =
      run_bind (mq_create e n oflag attr err u) (\<lambda>(d, goto_out, err, v).
        Returns (d, err, if goto_out then v else unlock_allq e v))"
    using u assms(5-7) same by (simp add: mq_open_cases mq_open_locked_def)
  have "\<exists>w'. mq_create e n oflag attr err u = Returns (MqdError, True, Some ENOENT, w') \<and>
      live (q_heap w') = (case obj of None \<Rightarrow> live (q_heap w)
        | Some a \<Rightarrow> insert (POSIX_MQUEUE, a) (live (q_heap w))) \<and>
      allq_mux w' = allq_mux u \<and> mq_inited w' \<noteq> 0"
  proof (cases obj)
    case None
    with assms(3,8) same mem_lawsD(2) [OF assms(2), of _ _ _ h] show ?thesis
      by (simp add: mq_create_def)
  next
    case (Some a)
    let ?sz = "queue_buf_sz ((case attr of None \<Rightarrow> \<lparr>mq_flags = 0, mq_maxmsg = POSIX_MQUEUE_DEF_MSG_MAX,
      mq_msgsize = POSIX_MQUEUE_DEF_MSG_SZ, mq_curmsgs = 0\<rparr> | Some a \<Rightarrow> a)\<lparr>mq_flags := oflag\<rparr>)"
    obtain h' where h': "al POSIX_MQUEUE_BUF ?sz h = (None, h')"
      using assms(9) [of ?sz] Some by (metis option.distinct(1) prod.collapse)
    have "live h = insert (POSIX_MQUEUE, a) (live (q_heap w))"
      using mem_lawsD(1) [OF assms(2)] assms(8) Some by blast
    with mem_lawsD(2) [OF assms(2) h'] h' assms(3,8) same Some show ?thesis
      by (simp add: mq_create_def Let_def)
  qed
  then obtain w' where w': "mq_create e n oflag attr err u = Returns (MqdError, True, Some ENOENT, w')"
    "live (q_heap w') = (case obj of None \<Rightarrow> live (q_heap w)
        | Some a \<Rightarrow> insert (POSIX_MQUEUE, a) (live (q_heap w)))"
    "allq_mux w' = allq_mux u" "mq_inited w' \<noteq> 0" by blast
  have "lock_allq e v w' = Blocks"
    using lock_blocks [OF assms(1) w'(4), of t v] o w'(3) assms(10) by simp
  with w'(4) have "mq_close e v d err w' = Blocks" "mq_getattr e v d st err w' = Blocks"
    "mq_timedsend e v k d p msg len abstime err w' = Blocks"
    "mq_timedreceive e v k d p len abstime err w' = Blocks"
    "mq_unlink e v n2 err w' =
      (if fst (validate_name n2 0) = 0 then Returns (MinusOne, Some ENAMETOOLONG, w') else Blocks)"
    "mq_open e v n2 f2 m2 a2 err w' =
      (if bad_open n2 a2 then Returns (MqdError, Some EINVAL, w') else Blocks)" for n2 f2 m2 a2
    by (simp_all add: mq_close_defs mq_getattr_defs mq_timedsend_def mq_timedreceive_def
        mq_checks_defs mq_unlink_defs mq_open_cases mq_open_locked_def)
  with run w'(1,2) show ?thesis by auto
qed

theorem mq_open_leaks_lock_witness:
  "\<exists>w'. mq_open ref_mq_env 2 ''/q'' 512 0 None None (ref_mq_world 1) = Returns (MqdError, Some ENOENT, w') \<and>
    set (blocks (q_heap w')) = {(POSIX_MQUEUE, 100)} \<and>
    mq_close ref_mq_env 3 (Mqd 100) None w' = Blocks"
  using mq_open_leaks_lock [of ref_mq_env "\<lambda>h. set (blocks h)" ref_alloc ref_free "ref_mq_world 1"
    "''/q''" None 512 "Some 100" "\<lparr>blocks = [(POSIX_MQUEUE, 100)], next_addr = 101, budget = 0\<rparr>" 3 2
    0 None "Mqd 100" None 0 0 "[]" 0 None]
  by (simp add: ref_mq_world_def ref_alloc_def mq_check_init_def bad_open_def validate_name_def
      POSIX_NAME_MAX_def) blast

text \<open>
  C33: the names and sizes of new queues. For a name that starts with a slash, and attributes
  whose sizes do not overflow, creating a queue is refused with \<open>EINVAL\<close> if the name has more
  than 65 characters and, if it has fewer than 16, gives a queue whose messages are
  \<open>mq_msgsize\<close> bytes rounded up to words; names in between pass the check but write past the
  end of the queue's 16 byte name. The allocator is asked for \<open>mq_maxmsg\<close> times the number of
  words as a number of bytes, a quarter of the words: with messages of two bytes or more that is
  less than the \<open>mq_maxmsg * mq_msgsize\<close> bytes the queue is to hold.
\<close>

theorem mq_open_names:
  assumes "lock_allq e t (mq_check_init e w) = Returns u"
    and "mq_find_locked (q_obj u) (allq u) (CHR ''/'' # n) = Returns None"
    and "0 \<le> mq_maxmsg A" and "0 \<le> mq_msgsize A" and "mq_msgsize A \<le> 2147483644"
    and "words = (mq_msgsize A + 3) div 4" and "mq_maxmsg A * words < 4294967296"
    and "oflag AND O_CREAT e \<noteq> 0" and "hcos_posix_alloc (q_mem e) = Some al"
    and "al POSIX_MQUEUE (sizeof_mqd e) (q_heap u) = (Some a, h)"
    and "al POSIX_MQUEUE_BUF (word_of_int (mq_maxmsg A * words)) h = (Some b, h')"
  shows "(1 < mq_msgsize A \<and> 0 < mq_maxmsg A \<longrightarrow>
      uint (word_of_int (mq_maxmsg A * words) :: u32) < mq_maxmsg A * mq_msgsize A) \<and>
    mq_open e t (CHR ''/'' # n) oflag mode (Some A) err w =
    (if 65 < Suc (length n) then Returns (MqdError, Some EINVAL, mq_check_init e w)
     else if 15 < Suc (length n) then Faults
     else Returns (Mqd a, err,
       unlock_allq e ((put_mq a
         \<lparr>d_q = mq_init (q_ops e) (word_of_int words) (Some b) (word_of_int (mq_maxmsg A * words)),
          d_buf = Some b, d_name = CHR ''/'' # n, d_flags = oflag, d_open_count = 0,
          d_pending_unlink = 0\<rparr> u)\<lparr>q_heap := h'\<rparr>)))"
proof -
  let ?A = "A\<lparr>mq_flags := oflag\<rparr>"
  have "drop_bit 2 (s32 (mq_msgsize A + 3)) = words"
    using assms(4,5) by (simp add: s32_id assms(6) drop_bit_eq_div)
  then have nw: "queue_nwords ?A = word_of_int words" by (simp add: queue_nwords_def)
  have bs: "queue_buf_sz ?A = word_of_int (mq_maxmsg A * words)"
    by (simp add: queue_buf_sz_def nw)
  have name: "bad_open (CHR ''/'' # n) (Some A) \<longleftrightarrow> 65 < Suc (length n)"
    using assms(3,4) by (auto simp: bad_open_def validate_name_def POSIX_NAME_MAX_def Let_def)
  have "uint (word_of_int (mq_maxmsg A * words) :: u32) < mq_maxmsg A * mq_msgsize A"
    if "1 < mq_msgsize A" "0 < mq_maxmsg A"
  proof -
    have "0 \<le> words" "words < mq_msgsize A" using that(1) unfolding assms(6) by linarith+
    then show ?thesis using that(2) assms(7) by (subst uint_u32_of_int) simp_all
  qed
  then show ?thesis
    using assms(1,2,8-11) nw bs name
    by (simp add: mq_open_cases mq_open_locked_def mq_create_def POSIX_MQUEUE_NAME_SZ_def Let_def)
qed

theorem mq_open_names_witness:
  "mq_open ref_mq_env 2 ''/sixteen-letters'' 512 0
      (Some \<lparr>mq_flags = 0, mq_maxmsg = 10, mq_msgsize = 6, mq_curmsgs = 0\<rparr>) None (ref_mq_world 5) = Faults \<and>
    (\<exists>w'. mq_open ref_mq_env 2 ''/short'' 512 0
        (Some \<lparr>mq_flags = 0, mq_maxmsg = 10, mq_msgsize = 6, mq_curmsgs = 0\<rparr>) None (ref_mq_world 5) =
      Returns (Mqd 100, None, w') \<and> mq_isz ref_mq_ops (d_q (mq_at w' 100)) = 2)"
proof -
  let ?u = "(mq_check_init ref_mq_env (ref_mq_world 5))\<lparr>allq_mux := Some 2\<rparr>"
  let ?h = "\<lparr>blocks = [(POSIX_MQUEUE, 100)], next_addr = 101, budget = 4\<rparr>"
  let ?h' = "\<lparr>blocks = [(POSIX_MQUEUE_BUF, 101), (POSIX_MQUEUE, 100)], next_addr = 102, budget = 3\<rparr>"
  let ?A = "\<lparr>mq_flags = 0, mq_maxmsg = 10, mq_msgsize = 6, mq_curmsgs = 0\<rparr>"
  have u: "lock_allq ref_mq_env 2 (mq_check_init ref_mq_env (ref_mq_world 5)) = Returns ?u"
    by (simp add: lock_allq_def mq_check_init_def ref_mq_world_def)
  have "ref_alloc POSIX_MQUEUE (sizeof_mqd ref_mq_env) (q_heap ?u) = (Some 100, ?h)"
    "ref_alloc POSIX_MQUEUE_BUF (word_of_int 20) ?h = (Some 101, ?h')"
    by (simp_all add: ref_alloc_def mq_check_init_def ref_mq_world_def)
  then have "mq_open ref_mq_env 2 (CHR ''/'' # n) 512 0 (Some ?A) None (ref_mq_world 5) =
    (if 65 < Suc (length n) then Returns (MqdError, Some EINVAL, mq_check_init ref_mq_env (ref_mq_world 5))
     else if 15 < Suc (length n) then Faults
     else Returns (Mqd 100, None,
       unlock_allq ref_mq_env ((put_mq 100
         \<lparr>d_q = mq_init (q_ops ref_mq_env) (word_of_int 2) (Some 101) (word_of_int 20),
          d_buf = Some 101, d_name = CHR ''/'' # n, d_flags = 512, d_open_count = 0,
          d_pending_unlink = 0\<rparr> ?u)\<lparr>q_heap := ?h'\<rparr>)))" for n
    using conjunct2 [OF mq_open_names [OF u, of n ?A 2 512 ref_alloc 100 ?h 101 ?h' 0 None]]
    by (simp add: mq_check_init_def ref_mq_world_def)
  from this [of "''sixteen-letters''"] this [of "''short''"] show ?thesis
    by (simp add: mq_at_def ref_mq_ops_def)
qed

end
