(* ===== verification/Mq_Registry.thy ===== *)
theory Mq_Registry
  imports Mqueue
begin

text \<open>
  The registry of message queues against its specification: a well-formed list of queue
  objects is a map from names to queues, and opening, closing and unlinking do to it what the
  specification does to the map.
\<close>

section \<open>The registry as a map from names\<close>

text \<open>
  What the registry means: under each name at most one queue, with its object, its buffer, its
  number of open descriptors and whether it is to go when that number reaches 0; beside it the
  blocks of memory in use.
\<close>

type_synonym entry = "addr \<times> addr \<times> u16 \<times> bool"
type_synonym registry = "(string \<Rightarrow> entry option) \<times> (posix_obj \<times> addr) set"

fun entry_blocks :: "entry \<Rightarrow> (posix_obj \<times> addr) set" where
  "entry_blocks (a, b, c, u) = {(POSIX_MQUEUE, a), (POSIX_MQUEUE_BUF, b)}"

text \<open>Closing a descriptor: the entry afterwards, if any.\<close>

fun closed_entry :: "entry \<Rightarrow> entry option" where
  "closed_entry (a, b, c, u) =
     (let c = (if 0 < c then c - 1 else c)
      in if c \<noteq> 0 then Some (a, b, c, u) else if u then None else Some (a, b, 0, True))"

datatype reg_call = OpenQ string int | CloseQ mqd | UnlinkQ string

type_synonym reg_result = "(mqd + ret) \<times> errno option"

definition registered :: "mqd \<Rightarrow> (string \<Rightarrow> entry option) \<Rightarrow> bool" where
  "registered d R \<longleftrightarrow> (\<exists>n x. R n = Some x \<and> Mqd (fst x) = d)"

fun reg_spec :: "reg_call \<Rightarrow> registry \<Rightarrow> reg_result \<times> registry" where
  "reg_spec (OpenQ n oflag) (R, L) =
     (if bad_open n None then ((Inl MqdError, Some EINVAL), (R, L))
      else
        (case R n of
           None \<Rightarrow> ((Inl MqdError, Some ENOENT), (R, L))
         | Some (a, b, c, u) \<Rightarrow> ((Inl (Mqd a), None), (R(n \<mapsto> (a, b, c + 1, u)), L))))"
| "reg_spec (CloseQ d) (R, L) =
     (if registered d R then
        ((Inr OK, None),
         (\<lambda>n. case R n of None \<Rightarrow> None | Some x \<Rightarrow> if Mqd (fst x) = d then closed_entry x else Some x),
         L - \<Union> {entry_blocks x |x n. R n = Some x \<and> Mqd (fst x) = d \<and> closed_entry x = None})
      else ((Inr MinusOne, Some EBADF), (R, L)))"
| "reg_spec (UnlinkQ n) (R, L) =
     (if fst (validate_name n 0) = 0 then ((Inr MinusOne, Some ENAMETOOLONG), (R, L))
      else
        (case R n of
           None \<Rightarrow> ((Inr MinusOne, Some ENOENT), (R, L))
         | Some (a, b, c, u) \<Rightarrow>
             ((Inr OK, None),
              if c = 0 then (R(n := None), L - entry_blocks (a, b, c, u))
              else (R(n \<mapsto> (a, b, c, True)), L))))"

text \<open>
  The code's side: calls of one task, with \<open>errno\<close> clear before each; an open without
  \<open>O_CREAT\<close>.
\<close>

type_synonym ('t, 'q, 'm, 'h) reg_env = "('t, 'q, 'm, 'h) mq_env \<times> 't \<times> ('h \<Rightarrow> (posix_obj \<times> addr) set)"

fun reg_exec ::
    "('t, 'q, 'm, 'h) reg_env \<Rightarrow> reg_call \<Rightarrow> ('q, 'm, 'h) mq_world \<Rightarrow>
       (reg_result \<times> ('q, 'm, 'h) mq_world) run" where
  "reg_exec (e, t, live) (OpenQ n oflag) w =
     run_bind (mq_open e t n oflag 0 None None w) (\<lambda>(d, err, w). Returns ((Inl d, err), w))"
| "reg_exec (e, t, live) (CloseQ d) w =
     run_bind (mq_close e t d None w) (\<lambda>(r, err, w). Returns ((Inr r, err), w))"
| "reg_exec (e, t, live) (UnlinkQ n) w =
     run_bind (mq_unlink e t n None w) (\<lambda>(r, err, w). Returns ((Inr r, err), w))"

fun reg_valid :: "('t, 'q, 'm, 'h) reg_env \<Rightarrow> reg_call \<Rightarrow> bool" where
  "reg_valid (e, t, live) (OpenQ n oflag) \<longleftrightarrow> oflag AND O_CREAT e = 0"
| "reg_valid (e, t, live) _ \<longleftrightarrow> True"

fun reg_ok :: "('t, 'q, 'm, 'h) reg_env \<Rightarrow> bool" where
  "reg_ok (e, t, live) \<longleftrightarrow> mutex_laws (q_muts e) \<and>
     (\<exists>al fr. mem_laws live al fr \<and> hcos_posix_free (q_mem e) = Some fr)"

fun reg_wf :: "('t, 'q, 'm, 'h) reg_env \<Rightarrow> ('q, 'm, 'h) mq_world \<Rightarrow> bool" where
  "reg_wf (e, t, live) w \<longleftrightarrow> mq_inited w \<noteq> 0 \<and> own (q_muts e) (allq_mux w) = None \<and>
     (\<forall>a\<in>set (allq w). q_obj w a \<noteq> None \<and> d_buf (mq_at w a) \<noteq> None) \<and>
     distinct (map (\<lambda>a. d_name (mq_at w a)) (allq w))"

definition entry_at :: "('q, 'm, 'h) mq_world \<Rightarrow> addr \<Rightarrow> entry" where
  "entry_at w a =
     (let mq = mq_at w a in (a, the (d_buf mq), d_open_count mq, d_pending_unlink mq \<noteq> 0))"

definition registry_of :: "('q, 'm, 'h) mq_world \<Rightarrow> string \<Rightarrow> entry option" where
  "registry_of w n = map_option (entry_at w) (List.find (\<lambda>a. d_name (mq_at w a) = n) (allq w))"

fun reg_abs :: "('t, 'q, 'm, 'h) reg_env \<Rightarrow> ('q, 'm, 'h) mq_world \<Rightarrow> registry" where
  "reg_abs (e, t, live) w = (registry_of w, live (q_heap w))"

text \<open>On a well-formed registry the searches do not fault and find by name and by address.\<close>

lemma find_distinct:
  "distinct (map f xs) \<Longrightarrow> List.find (\<lambda>a. f a = y) xs = Some a \<longleftrightarrow> a \<in> set xs \<and> f a = y"
  by (induction xs) auto

lemma registry_of_Some:
  assumes "distinct (map (\<lambda>a. d_name (mq_at w a)) (allq w))"
  shows "registry_of w n = Some x \<longleftrightarrow> (\<exists>a\<in>set (allq w). d_name (mq_at w a) = n \<and> x = entry_at w a)"
  using find_distinct [OF assms, of n] by (auto simp: registry_of_def)

lemma find_locked:
  "\<forall>a\<in>set as. obj a \<noteq> None \<Longrightarrow>
     mq_find_locked obj as n = Returns (List.find (\<lambda>a. d_name (the (obj a)) = n) as)"
  by (induction as) auto

lemma extract_locked:
  "\<forall>a\<in>set as. obj a \<noteq> None \<Longrightarrow>
     mq_extract_locked obj as d = Returns (case d of Mqd a \<Rightarrow> if a \<in> set as then Some a else None | _ \<Rightarrow> None)"
  by (induction as) (auto split: mqd.splits)

text \<open>Changing the counters of one queue, and removing one.\<close>

lemma registry_put:
  assumes "reg_wf (e, t, live) w" and "a \<in> set (allq w)"
    and "d_name mq = d_name (mq_at w a)" and "d_buf mq = d_buf (mq_at w a)"
    and "allq w' = allq w" and "q_obj w' = (q_obj w)(a \<mapsto> mq)"
    and "mq_inited w' \<noteq> 0" and "own (q_muts e) (allq_mux w') = None"
  shows "reg_wf (e, t, live) w'"
    and "registry_of w' = (registry_of w)
      (d_name (mq_at w a) \<mapsto> (a, the (d_buf mq), d_open_count mq, d_pending_unlink mq \<noteq> 0))"
proof -
  have at: "mq_at w' b = (if b = a then mq else mq_at w b)" for b by (simp add: mq_at_def assms(6))
  then have name: "d_name (mq_at w' b) = d_name (mq_at w b)" for b by (simp add: assms(3))
  show wf: "reg_wf (e, t, live) w'"
  proof -
    have "distinct (map (\<lambda>a. d_name (mq_at w' a)) (allq w'))" using assms(1,5) by (simp add: name)
    moreover have "\<forall>b\<in>set (allq w'). q_obj w' b \<noteq> None \<and> d_buf (mq_at w' b) \<noteq> None"
      using assms(1,2,4-6) by (auto simp: at)
    ultimately show ?thesis using assms(7,8) by simp
  qed
  show "registry_of w' = (registry_of w)
      (d_name (mq_at w a) \<mapsto> (a, the (d_buf mq), d_open_count mq, d_pending_unlink mq \<noteq> 0))"
  proof
    fix n
    have d: "distinct (map (\<lambda>a. d_name (mq_at w a)) (allq w))" using assms(1) by simp
    have f: "List.find (\<lambda>b. d_name (mq_at w' b) = n) (allq w') = List.find (\<lambda>b. d_name (mq_at w b) = n) (allq w)"
      by (simp add: name assms(5))
    show "registry_of w' n = ((registry_of w)
      (d_name (mq_at w a) \<mapsto> (a, the (d_buf mq), d_open_count mq, d_pending_unlink mq \<noteq> 0))) n"
    proof (cases "n = d_name (mq_at w a)")
      case True
      with find_distinct [OF d, of n a] assms(2) f show ?thesis
        by (simp add: registry_of_def entry_at_def at)
    next
      case False
      with find_distinct [OF d, of n a] f show ?thesis
        by (cases "List.find (\<lambda>b. d_name (mq_at w b) = n) (allq w)")
          (auto simp: registry_of_def entry_at_def at)
    qed
  qed
qed

lemma registry_remove:
  assumes "reg_wf (e, t, live) w" and "a \<in> set (allq w)"
    and "allq w' = remove1 a (allq w)" and "\<And>b. b \<noteq> a \<Longrightarrow> q_obj w' b = q_obj w b"
    and "mq_inited w' \<noteq> 0" and "own (q_muts e) (allq_mux w') = None"
  shows "reg_wf (e, t, live) w'" and "registry_of w' = (registry_of w)(d_name (mq_at w a) := None)"
proof -
  have dist: "distinct (allq w)" using assms(1) by (simp add: distinct_map)
  then have set: "set (allq w') = set (allq w) - {a}" by (simp add: assms(3))
  have at: "b \<noteq> a \<Longrightarrow> mq_at w' b = mq_at w b" for b by (simp add: mq_at_def assms(4))
  have inj: "inj_on (\<lambda>a. d_name (mq_at w a)) (set (allq w))" using assms(1) by (simp add: distinct_map)
  have names: "distinct (map (\<lambda>a. d_name (mq_at w' a)) (allq w'))"
    using dist inj set at assms(3)
    by (simp add: distinct_map inj_on_def)
  then show "reg_wf (e, t, live) w'" using assms(1,5,6) set at assms(4) by auto
  show "registry_of w' = (registry_of w)(d_name (mq_at w a) := None)"
  proof (rule ext, rule option.expand)
    fix n
    have R: "registry_of w' n = Some x \<longleftrightarrow> ((registry_of w)(d_name (mq_at w a) := None)) n = Some x" for x
      using inj assms(1,2) set at names
      by (auto simp: registry_of_Some entry_at_def inj_on_def)
    then show "(registry_of w' n = None) = (((registry_of w)(d_name (mq_at w a) := None)) n = None)"
      by (metis option.exhaust)
    show "registry_of w' n \<noteq> None \<Longrightarrow> ((registry_of w)(d_name (mq_at w a) := None)) n \<noteq> None \<Longrightarrow>
      the (registry_of w' n) = the (((registry_of w)(d_name (mq_at w a) := None)) n)"
      using R by (metis option.collapse)
  qed
qed

lemma registry_same:
  assumes "reg_wf (e, t, live) w" and "allq w' = allq w" and "q_obj w' = q_obj w"
    and "mq_inited w' \<noteq> 0" and "own (q_muts e) (allq_mux w') = None"
  shows "reg_wf (e, t, live) w'" and "registry_of w' = registry_of w"
proof -
  have at: "mq_at w' a = mq_at w a" for a by (simp add: mq_at_def assms(3))
  then have "entry_at w' = entry_at w" by (simp add: fun_eq_iff entry_at_def)
  with assms at show "reg_wf (e, t, live) w'" and "registry_of w' = registry_of w"
    by (simp_all add: registry_of_def [abs_def])
qed

text \<open>A call on a well-formed registry gets the lock.\<close>

lemma reg_locked:
  assumes "reg_ok (e, t, live)" and "reg_wf (e, t, live) w"
  obtains u where "lock_allq e t (mq_check_init e w) = Returns u" and "allq u = allq w"
    and "q_obj u = q_obj w" and "q_heap u = q_heap w" and "mq_inited u \<noteq> 0"
    and "own (q_muts e) (mut_unlock (q_muts e) (allq_mux u)) = None"
    and "mq_find_locked (q_obj u) (allq u) n =
      Returns (List.find (\<lambda>a. d_name (mq_at w a) = n) (allq w))"
    and "mq_extract_locked (q_obj u) (allq u) d =
      Returns (case d of Mqd a \<Rightarrow> if a \<in> set (allq w) then Some a else None | _ \<Rightarrow> None)"
proof -
  have i: "mq_check_init e w = w" using assms(2) by simp
  obtain u where u: "lock_allq e t w = Returns u"
    "own (q_muts e) (allq_mux (unlock_allq e u)) = None"
    using assms lock_free [of e w t] by auto
  have obj: "\<forall>a\<in>set (allq w). q_obj w a \<noteq> None" using assms(2) by simp
  show thesis
    using that [of u] u lock_allq_world [OF u(1)] i assms(2) find_locked [OF obj] extract_locked [OF obj]
    by (simp add: mq_at_def)
qed

lemma mq_free_live:
  assumes "reg_ok (e, t, live)" and "q_obj w a = Some mq" and "d_buf mq = Some b"
  obtains h where "mq_free e a w = Returns (w\<lparr>q_heap := h, q_obj := (q_obj w)(a := None)\<rparr>)"
    and "live h = live (q_heap w) - {(POSIX_MQUEUE, a), (POSIX_MQUEUE_BUF, b)}"
proof -
  obtain al fr where m: "mem_laws live al fr" "hcos_posix_free (q_mem e) = Some fr"
    using assms(1) by auto
  show thesis
    using that [of "fr POSIX_MQUEUE (Some a) (fr POSIX_MQUEUE_BUF (Some b) (q_heap w))"] m(2) assms(2,3)
      mem_lawsD(3) [OF m(1)]
    by (auto simp: mq_free_def posix_free_def)
qed

lemma reg_sim_open:
  assumes "reg_ok (e, t, live)" and "reg_wf (e, t, live) w" and "reg_valid (e, t, live) (OpenQ n oflag)"
  shows "\<exists>r w'. reg_exec (e, t, live) (OpenQ n oflag) w = Returns (r, w') \<and> reg_wf (e, t, live) w' \<and>
    reg_spec (OpenQ n oflag) (reg_abs (e, t, live) w) = (r, reg_abs (e, t, live) w')"
proof (cases "bad_open n None")
  case True
  with assms(2) show ?thesis by (simp add: mq_open_cases mq_open_locked_def)
next
  case False
  obtain u where u: "lock_allq e t (mq_check_init e w) = Returns u" "allq u = allq w"
    "q_obj u = q_obj w" "q_heap u = q_heap w" "mq_inited u \<noteq> 0"
    "own (q_muts e) (mut_unlock (q_muts e) (allq_mux u)) = None"
    "mq_find_locked (q_obj u) (allq u) n =
      Returns (List.find (\<lambda>a. d_name (mq_at w a) = n) (allq w))"
    by (rule reg_locked [OF assms(1,2), of n MqdNull])
  show ?thesis
  proof (cases "List.find (\<lambda>a. d_name (mq_at w a) = n) (allq w)")
    case None
    have "reg_wf (e, t, live) (unlock_allq e u)" "registry_of (unlock_allq e u) = registry_of w"
      using registry_same [OF assms(2), of "unlock_allq e u"] u by simp_all
    with None False u assms(3) show ?thesis
      by (simp add: mq_open_cases mq_open_locked_def registry_of_def [of w])
  next
    case (Some a)
    then have a: "a \<in> set (allq w)" "d_name (mq_at w a) = n"
      using assms(2) find_distinct by (metis reg_wf.simps)+
    let ?mq = "mq_at w a"
    let ?mq' = "?mq\<lparr>d_open_count := d_open_count ?mq + 1\<rparr>"
    let ?w = "unlock_allq e (put_mq a ?mq' u)"
    have put: "reg_wf (e, t, live) ?w"
      "registry_of ?w = (registry_of w)(n \<mapsto> (a, the (d_buf ?mq), d_open_count ?mq + 1, d_pending_unlink ?mq \<noteq> 0))"
      using registry_put [OF assms(2) a(1), of ?mq' ?w] u a(2) by simp_all
    have "registry_of w n = Some (entry_at w a)" using Some by (simp add: registry_of_def)
    moreover have "the (q_obj u a) = ?mq" using u(3) by (simp add: mq_at_def)
    ultimately show ?thesis
      using put Some False u assms(3) by (simp add: mq_open_cases mq_open_locked_def entry_at_def Let_def)
  qed
qed

lemma reg_sim_unlink:
  assumes "reg_ok (e, t, live)" and "reg_wf (e, t, live) w"
  shows "\<exists>r w'. reg_exec (e, t, live) (UnlinkQ n) w = Returns (r, w') \<and> reg_wf (e, t, live) w' \<and>
    reg_spec (UnlinkQ n) (reg_abs (e, t, live) w) = (r, reg_abs (e, t, live) w')"
proof (cases "fst (validate_name n 0) = 0")
  case True
  with assms(2) show ?thesis by (simp add: mq_unlink_defs)
next
  case False
  obtain u where u: "lock_allq e t (mq_check_init e w) = Returns u" "allq u = allq w"
    "q_obj u = q_obj w" "q_heap u = q_heap w" "mq_inited u \<noteq> 0"
    "own (q_muts e) (mut_unlock (q_muts e) (allq_mux u)) = None"
    "mq_find_locked (q_obj u) (allq u) n =
      Returns (List.find (\<lambda>a. d_name (mq_at w a) = n) (allq w))"
    by (rule reg_locked [OF assms, of n MqdNull])
  show ?thesis
  proof (cases "List.find (\<lambda>a. d_name (mq_at w a) = n) (allq w)")
    case None
    have "reg_wf (e, t, live) (unlock_allq e u)" "registry_of (unlock_allq e u) = registry_of w"
      using registry_same [OF assms(2), of "unlock_allq e u"] u by simp_all
    with None False u show ?thesis
      by (simp add: mq_unlink_defs registry_of_def [of w])
  next
    case (Some a)
    then have a: "a \<in> set (allq w)" "d_name (mq_at w a) = n"
      using assms(2) find_distinct by (metis reg_wf.simps)+
    let ?mq = "mq_at w a"
    obtain b where b: "d_buf ?mq = Some b" using assms(2) a(1) by auto
    have reg: "registry_of w n = Some (entry_at w a)" using Some by (simp add: registry_of_def)
    have obj: "q_obj u a = Some ?mq" using u(3) assms(2) a(1) by (auto simp: mq_at_def)
    show ?thesis
    proof (cases "d_open_count ?mq = 0")
      case True
      let ?u = "unlock_allq e (u\<lparr>allq := remove1 a (allq u)\<rparr>)"
      obtain h where h: "mq_free e a ?u = Returns (?u\<lparr>q_heap := h, q_obj := (q_obj ?u)(a := None)\<rparr>)"
        "live h = live (q_heap ?u) - {(POSIX_MQUEUE, a), (POSIX_MQUEUE_BUF, b)}"
        using mq_free_live [OF assms(1), of ?u a ?mq b] obj b by auto
      let ?w = "?u\<lparr>q_heap := h, q_obj := (q_obj ?u)(a := None)\<rparr>"
      have rem: "reg_wf (e, t, live) ?w" "registry_of ?w = (registry_of w)(n := None)"
        using registry_remove [OF assms(2) a(1), of ?w] u a(2) by (simp_all add: unlock_allq_def)
      have "reg_exec (e, t, live) (UnlinkQ n) w = Returns ((Inr OK, None), ?w)"
        using False u Some obj True h(1) by (simp add: mq_unlink_defs Let_def)
      moreover have "reg_spec (UnlinkQ n) (reg_abs (e, t, live) w) = ((Inr OK, None), reg_abs (e, t, live) ?w)"
        using False reg True rem(2) h(2) b u(4) by (simp add: entry_at_def Let_def)
      ultimately show ?thesis using rem(1) by blast
    next
      case nonzero: False
      let ?mq' = "?mq\<lparr>d_pending_unlink := 1\<rparr>"
      let ?w = "unlock_allq e (put_mq a ?mq' u)"
      have put: "reg_wf (e, t, live) ?w"
        "registry_of ?w = (registry_of w)(n \<mapsto> (a, b, d_open_count ?mq, True))"
        using registry_put [OF assms(2) a(1), of ?mq' ?w] u a(2) b by simp_all
      then show ?thesis
        using False u Some obj nonzero reg b by (simp add: mq_unlink_defs Let_def entry_at_def)
    qed
  qed
qed

text \<open>The one entry a descriptor stands for.\<close>

lemma registered_iff:
  assumes "reg_wf (e, t, live) w"
  shows "registered d (registry_of w) \<longleftrightarrow> (\<exists>a\<in>set (allq w). d = Mqd a)"
  using assms registry_of_Some [of w] by (auto simp: registered_def entry_at_def Let_def)

lemma entry_unique:
  assumes "reg_wf (e, t, live) w" and "a \<in> set (allq w)"
  shows "registry_of w n = Some x \<and> fst x = a \<longleftrightarrow> n = d_name (mq_at w a) \<and> x = entry_at w a"
  using assms registry_of_Some [of w] by (auto simp: entry_at_def Let_def)

lemma spec_close:
  assumes "R n = Some x" and "fst x = a" and "\<And>m y. R m = Some y \<Longrightarrow> fst y = a \<Longrightarrow> m = n"
  shows "reg_spec (CloseQ (Mqd a)) (R, L) =
    ((Inr OK, None), R(n := closed_entry x), L - (if closed_entry x = None then entry_blocks x else {}))"
proof -
  have "registered (Mqd a) R"
    unfolding registered_def by (intro exI [of _ n] exI [of _ x]) (use assms(1,2) in simp)
  moreover have "(\<lambda>n. case R n of None \<Rightarrow> None
      | Some x \<Rightarrow> if Mqd (fst x) = Mqd a then closed_entry x else Some x) = R(n := closed_entry x)"
    (is "?l = ?r")
  proof
    fix m
    show "?l m = ?r m"
    proof (cases "m = n")
      case False
      with assms(3) show ?thesis by (cases "R m") auto
    qed (use assms(1,2) in simp)
  qed
  moreover have "(R m = Some y \<and> Mqd (fst y) = Mqd a \<and> closed_entry y = None) \<longleftrightarrow>
      m = n \<and> y = x \<and> closed_entry x = None" for m y
    using assms(1,2) assms(3) [of m y] by (metis mqd.inject option.inject)
  then have "\<Union> {entry_blocks y |y m. R m = Some y \<and> Mqd (fst y) = Mqd a \<and> closed_entry y = None} =
      (if closed_entry x = None then entry_blocks x else {})"
    by (auto simp del: split_paired_Ex split_paired_All)
  ultimately show ?thesis
    by (simp del: split_paired_Ex split_paired_All entry_blocks.simps closed_entry.simps)
qed

lemma close_spec:
  assumes "reg_wf (e, t, live) w" and "a \<in> set (allq w)"
  shows "reg_spec (CloseQ (Mqd a)) (reg_abs (e, t, live) w) =
    ((Inr OK, None), (registry_of w)(d_name (mq_at w a) := closed_entry (entry_at w a)),
     live (q_heap w) - (if closed_entry (entry_at w a) = None then entry_blocks (entry_at w a) else {}))"
  unfolding reg_abs.simps using entry_unique [OF assms] by (intro spec_close) metis+

lemma reg_sim_close:
  assumes "reg_ok (e, t, live)" and "reg_wf (e, t, live) w"
  shows "\<exists>r w'. reg_exec (e, t, live) (CloseQ d) w = Returns (r, w') \<and> reg_wf (e, t, live) w' \<and>
    reg_spec (CloseQ d) (reg_abs (e, t, live) w) = (r, reg_abs (e, t, live) w')"
proof -
  obtain u where u: "lock_allq e t (mq_check_init e w) = Returns u" "allq u = allq w"
    "q_obj u = q_obj w" "q_heap u = q_heap w" "mq_inited u \<noteq> 0"
    "own (q_muts e) (mut_unlock (q_muts e) (allq_mux u)) = None"
    "mq_find_locked (q_obj u) (allq u) '''' =
      Returns (List.find (\<lambda>a. d_name (mq_at w a) = '''') (allq w))"
    "mq_extract_locked (q_obj u) (allq u) d =
      Returns (case d of Mqd a \<Rightarrow> if a \<in> set (allq w) then Some a else None | _ \<Rightarrow> None)"
    by (rule reg_locked [OF assms])
  show ?thesis
  proof (cases "registered d (registry_of w)")
    case False
    with registered_iff [OF assms(2), of d]
    have none: "mq_extract_locked (q_obj u) (allq u) d = Returns None" using u(8) by (cases d) auto
    have "reg_wf (e, t, live) (unlock_allq e u)" "registry_of (unlock_allq e u) = registry_of w"
      using registry_same [OF assms(2), of "unlock_allq e u"] u by simp_all
    with none False u(1,4) show ?thesis by (simp add: mq_close_defs)
  next
    case True
    with registered_iff [OF assms(2), of d] obtain a where a: "a \<in> set (allq w)" "d = Mqd a" by blast
    let ?mq = "mq_at w a"
    let ?mq' = "drop_descriptor ?mq"
    have mq: "d_name ?mq' = d_name ?mq" "d_buf ?mq' = d_buf ?mq" by (simp_all add: drop_descriptor_def)
    obtain b where b: "d_buf ?mq = Some b" using assms(2) a(1) by auto
    have obj: "q_obj u a = Some ?mq" using u(3) assms(2) a(1) by (auto simp: mq_at_def)
    have found: "mq_extract_locked (q_obj u) (allq u) d = Returns (Some a)" using u(8) a by simp
    note spec = close_spec [OF assms(2) a(1)]
    show ?thesis
    proof (cases "d_open_count ?mq' = 0 \<and> d_pending_unlink ?mq' \<noteq> 0")
      case True
      let ?u = "unlock_allq e ((put_mq a ?mq' u)\<lparr>allq := remove1 a (allq u)\<rparr>)"
      have "q_obj ?u a = Some ?mq'" "d_buf ?mq' = Some b" using b mq by simp_all
      then obtain h where h: "mq_free e a ?u = Returns (?u\<lparr>q_heap := h, q_obj := (q_obj ?u)(a := None)\<rparr>)"
        "live h = live (q_heap ?u) - {(POSIX_MQUEUE, a), (POSIX_MQUEUE_BUF, b)}"
        using mq_free_live [OF assms(1), of ?u a ?mq' b] by blast
      let ?w = "?u\<lparr>q_heap := h, q_obj := (q_obj ?u)(a := None)\<rparr>"
      have rem: "reg_wf (e, t, live) ?w" "registry_of ?w = (registry_of w)(d_name ?mq := None)"
        using registry_remove [OF assms(2) a(1), of ?w] u by (simp_all add: unlock_allq_def put_mq_def)
      have "reg_exec (e, t, live) (CloseQ d) w = Returns ((Inr OK, None), ?w)"
        using u(1) found obj True h(1) by (simp add: mq_close_defs Let_def)
      moreover have "closed_entry (entry_at w a) = None"
        using True b by (simp add: entry_at_def Let_def drop_descriptor_def split: if_splits)
      then have "reg_spec (CloseQ d) (reg_abs (e, t, live) w) = ((Inr OK, None), reg_abs (e, t, live) ?w)"
        using spec a(2) rem(2) h(2) b u(4) by (simp add: entry_at_def Let_def)
      ultimately show ?thesis using rem(1) by blast
    next
      case False
      let ?mq2 = "if d_open_count ?mq' = 0 then ?mq'\<lparr>d_pending_unlink := 1\<rparr> else ?mq'"
      let ?w = "unlock_allq e (put_mq a ?mq2 u)"
      have put: "reg_wf (e, t, live) ?w"
        "registry_of ?w = (registry_of w)
          (d_name ?mq \<mapsto> (a, b, d_open_count ?mq2, d_pending_unlink ?mq2 \<noteq> 0))"
        using registry_put [OF assms(2) a(1), of ?mq2 ?w] u b mq by simp_all
      have "reg_exec (e, t, live) (CloseQ d) w = Returns ((Inr OK, None), ?w)"
        using u(1) found obj False by (auto simp add: mq_close_defs Let_def)
      moreover have "closed_entry (entry_at w a) = Some (a, b, d_open_count ?mq2, d_pending_unlink ?mq2 \<noteq> 0)"
        using False b by (auto simp: entry_at_def Let_def drop_descriptor_def)
      then have "reg_spec (CloseQ d) (reg_abs (e, t, live) w) = ((Inr OK, None), reg_abs (e, t, live) ?w)"
        using spec a(2) put(2) u(4) by simp
      ultimately show ?thesis using put(1) by blast
    qed
  qed
qed

interpretation mqr: simulation reg_ok reg_wf reg_valid reg_abs reg_exec "\<lambda>_. reg_spec"
proof unfold_locales
  fix p :: "('t, 'q, 'm, 'h) reg_env" and w :: "('q, 'm, 'h) mq_world" and c
  assume ok: "reg_ok p" "reg_wf p w" "reg_valid p c"
  obtain e t live where p: "p = (e, t, live)" by (metis prod_cases3)
  note asm = ok [unfolded p]
  show "\<exists>r w'. reg_exec p c w = Returns (r, w') \<and> reg_wf p w' \<and>
      reg_spec c (reg_abs p w) = (r, reg_abs p w')"
  proof (cases c)
    case (OpenQ n oflag)
    show ?thesis using asm unfolding p OpenQ by (rule reg_sim_open)
  next
    case (CloseQ d)
    show ?thesis using asm(1,2) unfolding p CloseQ by (rule reg_sim_close)
  next
    case (UnlinkQ n)
    show ?thesis using asm(1,2) unfolding p UnlinkQ by (rule reg_sim_unlink)
  qed
qed

text \<open>Closing the last descriptors of an unlinked queue.\<close>

lemma spec_closes:
  assumes "R n = Some (a, b, c, True)" and "\<And>m y. R m = Some y \<Longrightarrow> fst y = a \<Longrightarrow> m = n"
    and "c \<noteq> 0" and "j \<le> unat c"
  shows "spec_calls reg_spec (replicate j (CloseQ (Mqd a))) (R, L) =
    (replicate j (Inr OK, None),
     if j = unat c then (R(n := None), L - {(POSIX_MQUEUE, a), (POSIX_MQUEUE_BUF, b)})
     else (R(n \<mapsto> (a, b, c - of_nat j, True)), L))"
  using assms
proof (induction j arbitrary: R c)
  case 0
  then have "unat c \<noteq> 0" by (simp add: unat_eq_0)
  with "0.prems"(1) show ?case by (auto simp: fun_upd_idem)
next
  case (Suc j)
  have c: "0 < c" using Suc.prems(3) by (simp add: word_gt_0)
  then have u: "unat c = Suc (unat (c - 1))" by (simp add: unat_minus_one word_gt_0 unat_gt_0)
  note one = spec_close [of R n "(a, b, c, True)" a L, OF Suc.prems(1) _ Suc.prems(2)]
  show ?case
  proof (cases "c = 1")
    case True
    with Suc.prems(4) have "j = 0" by simp
    with one True show ?thesis by (simp del: reg_spec.simps)
  next
    case False
    let ?R = "R(n \<mapsto> (a, b, c - 1, True))"
    have "spec_calls reg_spec (replicate j (CloseQ (Mqd a))) (?R, L) =
      (replicate j (Inr OK, None),
       if j = unat (c - 1) then (?R(n := None), L - {(POSIX_MQUEUE, a), (POSIX_MQUEUE_BUF, b)})
       else (?R(n \<mapsto> (a, b, c - 1 - of_nat j, True)), L))"
    proof (rule Suc.IH)
      show "m = n" if "?R m = Some y" "fst y = a" for m y
        using that Suc.prems(2) [of m y] by (cases "m = n") simp_all
      show "c - 1 \<noteq> 0" "j \<le> unat (c - 1)" using False Suc.prems(4) u by auto
    qed simp
    moreover have "reg_spec (CloseQ (Mqd a)) (R, L) = ((Inr OK, None), ?R, L)"
      using one c False by (simp del: reg_spec.simps add: Let_def)
    ultimately show ?thesis using u by (auto simp del: reg_spec.simps simp: algebra_simps)
  qed
qed

text \<open>A registry with the queue \<open>''/q''\<close>, as it would be if \<open>mq_open\<close> had entered it.\<close>

definition ref_registered :: "u16 \<Rightarrow> (ref_queue, nat option, ref_heap) mq_world" where
  "ref_registered c =
     \<lparr>q_heap = \<lparr>blocks = [(POSIX_MQUEUE, 100), (POSIX_MQUEUE_BUF, 101)], next_addr = 102, budget = 5\<rparr>,
      q_obj = (\<lambda>_. None)(100 \<mapsto> \<lparr>d_q = (1, 2, []), d_buf = Some 101, d_name = ''/q'', d_flags = 16384,
        d_open_count = c, d_pending_unlink = 0\<rparr>),
      allq = [100], allq_mux = None, mq_inited = 5\<rparr>"

abbreviation ref_reg :: "(nat, ref_queue, nat option, ref_heap) reg_env" where
  "ref_reg \<equiv> (ref_mq_env, 2, \<lambda>h. set (blocks h))"

lemma ref_reg_ok: "reg_ok ref_reg"
  using ref_mem_laws by (auto simp del: ref_mem_laws)

lemma ref_reg_wf: "reg_wf ref_reg (ref_registered c)"
  by (simp add: ref_registered_def mq_at_def)

lemma ref_registry_of: "registry_of (ref_registered c) ''/q'' = Some (100, 101, c, False)"
  by (simp add: registry_of_def ref_registered_def mq_at_def entry_at_def)

section \<open>Properties\<close>

text \<open>
  C34: the registry refines a map from names to queues. From any well-formed registry (the
  empty one, the only one an application meets, included), any sequence of closes, unlinks and
  opens without \<open>O_CREAT\<close> returns (no call faults or blocks), its results and error codes are
  those of the specification on the map from names to entries, and the registry and the memory
  in use end as the specification says. Opens with \<open>O_CREAT\<close> are not covered: they may fault,
  and one that fails can block all later calls (\<open>mq_open_leaks_lock\<close> of Mqueue).
\<close>

theorem mq_registry_refines:
  assumes "reg_ok p" and "reg_wf p w" and "list_all (reg_valid p) cs"
  shows "\<exists>rs w'. run_calls (reg_exec p) cs w = Returns (rs, w') \<and> reg_wf p w' \<and>
    spec_calls reg_spec cs (reg_abs p w) = (rs, reg_abs p w')"
  using assms by (rule mqr.sim_calls)

theorem mq_registry_refines_witness:
  "\<exists>w'. run_calls (reg_exec ref_reg) [OpenQ ''/q'' 0, UnlinkQ ''/q'', UnlinkQ ''/r''] (ref_registered 4) =
      Returns ([(Inl (Mqd 100), None), (Inr OK, None), (Inr MinusOne, Some ENOENT)], w') \<and>
    registry_of w' ''/q'' = Some (100, 101, 5, True)"
proof -
  have "list_all (reg_valid ref_reg) [OpenQ ''/q'' 0, UnlinkQ ''/q'', UnlinkQ ''/r'']" by simp
  from mq_registry_refines [OF ref_reg_ok ref_reg_wf this, of 4] obtain rs w' where
    run: "run_calls (reg_exec ref_reg) [OpenQ ''/q'' 0, UnlinkQ ''/q'', UnlinkQ ''/r''] (ref_registered 4) =
      Returns (rs, w')"
    and spec: "spec_calls reg_spec [OpenQ ''/q'' 0, UnlinkQ ''/q'', UnlinkQ ''/r'']
      (reg_abs ref_reg (ref_registered 4)) = (rs, reg_abs ref_reg w')" by blast
  have r: "registry_of (ref_registered 4) ''/r'' = None"
    by (simp add: registry_of_def ref_registered_def mq_at_def)
  have "rs = [(Inl (Mqd 100), None), (Inr OK, None), (Inr MinusOne, Some ENOENT)] \<and>
      registry_of w' = (registry_of (ref_registered 4))(''/q'' \<mapsto> (100, 101, 5, True))"
    using spec ref_registry_of [of 4] r
    by (simp add: bad_open_def validate_name_def POSIX_NAME_MAX_def)
  with run show ?thesis by auto
qed

text \<open>
  An unlinked queue lives until its last descriptor is closed. If a registered queue with
  \<open>c > 0\<close> open descriptors is unlinked and then closed \<open>j \<le> c\<close> times, all calls succeed; for
  \<open>j < c\<close> it is still registered with \<open>c - j\<close> descriptors and no memory is released, and at
  \<open>j = c\<close> it is gone and exactly its object and its buffer are released.
\<close>

theorem mq_unlinked_until_last_close:
  assumes "reg_ok (e, t, live)" and "reg_wf (e, t, live) w" and "registry_of w n = Some (a, b, c, u)"
    and "fst (validate_name n 0) \<noteq> 0" and "c \<noteq> 0" and "j \<le> unat c"
  shows "\<exists>w'. run_calls (reg_exec (e, t, live)) (UnlinkQ n # replicate j (CloseQ (Mqd a))) w =
      Returns (replicate (Suc j) (Inr OK, None), w') \<and>
    registry_of w' = (registry_of w)(n := if j = unat c then None else Some (a, b, c - of_nat j, True)) \<and>
    live (q_heap w') = live (q_heap w) -
      (if j = unat c then {(POSIX_MQUEUE, a), (POSIX_MQUEUE_BUF, b)} else {})"
proof -
  have "list_all (reg_valid (e, t, live)) (UnlinkQ n # replicate j (CloseQ (Mqd a)))"
    by (simp add: list_all_iff)
  from mqr.sim_calls [OF assms(1,2) this] obtain rs w' where
    run: "run_calls (reg_exec (e, t, live)) (UnlinkQ n # replicate j (CloseQ (Mqd a))) w = Returns (rs, w')"
    and spec: "spec_calls reg_spec (UnlinkQ n # replicate j (CloseQ (Mqd a))) (reg_abs (e, t, live) w) =
      (rs, reg_abs (e, t, live) w')" by blast
  let ?R = "(registry_of w)(n \<mapsto> (a, b, c, True))"
  have a: "\<exists>x\<in>set (allq w). x = a \<and> d_name (mq_at w x) = n"
    using registry_of_Some [of w n "(a, b, c, u)"] assms(2,3) by (auto simp: entry_at_def Let_def)
  have uniq: "m = n" if "?R m = Some y" "fst y = a" for m y
    using that a entry_unique [OF assms(2), of a m y] by (cases "m = n") auto
  have closes: "spec_calls reg_spec (replicate j (CloseQ (Mqd a))) (?R, live (q_heap w)) =
    (replicate j (Inr OK, None),
     if j = unat c then (?R(n := None), live (q_heap w) - {(POSIX_MQUEUE, a), (POSIX_MQUEUE_BUF, b)})
     else (?R(n \<mapsto> (a, b, c - of_nat j, True)), live (q_heap w)))"
    by (rule spec_closes [OF _ uniq assms(5,6)]) simp
  have "reg_spec (UnlinkQ n) (reg_abs (e, t, live) w) = ((Inr OK, None), ?R, live (q_heap w))"
    using assms(3-5) by simp
  with spec closes have "rs = replicate (Suc j) (Inr OK, None)" and
    "reg_abs (e, t, live) w' = (if j = unat c
      then (?R(n := None), live (q_heap w) - {(POSIX_MQUEUE, a), (POSIX_MQUEUE_BUF, b)})
      else (?R(n \<mapsto> (a, b, c - of_nat j, True)), live (q_heap w)))"
    by (simp_all del: reg_spec.simps)
  with run show ?thesis by (auto split: if_splits)
qed

theorem mq_unlinked_until_last_close_witness:
  "\<exists>w'. run_calls (reg_exec ref_reg) (UnlinkQ ''/q'' # replicate 4 (CloseQ (Mqd 100))) (ref_registered 4) =
      Returns (replicate 5 (Inr OK, None), w') \<and>
    registry_of w' ''/q'' = None \<and> set (blocks (q_heap w')) = {}"
  using mq_unlinked_until_last_close [OF ref_reg_ok ref_reg_wf ref_registry_of, of 4 4]
  by (auto simp: validate_name_def POSIX_NAME_MAX_def ref_registered_def simp del: run_calls.simps)

text \<open>
  A queue that was never unlinked can disappear. Closing the last descriptor of a queue
  marks it as unlinked; when it is opened and closed once more it is removed from the
  registry and released, although \<open>mq_unlink\<close> was never called.
\<close>

theorem mq_close_unlinks:
  assumes "reg_ok (e, t, live)" and "reg_wf (e, t, live) w" and "registry_of w n = Some (a, b, 1, False)"
    and "\<not> bad_open n None" and "oflag AND O_CREAT e = 0"
  shows "\<exists>w'. run_calls (reg_exec (e, t, live)) [CloseQ (Mqd a), OpenQ n oflag, CloseQ (Mqd a)] w =
      Returns ([(Inr OK, None), (Inl (Mqd a), None), (Inr OK, None)], w') \<and>
    registry_of w' n = None \<and>
    live (q_heap w') = live (q_heap w) - {(POSIX_MQUEUE, a), (POSIX_MQUEUE_BUF, b)}"
proof -
  let ?cs = "[CloseQ (Mqd a), OpenQ n oflag, CloseQ (Mqd a)]" and ?R = "registry_of w"
  have "list_all (reg_valid (e, t, live)) ?cs" using assms(5) by simp
  from mqr.sim_calls [OF assms(1,2) this] obtain rs w' where
    run: "run_calls (reg_exec (e, t, live)) ?cs w = Returns (rs, w')"
    and spec: "spec_calls reg_spec ?cs (?R, live (q_heap w)) = (rs, reg_abs (e, t, live) w')" by auto
  have a: "\<exists>x\<in>set (allq w). x = a \<and> d_name (mq_at w x) = n"
    using registry_of_Some [of w n "(a, b, 1, False)"] assms(2,3) by (auto simp: entry_at_def Let_def)
  have uniq: "m = n" if "?R m = Some y" "fst y = a" for m y
    using that a entry_unique [OF assms(2), of a m y] by auto
  have one: "reg_spec (CloseQ (Mqd a)) (?R, L) = ((Inr OK, None), ?R(n \<mapsto> (a, b, 0, True)), L)" for L
    using spec_close [of ?R n "(a, b, 1, False)" a L, OF assms(3) _ uniq] by (simp del: reg_spec.simps)
  have two: "reg_spec (OpenQ n oflag) (?R(n \<mapsto> (a, b, 0, True)), L) =
      ((Inl (Mqd a), None), ?R(n \<mapsto> (a, b, 1, True)), L)" for L
    using assms(4) by simp
  have uniq': "m = n" if "(?R(n \<mapsto> (a, b, 1, True))) m = Some y" "fst y = a" for m y
    using that uniq [of m y] by (cases "m = n") simp_all
  have three: "reg_spec (CloseQ (Mqd a)) (?R(n \<mapsto> (a, b, 1, True)), L) =
      ((Inr OK, None), ?R(n := None), L - {(POSIX_MQUEUE, a), (POSIX_MQUEUE_BUF, b)})" for L
    using spec_close [of "?R(n \<mapsto> (a, b, 1, True))" n "(a, b, 1, True)" a L, OF _ _ uniq']
    by (simp del: reg_spec.simps)
  from spec one two three have "rs = [(Inr OK, None), (Inl (Mqd a), None), (Inr OK, None)]"
    "registry_of w' = ?R(n := None)"
    "live (q_heap w') = live (q_heap w) - {(POSIX_MQUEUE, a), (POSIX_MQUEUE_BUF, b)}"
    by (simp_all del: reg_spec.simps)
  with run show ?thesis by auto
qed

theorem mq_close_unlinks_witness:
  "\<exists>w'. run_calls (reg_exec ref_reg) [CloseQ (Mqd 100), OpenQ ''/q'' 0, CloseQ (Mqd 100)] (ref_registered 1) =
      Returns ([(Inr OK, None), (Inl (Mqd 100), None), (Inr OK, None)], w') \<and> registry_of w' ''/q'' = None"
  using mq_close_unlinks [OF ref_reg_ok ref_reg_wf ref_registry_of, of 0]
  by (auto simp: bad_open_def validate_name_def POSIX_NAME_MAX_def simp del: run_calls.simps)

end
