(* ===== verification/Mq_Threads.thy ===== *)
theory Mq_Threads
  imports Mq_Registry Threads
begin

text \<open>
  \<open>src/src/posix_mqueue.c\<close> run by several tasks at once. A call is a program in the sense of
  \<open>Threads\<close>: the statements of \<open>mq_check_init\<close>, the lock, what is done while it is held, the
  unlock, and what follows without the lock are steps of their own, and tasks interleave
  between them.
\<close>

section \<open>Calls and program points\<close>

text \<open>The calls with their arguments; \<open>k\<close> is \<open>tmr_ticks\<close> when the call reads it.\<close>

datatype mq_call =
    DoClose mqd
  | DoGetattr mqd "mq_attr ptr"
  | DoOpen string int u32 "mq_attr ptr"
  | DoUnlink string
  | DoSend u32 mqd u32 "u32 list" u32 "timespec ptr"
  | DoReceive u32 mqd u32 u32 "timespec ptr"

text \<open>What a call returns, and the value it assigns to \<open>errno\<close>, if any.\<close>

datatype mq_value =
    ClosedQ ret
  | AttrQ ret "mq_attr ptr"
  | OpenedQ mqd
  | UnlinkedQ ret
  | SentQ ret
  | ReceivedQ int "u32 list option"

type_synonym mq_reply = "mq_value \<times> errno option"

text \<open>
  What is left to do once the lock is released: return, free a queue, or pass the message to
  or from the kernel's queue with a timeout.
\<close>

datatype mq_rest = Finished mq_reply | FreeQ mq_call addr mq_reply | Transfer mq_call addr u32

text \<open>
  \<open>MqFailed\<close> is the point after a transfer has failed, where the flags of the queue are read;
  \<open>MqSize\<close> the one after a message has come, where its size is read.
\<close>

datatype mq_pc =
    MqOut
  | MqCheckInit mq_call
  | MqInitList mq_call
  | MqInitMutex mq_call
  | MqInitSet mq_call
  | MqLock mq_call
  | MqLocked mq_call
  | MqUnlock mq_rest
  | MqRest mq_rest
  | MqFailed mq_call addr
  | MqSize mq_call addr "u32 list"
  | MqFault mq_call

text \<open>The state of the library; \<open>mux_ready\<close> says whether \<open>allq_mux\<close> was ever initialised.\<close>

record ('q, 'm, 'h) mq_shared =
  reg :: "('q, 'm, 'h) mq_world"
  mux_ready :: bool

section \<open>The code\<close>

fun mq_transfers :: "mq_call \<Rightarrow> bool" where
  "mq_transfers (DoSend k d p msg len abstime) \<longleftrightarrow> True"
| "mq_transfers (DoReceive k d p len abstime) \<longleftrightarrow> True"
| "mq_transfers _ \<longleftrightarrow> False"

text \<open>
  Where a call starts: \<open>mq_timedsend\<close> and \<open>mq_timedreceive\<close> do not call \<open>mq_check_init\<close>.
\<close>

definition mq_enter :: "mq_call \<Rightarrow> mq_pc" where
  "mq_enter c = (if mq_transfers c then MqLock c else MqCheckInit c)"

fun mq_entry :: "mq_pc \<Rightarrow> bool" where
  "mq_entry (MqLock c) \<longleftrightarrow> mq_transfers c"
| "mq_entry (MqCheckInit c) \<longleftrightarrow> \<not> mq_transfers c"
| "mq_entry _ \<longleftrightarrow> False"

text \<open>After \<open>mq_check_init\<close>, \<open>mq_open\<close> and \<open>mq_unlink\<close> test their arguments.\<close>

fun mq_tests :: "mq_call \<Rightarrow> mq_pc" where
  "mq_tests (DoOpen name oflag mode attr) =
     (case mq_open_checks name attr None of (mq, err) \<Rightarrow>
        if mq \<noteq> MqdNull then MqRest (Finished (OpenedQ mq, err))
        else MqLock (DoOpen name oflag mode attr))"
| "mq_tests (DoUnlink name) =
     (if fst (validate_name name 0) = 0
      then MqRest (Finished (UnlinkedQ MinusOne, Some ENAMETOOLONG)) else MqLock (DoUnlink name))"
| "mq_tests c = MqLock c"

text \<open>What a call does with \<open>allq_mux\<close> held, and where it goes on.\<close>

fun mq_critical ::
    "('t, 'q, 'm, 'h) mq_env \<Rightarrow> mq_call \<Rightarrow> ('q, 'm, 'h) mq_world \<Rightarrow>
       (('q, 'm, 'h) mq_world \<times> mq_pc) run" where
  "mq_critical e (DoClose d) w =
     run_bind (mq_close_locked e d None w) (\<lambda>(ret, removed, err, w).
       Returns (w, MqUnlock
         (case removed of
            None \<Rightarrow> Finished (ClosedQ ret, err)
          | Some a \<Rightarrow> FreeQ (DoClose d) a (ClosedQ ret, err))))"
| "mq_critical e (DoGetattr d mqstat) w =
     run_bind (mq_getattr_locked e d mqstat None w) (\<lambda>(ret, mqstat, err).
       Returns (w, MqUnlock (Finished (AttrQ ret mqstat, err))))"
| "mq_critical e (DoOpen name oflag mode attr) w =
     run_bind (mq_open_locked e name oflag attr None w) (\<lambda>(mq, goto_out, err, w).
       Returns (w, (if goto_out then MqRest else MqUnlock) (Finished (OpenedQ mq, err))))"
| "mq_critical e (DoUnlink name) w =
     run_bind (mq_unlink_locked name None w) (\<lambda>(ret, removed, err, w).
       Returns (w, MqUnlock
         (case removed of
            None \<Rightarrow> Finished (UnlinkedQ ret, err)
          | Some a \<Rightarrow> FreeQ (DoUnlink name) a (UnlinkedQ ret, err))))"
| "mq_critical e (DoSend k d p msg len abstime) w =
     run_bind (mq_io_checks e k d p (\<lambda>q. mq_isz (q_ops e) q < len) abstime None w)
       (\<lambda>(ret, found, timeout, err).
       Returns (w, MqUnlock
         (if ret \<noteq> OK then Finished (SentQ MinusOne, err)
          else Transfer (DoSend k d p msg len abstime) (the found) timeout)))"
| "mq_critical e (DoReceive k d p len abstime) w =
     run_bind (mq_io_checks e k d p (\<lambda>q. len < mq_isz (q_ops e) q) abstime None w)
       (\<lambda>(ret, found, timeout, err).
       Returns (w, MqUnlock
         (if ret \<noteq> OK then Finished (ReceivedQ (-1) None, err)
          else Transfer (DoReceive k d p len abstime) (the found) timeout)))"

text \<open>
  The kernel's part of a transfer, at the moment it completes: the queue afterwards and the
  next point.
\<close>

fun mq_kernel_io ::
    "('t, 'q, 'm, 'h) mq_env \<Rightarrow> mq_call \<Rightarrow> addr \<Rightarrow> u32 \<Rightarrow> 'q \<Rightarrow> 'q \<times> mq_pc" where
  "mq_kernel_io e (DoSend k d p msg len abstime) a timeout q =
     (case mq_put (q_ops e) q msg timeout of
        (False, q) \<Rightarrow> (q, MqFailed (DoSend k d p msg len abstime) a)
      | (True, q) \<Rightarrow> (q, MqRest (Finished (SentQ OK, None))))"
| "mq_kernel_io e (DoReceive k d p len abstime) a timeout q =
     (case mq_get (q_ops e) q timeout of
        (None, q) \<Rightarrow> (q, MqFailed (DoReceive k d p len abstime) a)
      | (Some msg, q) \<Rightarrow> (q, MqSize (DoReceive k d p len abstime) a msg))"
| "mq_kernel_io e c a timeout q = (q, MqFault c)"

fun mq_failure :: "mq_call \<Rightarrow> mq_value" where
  "mq_failure (DoReceive k d p len abstime) = ReceivedQ (-1) None"
| "mq_failure c = SentQ MinusOne"

fun mq_code ::
    "('t, 'q, 'm, 'h) mq_env \<Rightarrow> 't \<Rightarrow> ('q, 'm, 'h) mq_shared \<Rightarrow> mq_pc \<Rightarrow>
       (('q, 'm, 'h) mq_shared \<times> mq_pc) option" where
  "mq_code e t sh (MqCheckInit c) =
     Some (sh, if mq_inited (reg sh) \<noteq> 0 then mq_tests c else MqInitList c)"
| "mq_code e t sh (MqInitList c) = Some (sh\<lparr>reg := (reg sh)\<lparr>allq := []\<rparr>\<rparr>, MqInitMutex c)"
| "mq_code e t sh (MqInitMutex c) =
     Some (sh\<lparr>reg := (reg sh)\<lparr>allq_mux := mut_init (q_muts e)\<rparr>, mux_ready := True\<rparr>, MqInitSet c)"
| "mq_code e t sh (MqInitSet c) = Some (sh\<lparr>reg := (reg sh)\<lparr>mq_inited := 1\<rparr>\<rparr>, mq_tests c)"
| "mq_code e t sh (MqLock c) =
     (if \<not> mux_ready sh then Some (sh, MqFault c)
      else
        (case lock_allq e t (reg sh) of
           Returns w \<Rightarrow> Some (sh\<lparr>reg := w\<rparr>, MqLocked c)
         | _ \<Rightarrow> None))"
| "mq_code e t sh (MqLocked c) =
     (case mq_critical e c (reg sh) of
        Returns (w, p) \<Rightarrow> Some (sh\<lparr>reg := w\<rparr>, p)
      | _ \<Rightarrow> Some (sh, MqFault c))"
| "mq_code e t sh (MqUnlock r) = Some (sh\<lparr>reg := unlock_allq e (reg sh)\<rparr>, MqRest r)"
| "mq_code e t sh (MqRest (FreeQ c a r)) =
     (case mq_free e a (reg sh) of
        Returns w \<Rightarrow> Some (sh\<lparr>reg := w\<rparr>, MqRest (Finished r))
      | _ \<Rightarrow> Some (sh, MqFault c))"
| "mq_code e t sh (MqRest (Transfer c a timeout)) =
     (case q_obj (reg sh) a of
        None \<Rightarrow> Some (sh, MqFault c)
      | Some mq \<Rightarrow>
          (case mq_kernel_io e c a timeout (d_q mq) of
             (q, p) \<Rightarrow> Some (sh\<lparr>reg := put_mq a (mq\<lparr>d_q := q\<rparr>) (reg sh)\<rparr>, p)))"
| "mq_code e t sh (MqFailed c a) =
     (case q_obj (reg sh) a of
        None \<Rightarrow> Some (sh, MqFault c)
      | Some mq \<Rightarrow>
          Some (sh, MqRest (Finished (mq_failure c,
            Some (if d_flags mq AND O_NONBLOCK e \<noteq> 0 then EAGAIN else ETIMEDOUT)))))"
| "mq_code e t sh (MqSize c a msg) =
     (case q_obj (reg sh) a of
        None \<Rightarrow> Some (sh, MqFault c)
      | Some mq \<Rightarrow>
          Some (sh, MqRest (Finished
            (ReceivedQ (s32 (uint (mq_isz (q_ops e) (d_q mq)))) (Some msg), None))))"
| "mq_code e t sh pc = None"

fun mq_result :: "mq_pc \<Rightarrow> mq_reply option" where
  "mq_result (MqRest (Finished r)) = Some r"
| "mq_result _ = None"

definition mq_prog ::
    "('t, 'q, 'm, 'h) mq_env \<Rightarrow> ('t, ('q, 'm, 'h) mq_shared, mq_pc, mq_reply) program" where
  "mq_prog e = \<lparr>code = mq_code e, expire = \<lambda>t sh pc. None, entry = mq_entry, idle = MqOut,
     result = mq_result\<rparr>"

lemma mq_prog_sel [simp]:
  "code (mq_prog e) = mq_code e" "expire (mq_prog e) t sh pc = None" "entry (mq_prog e) = mq_entry"
  "idle (mq_prog e) = MqOut" "result (mq_prog e) = mq_result"
  by (simp_all add: mq_prog_def)

section \<open>A call that runs alone\<close>

text \<open>
  The calls as the functions of \<open>Mqueue\<close> compose them, with their results as values of
  \<open>mq_reply\<close>.
\<close>

fun mq_whole ::
    "('t, 'q, 'm, 'h) mq_env \<Rightarrow> 't \<Rightarrow> mq_call \<Rightarrow> ('q, 'm, 'h) mq_world \<Rightarrow>
       (mq_reply \<times> ('q, 'm, 'h) mq_world) run" where
  "mq_whole e t (DoClose d) w =
     run_bind (mq_close e t d None w) (\<lambda>(r, err, w). Returns ((ClosedQ r, err), w))"
| "mq_whole e t (DoGetattr d mqstat) w =
     run_bind (mq_getattr e t d mqstat None w) (\<lambda>(r, mqstat, err, w). Returns ((AttrQ r mqstat, err), w))"
| "mq_whole e t (DoOpen name oflag mode attr) w =
     run_bind (mq_open e t name oflag mode attr None w) (\<lambda>(d, err, w). Returns ((OpenedQ d, err), w))"
| "mq_whole e t (DoUnlink name) w =
     run_bind (mq_unlink e t name None w) (\<lambda>(r, err, w). Returns ((UnlinkedQ r, err), w))"
| "mq_whole e t (DoSend k d p msg len abstime) w =
     run_bind (mq_timedsend e t k d p msg len abstime None w) (\<lambda>(r, err, w). Returns ((SentQ r, err), w))"
| "mq_whole e t (DoReceive k d p len abstime) w =
     run_bind (mq_timedreceive e t k d p len abstime None w)
       (\<lambda>(n, msg, err, w). Returns ((ReceivedQ n msg, err), w))"

text \<open>At most \<open>n\<close> steps of task \<open>t\<close> on its own.\<close>

fun alone ::
    "('t, 'q, 'm, 'h) mq_env \<Rightarrow> 't \<Rightarrow> nat \<Rightarrow> ('q, 'm, 'h) mq_shared \<Rightarrow> mq_pc \<Rightarrow>
       ('q, 'm, 'h) mq_shared \<times> mq_pc" where
  "alone e t 0 sh pc = (sh, pc)"
| "alone e t (Suc n) sh pc =
     (case mq_code e t sh pc of None \<Rightarrow> (sh, pc) | Some (sh, pc) \<Rightarrow> alone e t n sh pc)"

lemma alone_stuck: "mq_code e t sh pc = None \<Longrightarrow> alone e t n sh pc = (sh, pc)"
  by (cases n) simp_all

lemma alone_end [simp]:
  "alone e t n sh (MqRest (Finished r)) = (sh, MqRest (Finished r))"
  "alone e t n sh (MqFault c) = (sh, MqFault c)"
  by (simp_all add: alone_stuck)

lemma run_alone:
  "run_schedule (mq_prog e) (replicate n (Move t)) s =
     s\<lparr>shared := fst (alone e t n (shared s) (pc_of s t)),
       pc_of := (pc_of s)(t := snd (alone e t n (shared s) (pc_of s t)))\<rparr>"
proof (induction n arbitrary: s)
  case 0
  then show ?case by simp
next
  case (Suc n)
  show ?case
  proof (cases "mq_code e t (shared s) (pc_of s t)")
    case None
    then show ?thesis by (simp add: Suc.IH [of s] alone_stuck)
  next
    case (Some x)
    then obtain sh pc where x: "mq_code e t (shared s) (pc_of s t) = Some (sh, pc)" by (cases x) simp
    show ?thesis by (simp add: x Suc.IH [of "s\<lparr>shared := sh, pc_of := (pc_of s)(t := pc)\<rparr>"] cong: if_cong)
  qed
qed

lemma alone_init:
  assumes "mux_ready sh \<longleftrightarrow> mq_inited (reg sh) \<noteq> 0"
  obtains n where "alone e t 8 sh (MqCheckInit c) =
    alone e t (4 + n) \<lparr>reg = mq_check_init e (reg sh), mux_ready = True\<rparr> (mq_tests c)"
proof (cases "mq_inited (reg sh) = 0")
  case True
  then have "alone e t 8 sh (MqCheckInit c) =
      alone e t (4 + 0) \<lparr>reg = mq_check_init e (reg sh), mux_ready = True\<rparr> (mq_tests c)"
    by (cases sh) (simp add: mq_check_init_def eval_nat_numeral)
  with that show thesis .
next
  case False
  with assms have "sh = \<lparr>reg = reg sh, mux_ready = True\<rparr>" by (cases sh) simp
  with that [of 3] False show thesis by (simp add: eval_nat_numeral)
qed

lemma alone_lock:
  assumes "mux_ready sh"
  shows "alone e t (4 + n) sh (MqLock c) =
    (case lock_allq e t (reg sh) of
       Returns w \<Rightarrow>
         (case mq_critical e c w of
            Returns (w, p) \<Rightarrow> alone e t (2 + n) (sh\<lparr>reg := w\<rparr>) p
          | _ \<Rightarrow> (sh\<lparr>reg := w\<rparr>, MqFault c))
     | _ \<Rightarrow> (sh, MqLock c))"
  using assms by (simp add: eval_nat_numeral split: run.splits prod.splits)

lemma alone_unlock:
  "alone e t (2 + n) sh (MqUnlock (Finished r)) = (sh\<lparr>reg := unlock_allq e (reg sh)\<rparr>, MqRest (Finished r))"
  "alone e t (2 + n) sh (MqUnlock (FreeQ c a r)) =
     (case mq_free e a (unlock_allq e (reg sh)) of
        Returns w \<Rightarrow> (sh\<lparr>reg := w\<rparr>, MqRest (Finished r))
      | _ \<Rightarrow> (sh\<lparr>reg := unlock_allq e (reg sh)\<rparr>, MqFault c))"
  by (simp_all split: run.splits)

text \<open>What a task alone comes to, against the whole call.\<close>

definition agrees ::
    "(mq_reply \<times> ('q, 'm, 'h) mq_world) run \<Rightarrow> mq_call \<Rightarrow> ('q, 'm, 'h) mq_shared \<times> mq_pc \<Rightarrow> bool" where
  "agrees whole c end_state =
     (case whole of
        Returns (r, w) \<Rightarrow> snd end_state = MqRest (Finished r) \<and> reg (fst end_state) = w
      | Faults \<Rightarrow> (\<exists>d. snd end_state = MqFault d)
      | Blocks \<Rightarrow> snd end_state = MqLock c)"

lemma run_bind_assoc: "run_bind (run_bind r f) g = run_bind r (\<lambda>x. run_bind (f x) g)"
  by (cases r) simp_all

lemma agrees_simps [simp]:
  "agrees (Returns (r, w)) c (sh, pc) \<longleftrightarrow> pc = MqRest (Finished r) \<and> reg sh = w"
  "agrees Faults c (sh, pc) \<longleftrightarrow> (\<exists>d. pc = MqFault d)"
  "agrees Blocks c (sh, pc) \<longleftrightarrow> pc = MqLock c"
  by (simp_all add: agrees_def)

lemma agrees_lock:
  assumes "mux_ready sh"
    and "\<And>w. lock_allq e t (reg sh) = Returns w \<Longrightarrow> agrees (k w) c
      (case mq_critical e c w of
         Returns (w, p) \<Rightarrow> alone e t (2 + n) (sh\<lparr>reg := w\<rparr>) p
       | _ \<Rightarrow> (sh\<lparr>reg := w\<rparr>, MqFault c))"
  shows "agrees (run_bind (lock_allq e t (reg sh)) k) c (alone e t (4 + n) sh (MqLock c))"
  using assms(2)
  by (cases "mut_take (q_muts e) t (allq_mux (reg sh))")
    (simp_all add: alone_lock [OF assms(1)] lock_allq_def)

lemma agrees_free:
  "agrees (run_bind (free_removed e removed (unlock_allq e w)) (\<lambda>w. Returns (r, w))) c
     (alone e t (2 + n) (sh\<lparr>reg := w\<rparr>)
       (MqUnlock (case removed of None \<Rightarrow> Finished r | Some a \<Rightarrow> FreeQ d a r)))"
proof (cases removed)
  case None
  then show ?thesis by (simp add: free_removed_def)
next
  case (Some a)
  have "mq_free e a v \<noteq> Blocks" for v
    by (simp add: mq_free_def posix_free_def split: option.splits)
  with Some show ?thesis
    by (cases "mq_free e a (unlock_allq e w)") (simp_all add: free_removed_def)
qed

text \<open>The searches and what is built on them never block.\<close>

lemma searches_run [simp]:
  "mq_extract_locked obj ps d \<noteq> Blocks" "mq_find_locked obj ps n \<noteq> Blocks"
  by (induction ps) (auto split: option.splits)

lemma run_bind_Blocks: "run_bind r f = Blocks \<longleftrightarrow> r = Blocks \<or> (\<exists>x. r = Returns x \<and> f x = Blocks)"
  by (cases r) simp_all

lemma locked_run [simp]:
  "mq_close_locked e d err w \<noteq> Blocks" "mq_getattr_locked e d st err w \<noteq> Blocks"
  "mq_unlink_locked n err w \<noteq> Blocks" "mq_open_locked e n f attr err w \<noteq> Blocks"
  "mq_io_checks e k d p bad abstime err w \<noteq> Blocks"
  by (auto simp: mq_close_locked_def mq_getattr_locked_def mq_unlink_locked_def mq_open_locked_def
      mq_io_checks_def mq_create_def run_bind_Blocks Let_def split: option.splits if_splits prod.splits)

lemma alone_close:
  "mux_ready sh \<Longrightarrow> agrees
     (run_bind (lock_allq e t (reg sh)) (\<lambda>w.
        run_bind (mq_close_locked e d None w) (\<lambda>(ret, removed, err, w).
        run_bind (free_removed e removed (unlock_allq e w)) (\<lambda>w. Returns ((ClosedQ ret, err), w)))))
     (DoClose d) (alone e t (4 + n) sh (MqLock (DoClose d)))"
proof (rule agrees_lock)
  fix w
  show "agrees
    (run_bind (mq_close_locked e d None w) (\<lambda>(ret, removed, err, w).
       run_bind (free_removed e removed (unlock_allq e w)) (\<lambda>w. Returns ((ClosedQ ret, err), w))))
    (DoClose d)
    (case mq_critical e (DoClose d) w of
       Returns (w, p) \<Rightarrow> alone e t (2 + n) (sh\<lparr>reg := w\<rparr>) p
     | _ \<Rightarrow> (sh\<lparr>reg := w\<rparr>, MqFault (DoClose d)))"
    using agrees_free by (cases "mq_close_locked e d None w") (auto simp del: add_2_eq_Suc)
qed

lemma alone_unlink:
  "mux_ready sh \<Longrightarrow> agrees
     (run_bind (lock_allq e t (reg sh)) (\<lambda>w.
        run_bind (mq_unlink_locked n None w) (\<lambda>(ret, removed, err, w).
        run_bind (free_removed e removed (unlock_allq e w)) (\<lambda>w. Returns ((UnlinkedQ ret, err), w)))))
     (DoUnlink n) (alone e t (4 + k) sh (MqLock (DoUnlink n)))"
proof (rule agrees_lock)
  fix w
  show "agrees
    (run_bind (mq_unlink_locked n None w) (\<lambda>(ret, removed, err, w).
       run_bind (free_removed e removed (unlock_allq e w)) (\<lambda>w. Returns ((UnlinkedQ ret, err), w))))
    (DoUnlink n)
    (case mq_critical e (DoUnlink n) w of
       Returns (w, p) \<Rightarrow> alone e t (2 + k) (sh\<lparr>reg := w\<rparr>) p
     | _ \<Rightarrow> (sh\<lparr>reg := w\<rparr>, MqFault (DoUnlink n)))"
    using agrees_free by (cases "mq_unlink_locked n None w") (auto simp del: add_2_eq_Suc)
qed

lemma alone_getattr:
  "mux_ready sh \<Longrightarrow> agrees
     (run_bind (lock_allq e t (reg sh)) (\<lambda>w.
        run_bind (mq_getattr_locked e d st None w) (\<lambda>(ret, st, err).
        Returns ((AttrQ ret st, err), unlock_allq e w))))
     (DoGetattr d st) (alone e t (4 + n) sh (MqLock (DoGetattr d st)))"
proof (rule agrees_lock)
  fix w
  show "agrees
    (run_bind (mq_getattr_locked e d st None w) (\<lambda>(ret, st, err).
       Returns ((AttrQ ret st, err), unlock_allq e w)))
    (DoGetattr d st)
    (case mq_critical e (DoGetattr d st) w of
       Returns (w, p) \<Rightarrow> alone e t (2 + n) (sh\<lparr>reg := w\<rparr>) p
     | _ \<Rightarrow> (sh\<lparr>reg := w\<rparr>, MqFault (DoGetattr d st)))"
    by (cases "mq_getattr_locked e d st None w") auto
qed

lemma alone_open:
  "mux_ready sh \<Longrightarrow> agrees
     (run_bind (lock_allq e t (reg sh)) (\<lambda>w.
        run_bind (mq_open_locked e name f attr None w) (\<lambda>(mq, goto_out, err, w).
        Returns ((OpenedQ mq, err), if goto_out then w else unlock_allq e w))))
     (DoOpen name f m attr) (alone e t (4 + n) sh (MqLock (DoOpen name f m attr)))"
proof (rule agrees_lock)
  fix w
  show "agrees
    (run_bind (mq_open_locked e name f attr None w) (\<lambda>(mq, goto_out, err, w).
       Returns ((OpenedQ mq, err), if goto_out then w else unlock_allq e w)))
    (DoOpen name f m attr)
    (case mq_critical e (DoOpen name f m attr) w of
       Returns (w, p) \<Rightarrow> alone e t (2 + n) (sh\<lparr>reg := w\<rparr>) p
     | _ \<Rightarrow> (sh\<lparr>reg := w\<rparr>, MqFault (DoOpen name f m attr)))"
    by (cases "mq_open_locked e name f attr None w") auto
qed

text \<open>A transfer finds the queue that the checks have found.\<close>

lemma extract_present:
  "mq_extract_locked obj ps d = Returns (Some a) \<Longrightarrow> obj a \<noteq> None \<and> a \<in> set ps \<and> d = Mqd a"
  by (induction ps) (auto split: option.splits if_splits)

lemma io_checks_present:
  assumes "mq_io_checks e k d p bad abstime err w = Returns (OK, found, timeout, err')"
  obtains a mq where "found = Some a" and "q_obj w a = Some mq" and "a \<in> set (allq w)" and "err' = err"
proof -
  from assms obtain a where "found = Some a" "mq_extract_locked (q_obj w) (allq w) d = Returns (Some a)"
    "err' = err"
    by (auto simp: mq_io_checks_def run_bind_Returns Let_def split: if_splits prod.splits ret.splits)
  with extract_present [of "q_obj w" "allq w" d a] that show thesis by auto
qed

lemma alone_send:
  assumes "mux_ready sh" and "mq_inited (reg sh) \<noteq> 0"
  shows "agrees (mq_whole e t (DoSend k d p msg len abstime) (reg sh)) (DoSend k d p msg len abstime)
    (alone e t (4 + Suc n) sh (MqLock (DoSend k d p msg len abstime)))"
proof -
  let ?c = "DoSend k d p msg len abstime" and ?bad = "\<lambda>q. mq_isz (q_ops e) q < len"
  let ?tail = "\<lambda>w x. run_bind
    (case x of (ret, found, timeout, err) \<Rightarrow> Returns (ret, found, timeout, err, unlock_allq e w))
    (\<lambda>x. run_bind
       (case x of (ret, found, timeout, err, w) \<Rightarrow>
          if ret \<noteq> OK then Returns (MinusOne, err, w)
          else
            (let a = the found; mq = the (q_obj w a)
             in case mq_put (q_ops e) (d_q mq) msg timeout of
                  (False, q) \<Rightarrow>
                    Returns (MinusOne,
                      Some (if d_flags mq AND O_NONBLOCK e \<noteq> 0 then EAGAIN else ETIMEDOUT),
                      put_mq a (mq\<lparr>d_q := q\<rparr>) w)
                | (True, q) \<Rightarrow> Returns (OK, err, put_mq a (mq\<lparr>d_q := q\<rparr>) w)))
       (\<lambda>(r, err, w). Returns ((SentQ r, err), w)))"
  have "mq_whole e t ?c (reg sh) = run_bind (lock_allq e t (reg sh)) (\<lambda>w.
      run_bind (mq_io_checks e k d p ?bad abstime None w) (?tail w))"
    by (simp only: mq_whole.simps mq_timedsend_def mq_locked_checks_def assms(2) if_False run_bind_assoc)
  also have "agrees \<dots> ?c (alone e t (4 + Suc n) sh (MqLock ?c))"
  proof (rule agrees_lock [OF assms(1)])
    fix w
    show "agrees (run_bind (mq_io_checks e k d p ?bad abstime None w) (?tail w)) ?c
      (case mq_critical e ?c w of
         Returns (w, p) \<Rightarrow> alone e t (2 + Suc n) (sh\<lparr>reg := w\<rparr>) p
       | _ \<Rightarrow> (sh\<lparr>reg := w\<rparr>, MqFault ?c))"
    proof (cases "mq_io_checks e k d p ?bad abstime None w")
      case (Returns x)
      obtain ret found timeout err where x: "x = (ret, found, timeout, err)" by (cases x)
      show ?thesis
      proof (cases "ret = OK")
        case False
        then show ?thesis by (simp add: Returns x)
      next
        case True
        with Returns x obtain a mq where "found = Some a" "q_obj w a = Some mq" "err = None"
          using io_checks_present by metis
        with True show ?thesis
          by (simp add: Returns x Let_def split: prod.split bool.split option.split)
      qed
    qed simp_all
  qed
  finally show ?thesis .
qed

lemma alone_receive:
  assumes "mux_ready sh" and "mq_inited (reg sh) \<noteq> 0"
  shows "agrees (mq_whole e t (DoReceive k d p len abstime) (reg sh)) (DoReceive k d p len abstime)
    (alone e t (4 + Suc n) sh (MqLock (DoReceive k d p len abstime)))"
proof -
  let ?c = "DoReceive k d p len abstime" and ?bad = "\<lambda>q. len < mq_isz (q_ops e) q"
  let ?tail = "\<lambda>w x. run_bind
    (case x of (ret, found, timeout, err) \<Rightarrow> Returns (ret, found, timeout, err, unlock_allq e w))
    (\<lambda>x. run_bind
       (case x of (ret, found, timeout, err, w) \<Rightarrow>
          if ret \<noteq> OK then Returns (-1, None, err, w)
          else
            (let a = the found; mq = the (q_obj w a)
             in case mq_get (q_ops e) (d_q mq) timeout of
                  (None, q) \<Rightarrow>
                    Returns (-1, None,
                      Some (if d_flags mq AND O_NONBLOCK e \<noteq> 0 then EAGAIN else ETIMEDOUT),
                      put_mq a (mq\<lparr>d_q := q\<rparr>) w)
                | (Some msg, q) \<Rightarrow>
                    Returns (s32 (uint (mq_isz (q_ops e) q)), Some msg, err, put_mq a (mq\<lparr>d_q := q\<rparr>) w)))
       (\<lambda>(n, msg, err, w). Returns ((ReceivedQ n msg, err), w)))"
  have "mq_whole e t ?c (reg sh) = run_bind (lock_allq e t (reg sh)) (\<lambda>w.
      run_bind (mq_io_checks e k d p ?bad abstime None w) (?tail w))"
    by (simp only: mq_whole.simps mq_timedreceive_def mq_locked_checks_def assms(2) if_False run_bind_assoc)
  also have "agrees \<dots> ?c (alone e t (4 + Suc n) sh (MqLock ?c))"
  proof (rule agrees_lock [OF assms(1)])
    fix w
    show "agrees (run_bind (mq_io_checks e k d p ?bad abstime None w) (?tail w)) ?c
      (case mq_critical e ?c w of
         Returns (w, p) \<Rightarrow> alone e t (2 + Suc n) (sh\<lparr>reg := w\<rparr>) p
       | _ \<Rightarrow> (sh\<lparr>reg := w\<rparr>, MqFault ?c))"
    proof (cases "mq_io_checks e k d p ?bad abstime None w")
      case (Returns x)
      obtain ret found timeout err where x: "x = (ret, found, timeout, err)" by (cases x)
      show ?thesis
      proof (cases "ret = OK")
        case False
        then show ?thesis by (simp add: Returns x)
      next
        case True
        with Returns x obtain a mq where "found = Some a" "q_obj w a = Some mq" "err = None"
          using io_checks_present by metis
        with True show ?thesis
          by (simp add: Returns x Let_def split: prod.split bool.split option.split)
      qed
    qed simp_all
  qed
  finally show ?thesis .
qed

text \<open>The calls that start with \<open>mq_check_init\<close>, from the lock on.\<close>

lemma mq_whole_locked:
  "mq_whole e t (DoClose d) w =
     run_bind (lock_allq e t (mq_check_init e w)) (\<lambda>w.
     run_bind (mq_close_locked e d None w) (\<lambda>(ret, removed, err, w).
     run_bind (free_removed e removed (unlock_allq e w)) (\<lambda>w. Returns ((ClosedQ ret, err), w))))"
  "mq_whole e t (DoGetattr d st) w =
     run_bind (lock_allq e t (mq_check_init e w)) (\<lambda>w.
     run_bind (mq_getattr_locked e d st None w) (\<lambda>(ret, st, err).
     Returns ((AttrQ ret st, err), unlock_allq e w)))"
  "mq_whole e t (DoOpen name f m attr) w =
     (if bad_open name attr then Returns ((OpenedQ MqdError, Some EINVAL), mq_check_init e w)
      else
        run_bind (lock_allq e t (mq_check_init e w)) (\<lambda>w.
        run_bind (mq_open_locked e name f attr None w) (\<lambda>(mq, goto_out, err, w).
        Returns ((OpenedQ mq, err), if goto_out then w else unlock_allq e w))))"
  "mq_whole e t (DoUnlink n) w =
     (if fst (validate_name n 0) = 0
      then Returns ((UnlinkedQ MinusOne, Some ENAMETOOLONG), mq_check_init e w)
      else
        run_bind (lock_allq e t (mq_check_init e w)) (\<lambda>w.
        run_bind (mq_unlink_locked n None w) (\<lambda>(ret, removed, err, w).
        run_bind (free_removed e removed (unlock_allq e w)) (\<lambda>w. Returns ((UnlinkedQ ret, err), w)))))"
  by (simp_all add: mq_close_def mq_getattr_def mq_open_cases mq_unlink_def run_bind_assoc split_def)

lemma agrees_alone:
  assumes "mux_ready sh \<longleftrightarrow> mq_inited (reg sh) \<noteq> 0"
  shows "agrees (mq_whole e t c (reg sh)) c (alone e t 8 sh (mq_enter c))"
proof (cases "mq_transfers c")
  case True
  show ?thesis
  proof (cases "mux_ready sh")
    case ready: True
    with assms alone_send [of sh e t _ _ _ _ _ _ 3] alone_receive [of sh e t _ _ _ _ _ 3] True show ?thesis
      by (cases c) (simp_all add: mq_enter_def eval_nat_numeral del: alone.simps mq_whole.simps)
  next
    case False
    with assms True show ?thesis
      by (cases c) (simp_all add: mq_enter_def eval_nat_numeral mq_timedsend_def mq_timedreceive_def
          mq_locked_checks_def)
  qed
next
  case False
  let ?sh = "\<lparr>reg = mq_check_init e (reg sh), mux_ready = True\<rparr>"
  obtain n where n: "alone e t 8 sh (MqCheckInit c) = alone e t (4 + n) ?sh (mq_tests c)"
    using alone_init [OF assms] .
  have "agrees (mq_whole e t c (reg sh)) c (alone e t (4 + n) ?sh (mq_tests c))"
    using False alone_close [of ?sh e t] alone_getattr [of ?sh e t] alone_open [of ?sh e t]
      alone_unlink [of ?sh e t]
    by (cases c) (simp_all add: mq_whole_locked mq_open_checks_eq del: alone.simps mq_whole.simps add_Suc)
  with n False show ?thesis by (simp add: mq_enter_def)
qed

section \<open>The registry stays empty\<close>

text \<open>The start: nothing initialised, no task in a call.\<close>

definition mq_begin ::
    "('t, 'q, 'm, 'h) mq_env \<Rightarrow> ('t, ('q, 'm, 'h) mq_shared, mq_pc, mq_reply) threads \<Rightarrow> bool" where
  "mq_begin e s \<longleftrightarrow> mq_inited (reg (shared s)) = 0 \<and> \<not> mux_ready (shared s) \<and>
     (\<forall>t. pc_of s t = MqOut) \<and> returned s = []"

text \<open>
  The replies of calls that have found no queue: a refusal, or of \<open>mq_open\<close> also the
  descriptor of a queue it has created.
\<close>

fun found_nothing :: "mq_reply \<Rightarrow> bool" where
  "found_nothing (ClosedQ r, err) \<longleftrightarrow> r = MinusOne \<and> err = Some EBADF"
| "found_nothing (AttrQ r st, err) \<longleftrightarrow> r = MinusOne \<and> err = Some EBADF"
| "found_nothing (OpenedQ d, err) \<longleftrightarrow>
     (if d = MqdError then err = Some EINVAL \<or> err = Some ENOENT else err = None)"
| "found_nothing (UnlinkedQ r, err) \<longleftrightarrow> r = MinusOne \<and> (err = Some ENOENT \<or> err = Some ENAMETOOLONG)"
| "found_nothing (SentQ r, err) \<longleftrightarrow> r = MinusOne \<and> (err = Some EBADF \<or> err = Some EINVAL)"
| "found_nothing (ReceivedQ n msg, err) \<longleftrightarrow> n = -1 \<and> msg = None \<and> (err = Some EBADF \<or> err = Some EINVAL)"

text \<open>What holds at each point of a call.\<close>

fun quiet_rest :: "mq_rest \<Rightarrow> bool" where
  "quiet_rest (Finished r) \<longleftrightarrow> found_nothing r"
| "quiet_rest (FreeQ c a r) \<longleftrightarrow> False"
| "quiet_rest (Transfer c a timeout) \<longleftrightarrow> False"

fun quiet :: "('q, 'm, 'h) mq_shared \<Rightarrow> mq_pc \<Rightarrow> bool" where
  "quiet sh (MqInitMutex c) \<longleftrightarrow> allq (reg sh) = []"
| "quiet sh (MqInitSet c) \<longleftrightarrow> mux_ready sh"
| "quiet sh (MqLocked c) \<longleftrightarrow> mux_ready sh"
| "quiet sh (MqUnlock r) \<longleftrightarrow> quiet_rest r"
| "quiet sh (MqRest r) \<longleftrightarrow> quiet_rest r"
| "quiet sh (MqFailed c a) \<longleftrightarrow> False"
| "quiet sh (MqSize c a msg) \<longleftrightarrow> False"
| "quiet sh pc \<longleftrightarrow> True"

definition quiet_shared :: "('q, 'm, 'h) mq_shared \<Rightarrow> bool" where
  "quiet_shared sh \<longleftrightarrow> (mux_ready sh \<longrightarrow> allq (reg sh) = []) \<and> (mq_inited (reg sh) \<noteq> 0 \<longrightarrow> mux_ready sh)"

definition quiet_state ::
    "('t, 'q, 'm, 'h) mq_env \<Rightarrow> ('t, ('q, 'm, 'h) mq_shared, mq_pc, mq_reply) threads \<Rightarrow> bool" where
  "quiet_state e s \<longleftrightarrow> quiet_shared (shared s) \<and> (\<forall>t. quiet (shared s) (pc_of s t)) \<and>
     (\<forall>r\<in>set (returned s). found_nothing r)"

lemma quiet_tests: "quiet sh (mq_tests c)"
  by (cases c) (simp_all add: mq_open_checks_eq)

lemma quiet_enter: "mq_entry p \<Longrightarrow> quiet sh p"
  by (cases p) simp_all

lemma mq_create_value:
  "mq_create e n f attr None w = Returns (d, out, err, w') \<Longrightarrow> found_nothing (OpenedQ d, err)"
  by (auto simp: mq_create_def Let_def split: option.splits prod.splits if_splits)

lemma critical_empty:
  assumes "allq w = []" and "mq_critical e c w = Returns (w', p)"
  shows "allq w' = [] \<and> mq_inited w' = mq_inited w \<and> (\<forall>sh. quiet sh p)"
proof (cases c)
  case (DoOpen name f m attr)
  show ?thesis
  proof (cases "f AND O_CREAT e \<noteq> 0")
    case True
    with assms DoOpen obtain d out err where c: "mq_create e name f attr None w = Returns (d, out, err, w')"
      and p: "p = (if out then MqRest else MqUnlock) (Finished (OpenedQ d, err))"
      by (auto simp: mq_open_locked_def run_bind_Returns)
    have "mq_inited w' = mq_inited w"
      using c by (auto simp: mq_create_def Let_def split: option.splits prod.splits if_splits)
    with mq_create_allq [OF c] mq_create_value [OF c] assms(1) p show ?thesis by simp
  next
    case False
    with assms DoOpen show ?thesis by (auto simp: mq_open_locked_def)
  qed
qed (use assms in \<open>auto simp: mq_close_locked_def mq_getattr_locked_def mq_unlink_locked_def
    mq_io_checks_def run_bind_Returns Let_def split: if_splits prod.splits ret.splits\<close>)

lemma quiet_move:
  assumes "quiet_shared sh" and "quiet sh pc" and "mq_code e t sh pc = Some (sh', pc')"
  shows "quiet_shared sh' \<and> quiet sh' pc' \<and> (allq (reg sh) = [] \<longrightarrow> allq (reg sh') = []) \<and>
    (mux_ready sh \<longrightarrow> mux_ready sh')"
proof (cases pc)
  case (MqLock c)
  with assms show ?thesis
    by (auto simp: quiet_shared_def lock_allq_def split: if_splits run.splits option.splits)
next
  case (MqLocked c)
  show ?thesis
  proof (cases "mq_critical e c (reg sh)")
    case (Returns x)
    obtain w p where x: "x = (w, p)" by (cases x)
    have "allq (reg sh) = []" using assms MqLocked by (simp add: quiet_shared_def)
    from critical_empty [OF this, of e c w p] Returns assms MqLocked show ?thesis
      by (auto simp: quiet_shared_def x)
  qed (use assms MqLocked in \<open>auto simp: quiet_shared_def\<close>)
next
  case (MqRest r)
  with assms show ?thesis by (cases r) simp_all
qed (use assms quiet_tests in \<open>auto simp: quiet_shared_def split: if_splits\<close>)

lemma quiet_mono:
  assumes "quiet sh p" and "allq (reg sh) = [] \<longrightarrow> allq (reg sh') = []" and "mux_ready sh \<longrightarrow> mux_ready sh'"
  shows "quiet sh' p"
  using assms by (cases p) simp_all

interpretation mqq: invariant_system "\<lambda>_. True" mq_begin "\<lambda>e. tstep (mq_prog e)" quiet_state
proof unfold_locales
  fix e :: "('t, 'q, 'm, 'h) mq_env" and s s' :: "('t, ('q, 'm, 'h) mq_shared, mq_pc, mq_reply) threads"
  show "mq_begin e s \<Longrightarrow> quiet_state e s"
    by (simp add: mq_begin_def quiet_state_def quiet_shared_def)
  assume inv: "quiet_state e s" and "tstep (mq_prog e) s s'"
  from this(2) show "quiet_state e s'"
  proof (cases rule: tstep_cases)
    case (call t p)
    with inv quiet_enter show ?thesis by (auto simp: quiet_state_def)
  next
    case (move t sh p)
    with inv have "quiet_shared (shared s)" "quiet (shared s) (pc_of s t)" "mq_code e t (shared s) (pc_of s t) = Some (sh, p)"
      by (simp_all add: quiet_state_def)
    note step = quiet_move [OF this]
    then have "quiet sh (pc_of s u)" for u
      using inv quiet_mono [of "shared s" "pc_of s u" sh] by (simp add: quiet_state_def)
    with step inv move show ?thesis by (auto simp: quiet_state_def)
  next
    case (expire t sh p)
    then show ?thesis by simp
  next
    case (return t r)
    then have "pc_of s t = MqRest (Finished r)"
      by (auto elim!: mq_result.elims)
    with inv have "found_nothing r" by (metis quiet.simps(5) quiet_rest.simps(1) quiet_state_def)
    with return inv show ?thesis by (auto simp: quiet_state_def)
  qed
qed

section \<open>Properties\<close>

text \<open>
  Running a call step by step is running it whole. From any state in which \<open>allq_mux\<close> is
  ready exactly if \<open>inited\<close> says so, eight steps of a task that starts a call and is not
  interrupted end it with the reply and the state that the function of \<open>Mqueue\<close> returns, at a
  fault if that function faults, and waiting for the lock if that function blocks.
\<close>

theorem mq_call_alone:
  assumes "pc_of s t = MqOut" and "mux_ready (shared s) \<longleftrightarrow> mq_inited (reg (shared s)) \<noteq> 0"
    and "s' = run_schedule (mq_prog e) (Call t (mq_enter c) # replicate 8 (Move t)) s"
  shows "(case mq_whole e t c (reg (shared s)) of
      Returns (r, w) \<Rightarrow> pc_of s' t = MqRest (Finished r) \<and> reg (shared s') = w
    | Faults \<Rightarrow> (\<exists>d. pc_of s' t = MqFault d)
    | Blocks \<Rightarrow> pc_of s' t = MqLock c) \<and> (\<forall>u. u \<noteq> t \<longrightarrow> pc_of s' u = pc_of s u)"
proof -
  let ?u = "s\<lparr>pc_of := (pc_of s)(t := mq_enter c)\<rparr>"
  have "mq_entry (mq_enter c)" by (simp add: mq_enter_def)
  then have "s' = run_schedule (mq_prog e) (replicate 8 (Move t)) ?u"
    using assms(1,3) by simp
  then have "s' = ?u\<lparr>shared := fst (alone e t 8 (shared s) (mq_enter c)),
      pc_of := (pc_of ?u)(t := snd (alone e t 8 (shared s) (mq_enter c)))\<rparr>"
    by (simp only: run_alone) simp
  with agrees_alone [OF assms(2), of e t c] show ?thesis
    by (simp add: agrees_def split: run.splits prod.splits)
qed

theorem mq_call_alone_witness:
  "pc_of (run_schedule (mq_prog ref_mq_env) (Call 2 (mq_enter (DoUnlink ''/q'')) # replicate 8 (Move 2))
     \<lparr>shared = \<lparr>reg = ref_registered 0, mux_ready = True\<rparr>, pc_of = (\<lambda>_. MqOut), returned = []\<rparr>) 2 =
   MqRest (Finished (UnlinkedQ OK, None))"
proof -
  have "\<exists>w. mq_whole ref_mq_env 2 (DoUnlink ''/q'') (ref_registered 0) = Returns ((UnlinkedQ OK, None), w)"
    by (simp add: ref_registered_def mq_run_simps)
  then show ?thesis
    using mq_call_alone [of "\<lparr>shared = \<lparr>reg = ref_registered 0, mux_ready = True\<rparr>, pc_of = (\<lambda>_. MqOut),
      returned = []\<rparr>" "2::nat" _ ref_mq_env "DoUnlink ''/q''", OF _ _ refl]
    by (auto simp: ref_registered_def simp del: mq_whole.simps run_schedule.simps)
qed

text \<open>
  C7: no queue is ever registered, however the calls of the tasks interleave. In every state
  reachable from the start, the registry is empty once it is initialised; every call of
  \<open>mq_close\<close>, \<open>mq_getattr\<close>, \<open>mq_unlink\<close>, \<open>mq_send\<close> or \<open>mq_receive\<close> that has returned was
  refused, and every \<open>mq_open\<close> that has returned either failed with \<open>EINVAL\<close> or \<open>ENOENT\<close> (never
  with \<open>EEXIST\<close>) or gave the descriptor of a new queue; and no task is passing a message or
  freeing a queue.
\<close>

theorem mq_interleaved_empty:
  assumes "reachable (mq_begin e) (tstep (mq_prog e)) s"
  shows "(mq_inited (reg (shared s)) \<noteq> 0 \<longrightarrow> allq (reg (shared s)) = []) \<and>
    (\<forall>r\<in>set (returned s). found_nothing r) \<and>
    (\<forall>t c d a timeout r. pc_of s t \<noteq> MqRest (Transfer c a timeout) \<and> pc_of s t \<noteq> MqRest (FreeQ d a r))"
proof -
  have inv: "quiet_state e s" using mqq.inv_reachable [OF TrueI assms] .
  then have "quiet (shared s) (pc_of s t)" for t by (simp add: quiet_state_def)
  then have "pc_of s t \<noteq> MqRest (Transfer c a timeout) \<and> pc_of s t \<noteq> MqRest (FreeQ d a r)" for t c d a timeout r
    by (metis quiet.simps(5) quiet_rest.simps(2,3))
  with inv show ?thesis by (simp add: quiet_state_def quiet_shared_def)
qed

definition ref_mq_begin :: "(nat, (ref_queue, nat option, ref_heap) mq_shared, mq_pc, mq_reply) threads" where
  "ref_mq_begin = \<lparr>shared = \<lparr>reg = ref_mq_world 5, mux_ready = False\<rparr>, pc_of = (\<lambda>_. MqOut), returned = []\<rparr>"

lemma ref_mq_begin: "mq_begin ref_mq_env ref_mq_begin"
  by (simp add: mq_begin_def ref_mq_begin_def ref_mq_world_def)

theorem mq_interleaved_empty_witness:
  "let s = run_schedule (mq_prog ref_mq_env)
       (Call 2 (mq_enter (DoOpen ''/q'' 512 0 None)) # replicate 7 (Move 2) @ [Return 2,
        Call 3 (mq_enter (DoClose (Mqd 100))), Move 3, Move 3, Move 3, Move 3, Return 3]) ref_mq_begin
   in returned s = [(ClosedQ MinusOne, Some EBADF), (OpenedQ (Mqd 100), None)] \<and> allq (reg (shared s)) = []"
proof -
  let ?as = "Call 2 (mq_enter (DoOpen ''/q'' 512 0 None)) # replicate 7 (Move 2) @ [Return 2,
        Call 3 (mq_enter (DoClose (Mqd 100))), Move 3, Move 3, Move 3, Move 3, Return 3]"
  let ?s = "run_schedule (mq_prog ref_mq_env) ?as ref_mq_begin"
  have "reachable (mq_begin ref_mq_env) (tstep (mq_prog ref_mq_env)) ?s"
    by (rule reachable_schedule, rule reach_init, rule ref_mq_begin)
  note all = mq_interleaved_empty [OF this]
  have "returned ?s = [(ClosedQ MinusOne, Some EBADF), (OpenedQ (Mqd 100), None)] \<and>
      mq_inited (reg (shared ?s)) \<noteq> 0"
    by (simp add: ref_mq_begin_def mq_enter_def mq_run_simps eval_nat_numeral c_arith)
  with all show ?thesis by (simp add: Let_def del: run_schedule.simps)
qed

text \<open>
  C37: the initialisation of the registry is not safe against other tasks. Whatever two tasks
  call first (any call but \<open>mq_send\<close> and \<open>mq_receive\<close>, with arguments that pass the tests),
  there is an interleaving in which both are in the section that \<open>allq_mux\<close> protects: a task
  interrupted inside \<open>mq_check_init\<close> initialises the mutex again while the other one holds it.
\<close>

theorem mq_init_race:
  assumes "mutex_laws (q_muts e)" and "mq_begin e s" and "t \<noteq> u"
    and "mq_tests c = MqLock c" and "mq_tests d = MqLock d"
    and "\<not> mq_transfers c" and "\<not> mq_transfers d"
  shows "\<exists>s'. (tstep (mq_prog e))\<^sup>*\<^sup>* s s' \<and> pc_of s' t = MqLocked c \<and> pc_of s' u = MqLocked d"
proof -
  let ?as = "[Call t (MqCheckInit c), Call u (MqCheckInit d), Move t, Move u, Move t,
    Move u, Move u, Move u, Move u, Move t, Move t, Move t]"
  let ?s = "run_schedule (mq_prog e) ?as s"
  have free: "own (q_muts e) (mut_init (q_muts e)) = None" using mutex_lawsD(1) [OF assms(1)] .
  obtain m n where m: "mut_take (q_muts e) t (mut_init (q_muts e)) = Some m"
    "mut_take (q_muts e) u (mut_init (q_muts e)) = Some n"
    using mutex_lawsD(2) [OF assms(1) free] by blast
  have "pc_of ?s t = MqLocked c \<and> pc_of ?s u = MqLocked d"
    using assms(2-7) m by (simp add: mq_begin_def lock_allq_def)
  moreover have "(tstep (mq_prog e))\<^sup>*\<^sup>* s ?s"
    by (rule tsteps_schedule)
  ultimately show ?thesis by blast
qed

theorem mq_init_race_witness:
  "\<exists>s'. (tstep (mq_prog ref_mq_env))\<^sup>*\<^sup>* ref_mq_begin s' \<and>
    pc_of s' 2 = MqLocked (DoOpen ''/q'' 512 0 None) \<and> pc_of s' 3 = MqLocked (DoUnlink ''/q'')"
  using mq_init_race [OF _ ref_mq_begin, of 2 3 "DoOpen ''/q'' 512 0 None" "DoUnlink ''/q''"]
  by (simp add: mq_open_checks_def validate_name_def POSIX_NAME_MAX_def)

end
