(* ===== verification/Mq_Safety.thy ===== *)
theory Mq_Safety
  imports Mq_Threads
begin

text \<open>
  Message queues of a registry in use: tasks that open, close, unlink, send and receive at the
  same time, from a well-formed registry that is initialised: what the lock protects, and which
  steps change the registry and how. Of these registries an application meets the empty one
  only (\<open>mq_interleaved_empty\<close> of Mq_Threads).
\<close>

section \<open>The invariant\<close>

type_synonym ('t, 'q, 'm, 'h) mq_sys = "('t, 'q, 'm, 'h) mq_env \<times> ('h \<Rightarrow> (posix_obj \<times> addr) set)"

fun sys_ok :: "('t, 'q, 'm, 'h) mq_sys \<Rightarrow> bool" where
  "sys_ok (e, live) \<longleftrightarrow> mutex_laws (q_muts e) \<and> taker_owns (q_muts e) \<and>
     (\<exists>al fr. mem_laws live al fr \<and> hcos_posix_alloc (q_mem e) = Some al \<and>
       hcos_posix_free (q_mem e) = Some fr)"

text \<open>
  A good registry: its queues exist and have different names, and every queue object, linked
  or not, is a block in use.
\<close>

definition reg_good ::
    "('h \<Rightarrow> (posix_obj \<times> addr) set) \<Rightarrow> ('q, 'm, 'h) mq_world \<Rightarrow> bool" where
  "reg_good live w \<longleftrightarrow> mq_inited w \<noteq> 0 \<and>
     (\<forall>a\<in>set (allq w). q_obj w a \<noteq> None \<and> d_buf (mq_at w a) \<noteq> None) \<and>
     distinct (map (\<lambda>a. d_name (mq_at w a)) (allq w)) \<and>
     (\<forall>a. q_obj w a \<noteq> None \<longrightarrow> (POSIX_MQUEUE, a) \<in> live (q_heap w))"

text \<open>A queue that may be freed: it exists and is no longer linked.\<close>

definition releasable :: "('q, 'm, 'h) mq_world \<Rightarrow> addr \<Rightarrow> bool" where
  "releasable w a \<longleftrightarrow> q_obj w a \<noteq> None \<and> d_buf (mq_at w a) \<noteq> None \<and> a \<notin> set (allq w)"

fun in_section :: "mq_pc \<Rightarrow> bool" where
  "in_section (MqLocked c) \<longleftrightarrow> True"
| "in_section (MqUnlock r) \<longleftrightarrow> True"
| "in_section pc \<longleftrightarrow> False"

fun frees :: "mq_pc \<Rightarrow> addr option" where
  "frees (MqUnlock (FreeQ c a r)) = Some a"
| "frees (MqRest (FreeQ c a r)) = Some a"
| "frees pc = None"

text \<open>The calls that can fault, for their arguments or because their queue is gone.\<close>

fun may_fault :: "mq_call \<Rightarrow> bool" where
  "may_fault (DoClose d) \<longleftrightarrow> False"
| "may_fault (DoUnlink n) \<longleftrightarrow> False"
| "may_fault (DoGetattr d st) \<longleftrightarrow> st = None"
| "may_fault (DoOpen name oflag mode attr) \<longleftrightarrow> POSIX_MQUEUE_NAME_SZ \<le> length name"
| "may_fault c \<longleftrightarrow> True"

fun sound_rest :: "mq_rest \<Rightarrow> bool" where
  "sound_rest (Transfer c a timeout) \<longleftrightarrow> mq_transfers c"
| "sound_rest r \<longleftrightarrow> True"

fun sound :: "mq_pc \<Rightarrow> bool" where
  "sound (MqInitList c) \<longleftrightarrow> False"
| "sound (MqInitMutex c) \<longleftrightarrow> False"
| "sound (MqInitSet c) \<longleftrightarrow> False"
| "sound (MqFault c) \<longleftrightarrow> may_fault c"
| "sound (MqUnlock r) \<longleftrightarrow> sound_rest r"
| "sound (MqRest r) \<longleftrightarrow> sound_rest r"
| "sound (MqFailed c a) \<longleftrightarrow> mq_transfers c"
| "sound (MqSize c a msg) \<longleftrightarrow> mq_transfers c"
| "sound pc \<longleftrightarrow> True"

text \<open>The start: a good registry in place, its lock free, no task in a call.\<close>

fun mq_running ::
    "('t, 'q, 'm, 'h) mq_sys \<Rightarrow> ('t, ('q, 'm, 'h) mq_shared, mq_pc, mq_reply) threads \<Rightarrow> bool" where
  "mq_running (e, live) s \<longleftrightarrow> mux_ready (shared s) \<and> reg_good live (reg (shared s)) \<and>
     own (q_muts e) (allq_mux (reg (shared s))) = None \<and> (\<forall>t. pc_of s t = MqOut)"

definition safe_task ::
    "('t, 'q, 'm, 'h) mq_env \<Rightarrow> ('q, 'm, 'h) mq_world \<Rightarrow> ('t \<Rightarrow> mq_pc) \<Rightarrow> 't \<Rightarrow> bool" where
  "safe_task e w pcs t \<longleftrightarrow> sound (pcs t) \<and>
     (in_section (pcs t) \<longrightarrow> own (q_muts e) (allq_mux w) = Some t) \<and>
     (\<forall>a. frees (pcs t) = Some a \<longrightarrow> releasable w a \<and> (\<forall>u. u \<noteq> t \<longrightarrow> frees (pcs u) \<noteq> Some a))"

fun safe_state ::
    "('t, 'q, 'm, 'h) mq_sys \<Rightarrow> ('t, ('q, 'm, 'h) mq_shared, mq_pc, mq_reply) threads \<Rightarrow> bool" where
  "safe_state (e, live) s \<longleftrightarrow> mux_ready (shared s) \<and> reg_good live (reg (shared s)) \<and>
     (\<forall>t. safe_task e (reg (shared s)) (pc_of s) t)"

section \<open>The steps keep it\<close>

lemma good_put:
  assumes "reg_good live w" and "q_obj w a = Some old" and "d_name mq = d_name old" and "d_buf mq = d_buf old"
    and "allq w' = allq w" and "q_obj w' = (q_obj w)(a \<mapsto> mq)" and "q_heap w' = q_heap w"
    and "mq_inited w' \<noteq> 0"
  shows "reg_good live w'" and "releasable w' b = releasable w b"
proof -
  have at: "mq_at w' b = (if b = a then mq else mq_at w b)" for b by (simp add: mq_at_def assms(6))
  have old: "mq_at w a = old" by (simp add: mq_at_def assms(2))
  have name: "d_name (mq_at w' b) = d_name (mq_at w b)" and buf: "d_buf (mq_at w' b) = d_buf (mq_at w b)" for b
    using assms(3,4) old by (simp_all add: at)
  have obj: "q_obj w' b = None \<longleftrightarrow> q_obj w b = None" for b by (simp add: assms(2,6))
  show "reg_good live w'" "releasable w' b = releasable w b"
    using assms(1,5,7,8) by (simp_all add: reg_good_def releasable_def name buf obj)
qed

lemma good_unlink:
  assumes "reg_good live w" and "a \<in> set (allq w)" and "allq w' = remove1 a (allq w)"
    and "q_obj w' = q_obj w" and "q_heap w' = q_heap w" and "mq_inited w' \<noteq> 0"
  shows "reg_good live w'" and "releasable w' a" and "releasable w b \<Longrightarrow> releasable w' b"
proof -
  have at: "mq_at w' b = mq_at w b" for b by (simp add: mq_at_def assms(4))
  have d: "distinct (map (\<lambda>a. d_name (mq_at w a)) (allq w))" using assms(1) by (simp add: reg_good_def)
  then have dist: "distinct (allq w)" and inj: "inj_on (\<lambda>a. d_name (mq_at w a)) (set (allq w))"
    by (simp_all add: distinct_map)
  have sub: "set (allq w') = set (allq w) - {a}" using dist by (simp add: assms(3))
  have "distinct (map (\<lambda>a. d_name (mq_at w' a)) (allq w'))"
    using dist inj assms(3) sub by (simp add: distinct_map at inj_on_def)
  with assms(1,5,6) sub show "reg_good live w'" by (simp add: reg_good_def at assms(4))
  show "releasable w' a" using assms(1,2) sub by (simp add: releasable_def reg_good_def at assms(4))
  show "releasable w b \<Longrightarrow> releasable w' b" using sub by (simp add: releasable_def at assms(4))
qed

lemma good_new:
  assumes "reg_good live w" and "(POSIX_MQUEUE, a) \<notin> live (q_heap w)"
    and "insert (POSIX_MQUEUE, a) (live (q_heap w)) \<subseteq> live (q_heap w')"
    and "allq w' = allq w" and "q_obj w' = (q_obj w)(a \<mapsto> mq)" and "mq_inited w' \<noteq> 0"
  shows "reg_good live w'" and "releasable w b \<Longrightarrow> releasable w' b"
proof -
  have a: "q_obj w a = None" using assms(1,2) unfolding reg_good_def by blast
  then have "a \<notin> set (allq w)" using assms(1) unfolding reg_good_def by blast
  have at: "b \<noteq> a \<Longrightarrow> mq_at w' b = mq_at w b" for b by (simp add: mq_at_def assms(5))
  have "map (\<lambda>a. d_name (mq_at w' a)) (allq w) = map (\<lambda>a. d_name (mq_at w a)) (allq w)"
    using \<open>a \<notin> set (allq w)\<close> at by (intro map_cong refl arg_cong [of _ _ d_name]) (metis at)
  then have "distinct (map (\<lambda>a. d_name (mq_at w' a)) (allq w'))"
    unfolding assms(4) using assms(1) by (simp only: reg_good_def)
  moreover have "\<forall>b\<in>set (allq w). q_obj w' b \<noteq> None \<and> d_buf (mq_at w' b) \<noteq> None"
    using assms(1) \<open>a \<notin> set (allq w)\<close> at by (auto simp: reg_good_def assms(5))
  ultimately show "reg_good live w'"
    using assms(1,3,6) by (auto simp: reg_good_def assms(4,5))
  show "releasable w b \<Longrightarrow> releasable w' b"
    using a at by (auto simp: releasable_def assms(4,5))
qed

lemma good_same:
  assumes "reg_good live w" and "allq w' = allq w" and "q_obj w' = q_obj w" and "q_heap w' = q_heap w"
    and "mq_inited w' = mq_inited w"
  shows "reg_good live w'" and "releasable w' b = releasable w b"
  using assms by (simp_all add: reg_good_def releasable_def mq_at_def)

lemma good_free:
  assumes "sys_ok (e, live)" and "reg_good live w" and "releasable w a"
  obtains w' where "mq_free e a w = Returns w'" and "reg_good live w'" and "allq w' = allq w"
    and "allq_mux w' = allq_mux w" and "q_obj w' = (q_obj w)(a := None)"
    and "\<And>b. releasable w b \<Longrightarrow> b \<noteq> a \<Longrightarrow> releasable w' b"
proof -
  obtain al fr where m: "mem_laws live al fr" "hcos_posix_free (q_mem e) = Some fr"
    using assms(1) by auto
  obtain mq b where mq: "q_obj w a = Some mq" "d_buf mq = Some b" "a \<notin> set (allq w)"
    using assms(3) by (auto simp: releasable_def mq_at_def)
  let ?h = "fr POSIX_MQUEUE (Some a) (fr POSIX_MQUEUE_BUF (Some b) (q_heap w))"
  let ?w = "w\<lparr>q_heap := ?h, q_obj := (q_obj w)(a := None)\<rparr>"
  have live: "live ?h = live (q_heap w) - {(POSIX_MQUEUE_BUF, b)} - {(POSIX_MQUEUE, a)}"
    using mem_lawsD(3) [OF m(1)] by simp
  have at: "c \<noteq> a \<Longrightarrow> mq_at ?w c = mq_at w c" for c by (simp add: mq_at_def)
  have names: "map (\<lambda>a. d_name (mq_at ?w a)) (allq w) = map (\<lambda>a. d_name (mq_at w a)) (allq w)"
    using mq(3) at by (intro map_cong refl arg_cong [of _ _ d_name]) (metis at)
  have "\<forall>c\<in>set (allq w). q_obj ?w c \<noteq> None \<and> d_buf (mq_at ?w c) \<noteq> None"
    using mq(3) at assms(2) by (auto simp: reg_good_def)
  then have good: "reg_good live ?w"
    using assms(2) by (auto simp: reg_good_def names live)
  show thesis
  proof (rule that [of ?w])
    show "mq_free e a w = Returns ?w" using m(2) mq by (simp add: mq_free_def posix_free_def)
    show "releasable w b \<Longrightarrow> b \<noteq> a \<Longrightarrow> releasable ?w b" for b by (simp add: releasable_def at)
  qed (simp_all add: good)
qed

text \<open>The critical section, from a good registry.\<close>

definition good_result ::
    "('h \<Rightarrow> (posix_obj \<times> addr) set) \<Rightarrow> ('q, 'm, 'h) mq_world \<Rightarrow> ('q, 'm, 'h) mq_world \<Rightarrow> mq_pc \<Rightarrow> bool" where
  "good_result live w w' p \<longleftrightarrow> reg_good live w' \<and> allq_mux w' = allq_mux w \<and> sound p \<and>
     (\<forall>a. frees p = Some a \<longrightarrow> releasable w' a \<and> a \<in> set (allq w)) \<and>
     (\<forall>b. releasable w b \<longrightarrow> releasable w' b)"

lemma good_result_same: "reg_good live w \<Longrightarrow> sound p \<Longrightarrow> frees p = None \<Longrightarrow> good_result live w w p"
  by (simp add: good_result_def)

lemma good_searches:
  assumes "reg_good live w"
  shows "mq_find_locked (q_obj w) (allq w) n = Returns (List.find (\<lambda>a. d_name (mq_at w a) = n) (allq w))"
    and "mq_extract_locked (q_obj w) (allq w) d =
      Returns (case d of Mqd a \<Rightarrow> if a \<in> set (allq w) then Some a else None | _ \<Rightarrow> None)"
  using assms find_locked [of "allq w" "q_obj w" n] extract_locked [of "allq w" "q_obj w" d]
  by (simp_all add: reg_good_def mq_at_def)

lemma good_linked:
  assumes "reg_good live w" and "a \<in> set (allq w)"
  obtains mq where "q_obj w a = Some mq" and "mq_at w a = mq"
  using assms by (auto simp: reg_good_def mq_at_def)

lemma good_result_put:
  assumes "reg_good live w" and "q_obj w a = Some old" and "d_name mq = d_name old" and "d_buf mq = d_buf old"
    and "sound p" and "frees p = None"
  shows "good_result live w (put_mq a mq w) p"
  using good_put [OF assms(1-4), of "put_mq a mq w"] assms(1,5,6)
  by (simp add: good_result_def reg_good_def)

lemma good_result_unlink:
  assumes "reg_good live w" and "a \<in> set (allq w)" and "sound p" and "frees p = Some a"
  shows "good_result live w (w\<lparr>allq := remove1 a (allq w)\<rparr>) p"
  using good_unlink [OF assms(1,2), of "w\<lparr>allq := remove1 a (allq w)\<rparr>"] assms
  by (simp add: good_result_def reg_good_def)

lemma good_result_trans:
  assumes "good_result live w u q" and "frees q = None" and "good_result live u w' p" and "allq u = allq w"
  shows "good_result live w w' p"
  using assms by (simp add: good_result_def)

lemma critical_close:
  assumes "reg_good live w" and "mq_close_locked e d None w = r"
  obtains ret removed err w' where "r = Returns (ret, removed, err, w')" and "good_result live w w'
    (MqUnlock (case removed of None \<Rightarrow> Finished v | Some a \<Rightarrow> FreeQ c a v))"
proof (cases "\<exists>a\<in>set (allq w). d = Mqd a")
  case False
  with assms(1,2) that [of MinusOne None "Some EBADF" w] show thesis
    by (auto simp: mq_close_locked_def good_searches good_result_same split: mqd.splits)
next
  case True
  then obtain a where a: "a \<in> set (allq w)" "d = Mqd a" by blast
  then obtain mq where mq: "q_obj w a = Some mq" using good_linked [OF assms(1)] by blast
  let ?mq = "drop_descriptor mq"
  let ?u = "put_mq a ?mq w"
  have keep: "d_name ?mq = d_name mq" "d_buf ?mq = d_buf mq" by (simp_all add: drop_descriptor_def)
  note put = good_result_put [OF assms(1) mq, of _ "MqUnlock (Finished v)"]
  note run = assms(2) [unfolded mq_close_locked_def good_searches(2) [OF assms(1)]]
  consider "d_open_count ?mq = 0" "d_pending_unlink ?mq \<noteq> 0" | "d_open_count ?mq = 0" "d_pending_unlink ?mq = 0"
    | "d_open_count ?mq \<noteq> 0" by blast
  then show thesis
  proof cases
    case 1
    have "good_result live w (?u\<lparr>allq := remove1 a (allq ?u)\<rparr>) (MqUnlock (FreeQ c a v))"
      using put [of ?mq] keep a(1)
      by (intro good_result_trans [OF put [of ?mq]] good_result_unlink) (simp_all add: good_result_def)
    with that [of OK "Some a" None] run [symmetric] a mq 1 show thesis by (simp add: Let_def)
  next
    case 2
    with that [of OK None None] run [symmetric] a mq keep put [of "?mq\<lparr>d_pending_unlink := 1\<rparr>"] show thesis
      by (simp add: Let_def)
  next
    case 3
    with that [of OK None None] run [symmetric] a mq keep put [of ?mq] show thesis by (simp add: Let_def)
  qed
qed

lemma critical_unlink:
  assumes "reg_good live w" and "mq_unlink_locked n None w = r"
  obtains ret removed err w' where "r = Returns (ret, removed, err, w')" and "good_result live w w'
    (MqUnlock (case removed of None \<Rightarrow> Finished v | Some a \<Rightarrow> FreeQ c a v))"
proof (cases "List.find (\<lambda>a. d_name (mq_at w a) = n) (allq w)")
  case None
  with assms(1,2) that [of MinusOne None "Some ENOENT" w] show thesis
    by (auto simp: mq_unlink_locked_def good_searches good_result_same)
next
  case (Some a)
  have a: "a \<in> set (allq w)" using Some by (metis find_Some_iff nth_mem)
  then obtain mq where mq: "q_obj w a = Some mq" using good_linked [OF assms(1)] by blast
  note run = assms(2) [unfolded mq_unlink_locked_def good_searches(1) [OF assms(1)] Some]
  show thesis
  proof (cases "d_open_count mq = 0")
    case True
    with that [of OK "Some a" None "w\<lparr>allq := remove1 a (allq w)\<rparr>"] run mq good_result_unlink [OF assms(1) a, of "MqUnlock (FreeQ c a v)"]
    show thesis by (simp add: Let_def)
  next
    case False
    with that [of OK None None] run [symmetric] mq
      good_result_put [OF assms(1) mq, of "mq\<lparr>d_pending_unlink := 1\<rparr>" "MqUnlock (Finished v)"]
    show thesis by (simp add: Let_def)
  qed
qed

lemma good_result_any:
  "good_result live w w' (MqUnlock (case removed of None \<Rightarrow> Finished v | Some a \<Rightarrow> FreeQ c a v)) \<Longrightarrow>
   good_result live w w' (MqUnlock (case removed of None \<Rightarrow> Finished v' | Some a \<Rightarrow> FreeQ c' a v'))"
  by (cases removed) (simp_all add: good_result_def)

definition opens_well where
  "opens_well live w n r \<longleftrightarrow>
     (case r of
        Returns (d, out, err, w') \<Rightarrow> (\<forall>p. sound p \<longrightarrow> frees p = None \<longrightarrow> good_result live w w' p)
      | _ \<Rightarrow> POSIX_MQUEUE_NAME_SZ \<le> length n)"

lemma critical_create:
  assumes "sys_ok (e, live)" and "reg_good live w"
  shows "opens_well live w n (mq_create e n f attr None w)"
proof -
  obtain al fr where m: "mem_laws live al fr" "hcos_posix_alloc (q_mem e) = Some al"
    using assms(1) by auto
  obtain o1 h where o1: "al POSIX_MQUEUE (sizeof_mqd e) (q_heap w) = (o1, h)" by fastforce
  have i: "mq_inited w \<noteq> 0" using assms(2) by (simp add: reg_good_def)
  show ?thesis
  proof (cases o1)
    case None
    have "live h = live (q_heap w)" using mem_lawsD(2) [OF m(1)] o1 None by blast
    then have "good_result live w (w\<lparr>q_heap := h\<rparr>) p" if "sound p" "frees p = None" for p
      using assms(2) that by (simp add: good_result_def reg_good_def releasable_def mq_at_def)
    with m(2) o1 None show ?thesis by (simp add: opens_well_def mq_create_def)
  next
    case (Some a)
    have a: "(POSIX_MQUEUE, a) \<notin> live (q_heap w)" "live h = insert (POSIX_MQUEUE, a) (live (q_heap w))"
      using mem_lawsD(1) [OF m(1)] o1 Some by blast+
    have new: "good_result live w ((put_mq a mq w)\<lparr>q_heap := h'\<rparr>) p"
      if "live h \<subseteq> live h'" "sound p" "frees p = None" for mq h' p
      using good_new [OF assms(2) a(1), of "(put_mq a mq w)\<lparr>q_heap := h'\<rparr>" mq] that a(2) i
      by (simp add: good_result_def put_mq_def)
    let ?A = "(case attr of None \<Rightarrow> \<lparr>mq_flags = 0, mq_maxmsg = POSIX_MQUEUE_DEF_MSG_MAX,
      mq_msgsize = POSIX_MQUEUE_DEF_MSG_SZ, mq_curmsgs = 0\<rparr> | Some A \<Rightarrow> A)\<lparr>mq_flags := f\<rparr>"
    obtain o2 h' where o2: "al POSIX_MQUEUE_BUF (queue_buf_sz ?A) h = (o2, h')" by fastforce
    show ?thesis
    proof (cases o2)
      case None
      have "live h' = live h" using mem_lawsD(2) [OF m(1)] o2 None by blast
      with m(2) o1 Some o2 None new [of h'] show ?thesis
        by (simp add: opens_well_def mq_create_def Let_def)
    next
      case (Some b)
      have "live h' = insert (POSIX_MQUEUE_BUF, b) (live h)" using mem_lawsD(1) [OF m(1)] o2 Some by blast
      with m(2) o1 \<open>o1 = Some a\<close> o2 Some new [of h'] show ?thesis
        by (simp add: opens_well_def mq_create_def Let_def subset_insertI)
    qed
  qed
qed

lemma critical_getattr:
  assumes "reg_good live w"
  shows "mq_getattr_locked e d st None w = Faults \<and> st = None \<or> (\<exists>x. mq_getattr_locked e d st None w = Returns x)"
  using assms
  by (auto simp: mq_getattr_locked_def good_searches Let_def simp del: split_paired_Ex
      split: option.splits mqd.splits if_splits)

lemma critical_open:
  assumes "sys_ok (e, live)" and "reg_good live w"
  shows "opens_well live w n (mq_open_locked e n f attr None w)"
proof (cases "List.find (\<lambda>a. d_name (mq_at w a) = n) (allq w)")
  case None
  with critical_create [OF assms] assms(2) show ?thesis
    by (simp add: mq_open_locked_def good_searches) (simp add: opens_well_def good_result_same)
next
  case (Some a)
  have a: "a \<in> set (allq w)" using Some by (metis find_Some_iff nth_mem)
  then obtain mq where mq: "q_obj w a = Some mq" using good_linked [OF assms(2)] by blast
  from Some assms(2) mq good_result_put [OF assms(2) mq, of "mq\<lparr>d_open_count := d_open_count mq + 1\<rparr>"]
  show ?thesis
    by (simp add: mq_open_locked_def good_searches opens_well_def Let_def good_result_same)
qed

lemma critical_io:
  assumes "reg_good live w"
  obtains ret found timeout err where "mq_io_checks e k d p bad abstime None w = Returns (ret, found, timeout, err)"
proof -
  have "mq_io_checks e k d p bad abstime None w \<noteq> Faults"
    using assms by (auto simp: mq_io_checks_def good_searches Let_def split: prod.splits)
  with that show thesis by (cases "mq_io_checks e k d p bad abstime None w") auto
qed

lemma critical_good:
  assumes "sys_ok (e, live)" and "reg_good live w"
  shows "case mq_critical e c w of
      Returns (w', p) \<Rightarrow> good_result live w w' p \<and> (in_section p \<or> (\<exists>r. p = MqRest (Finished r)))
    | _ \<Rightarrow> may_fault c"
proof (cases c)
  case (DoClose d)
  obtain ret removed err w' where "mq_close_locked e d None w = Returns (ret, removed, err, w')"
    "good_result live w w' (MqUnlock (case removed of None \<Rightarrow> Finished undefined
      | Some a \<Rightarrow> FreeQ undefined a undefined))"
    by (rule critical_close [OF assms(2) refl])
  with DoClose show ?thesis by (simp add: good_result_any)
next
  case (DoUnlink n)
  obtain ret removed err w' where "mq_unlink_locked n None w = Returns (ret, removed, err, w')"
    "good_result live w w' (MqUnlock (case removed of None \<Rightarrow> Finished undefined
      | Some a \<Rightarrow> FreeQ undefined a undefined))"
    by (rule critical_unlink [OF assms(2) refl])
  with DoUnlink show ?thesis by (simp add: good_result_any)
next
  case (DoGetattr d st)
  with critical_getattr [OF assms(2), of e d st] assms(2) show ?thesis
    by (auto simp: good_result_same)
next
  case (DoOpen n f m attr)
  with critical_open [OF assms, of n f attr] show ?thesis
    by (cases "mq_open_locked e n f attr None w") (auto simp: opens_well_def)
next
  case (DoSend k d p msg len abstime)
  obtain ret found timeout err where
    "mq_io_checks e k d p (\<lambda>q. mq_isz (q_ops e) q < len) abstime None w = Returns (ret, found, timeout, err)"
    by (rule critical_io [OF assms(2)])
  with DoSend assms(2) show ?thesis by (simp add: good_result_same)
next
  case (DoReceive k d p len abstime)
  obtain ret found timeout err where
    "mq_io_checks e k d p (\<lambda>q. len < mq_isz (q_ops e) q) abstime None w = Returns (ret, found, timeout, err)"
    by (rule critical_io [OF assms(2)])
  with DoReceive assms(2) show ?thesis by (simp add: good_result_same)
qed

lemma sound_tests: "sound (mq_tests c) \<and> \<not> in_section (mq_tests c) \<and> frees (mq_tests c) = None"
  by (cases c) (simp_all add: mq_open_checks_eq)

text \<open>What a step of one task promises the others.\<close>

definition good_move ::
    "('t, 'q, 'm, 'h) mq_sys \<Rightarrow> 't \<Rightarrow> ('q, 'm, 'h) mq_shared \<Rightarrow> mq_pc \<Rightarrow> ('q, 'm, 'h) mq_shared \<Rightarrow> mq_pc \<Rightarrow> bool" where
  "good_move p t sh pc sh' pc' \<longleftrightarrow>
     (case p of (e, live) \<Rightarrow>
        mux_ready sh' \<and> reg_good live (reg sh') \<and> sound pc' \<and>
        (in_section pc' \<longrightarrow> own (q_muts e) (allq_mux (reg sh')) = Some t) \<and>
        (\<forall>u. u \<noteq> t \<longrightarrow> own (q_muts e) (allq_mux (reg sh)) = Some u \<longrightarrow>
           own (q_muts e) (allq_mux (reg sh')) = Some u) \<and>
        (\<forall>a. frees pc' = Some a \<longrightarrow> releasable (reg sh') a \<and> (frees pc = Some a \<or> a \<in> set (allq (reg sh)))) \<and>
        (\<forall>b. releasable (reg sh) b \<longrightarrow> frees pc \<noteq> Some b \<longrightarrow> releasable (reg sh') b))"

lemma good_step:
  assumes ok: "sys_ok (e, live)" and good: "mux_ready sh" "reg_good live (reg sh)" "sound pc"
    and sect: "in_section pc \<Longrightarrow> own (q_muts e) (allq_mux (reg sh)) = Some t"
    and fr: "\<And>a. frees pc = Some a \<Longrightarrow> releasable (reg sh) a"
    and step: "mq_code e t sh pc = Some (sh', pc')"
  shows "good_move (e, live) t sh pc sh' pc'"
proof (cases pc)
  case (MqCheckInit c)
  with step good sound_tests [of c] show ?thesis by (auto simp: good_move_def reg_good_def)
next
  case (MqLock c)
  with step good(1) obtain m where m: "mut_take (q_muts e) t (allq_mux (reg sh)) = Some m"
    and s: "sh' = sh\<lparr>reg := (reg sh)\<lparr>allq_mux := m\<rparr>\<rparr>" "pc' = MqLocked c"
    by (auto simp: lock_allq_def split: option.splits)
  have "own (q_muts e) m = Some t" using ok m by (simp add: taker_owns_def)
  moreover have "own (q_muts e) (allq_mux (reg sh)) \<noteq> Some u" if "u \<noteq> t" for u
    using ok m mutex_lawsD(5) [of "q_muts e" _ u t] that by force
  moreover have "reg_good live (reg sh')" "releasable (reg sh') b = releasable (reg sh) b" for b
    using good_same [OF good(2), of "reg sh'"] s by simp_all
  ultimately show ?thesis using good s by (simp add: good_move_def)
next
  case (MqLocked c)
  from critical_good [OF ok good(2), of c] show ?thesis
  proof (cases "mq_critical e c (reg sh)")
    case (Returns x)
    with critical_good [OF ok good(2), of c] step MqLocked good sect show ?thesis
      by (cases x) (auto simp: good_move_def good_result_def)
  qed (use step MqLocked good critical_good [OF ok good(2), of c] in \<open>auto simp: good_move_def\<close>)
next
  case (MqUnlock r)
  then have s: "sh' = sh\<lparr>reg := unlock_allq e (reg sh)\<rparr>" "pc' = MqRest r" using step by simp_all
  have "reg_good live (reg sh')" "releasable (reg sh') b = releasable (reg sh) b" for b
    using good_same [OF good(2), of "reg sh'"] s by simp_all
  moreover have "frees pc' = frees pc" using s MqUnlock by (cases r) simp_all
  ultimately show ?thesis using good sect fr s MqUnlock by (simp add: good_move_def)
next
  case (MqRest r)
  show ?thesis
  proof (cases r)
    case (Finished v)
    with MqRest step show ?thesis by simp
  next
    case (FreeQ c a v)
    with MqRest fr have "releasable (reg sh) a" by simp
    from good_free [OF ok good(2) this] obtain w where "mq_free e a (reg sh) = Returns w"
      "reg_good live w" "allq_mux w = allq_mux (reg sh)" "\<And>b. releasable (reg sh) b \<Longrightarrow> b \<noteq> a \<Longrightarrow> releasable w b"
      by metis
    with FreeQ MqRest step good show ?thesis by (auto simp: good_move_def)
  next
    case (Transfer c a n)
    show ?thesis
    proof (cases "q_obj (reg sh) a")
      case None
      with Transfer MqRest step good show ?thesis by (cases c) (auto simp: good_move_def)
    next
      case (Some mq)
      obtain q p where q: "mq_kernel_io e c a n (d_q mq) = (q, p)" by fastforce
      with Transfer MqRest good(3) have p: "sound p" "\<not> in_section p" "frees p = None"
        by (cases c; force split: prod.splits bool.splits option.splits)+
      let ?w = "put_mq a (mq\<lparr>d_q := q\<rparr>) (reg sh)"
      have "reg_good live ?w" "releasable ?w b = releasable (reg sh) b" for b
        using good_put [OF good(2) Some, of "mq\<lparr>d_q := q\<rparr>" ?w] good(2) by (simp_all add: reg_good_def)
      with Transfer MqRest step good Some q p show ?thesis by (auto simp: good_move_def)
    qed
  qed
next
  case (MqFailed c a)
  with step good show ?thesis
    by (cases c) (auto simp: good_move_def split: option.splits)
next
  case (MqSize c a msg)
  with step good show ?thesis
    by (cases c) (auto simp: good_move_def split: option.splits)
qed (use step good in simp_all)

lemma safe_quiet:
  assumes "\<And>u. safe_task e w pcs u" and "sound p" and "\<not> in_section p" and "frees p = None"
  shows "safe_task e w (pcs(t := p)) u"
proof (cases "u = t")
  case True
  with assms(2-4) show ?thesis by (simp add: safe_task_def)
next
  case False
  with assms(1) [of u] assms(4) show ?thesis by (simp add: safe_task_def)
qed

lemma safe_entry: "mq_entry p \<Longrightarrow> sound p \<and> \<not> in_section p \<and> frees p = None"
  by (cases p) simp_all

lemma safe_move:
  assumes "good_move (e, live) t sh (pcs t) sh' p" and old: "\<And>u. safe_task e (reg sh) pcs u"
  shows "safe_task e (reg sh') (pcs(t := p)) u"
proof -
  from assms(1) have m: "sound p" "in_section p \<Longrightarrow> own (q_muts e) (allq_mux (reg sh')) = Some t"
    "\<And>u. u \<noteq> t \<Longrightarrow> own (q_muts e) (allq_mux (reg sh)) = Some u \<Longrightarrow> own (q_muts e) (allq_mux (reg sh')) = Some u"
    "\<And>a. frees p = Some a \<Longrightarrow> releasable (reg sh') a \<and> (frees (pcs t) = Some a \<or> a \<in> set (allq (reg sh)))"
    "\<And>b. releasable (reg sh) b \<Longrightarrow> frees (pcs t) \<noteq> Some b \<Longrightarrow> releasable (reg sh') b"
    by (simp_all add: good_move_def)
  have o: "sound (pcs u)" "in_section (pcs u) \<Longrightarrow> own (q_muts e) (allq_mux (reg sh)) = Some u"
    "frees (pcs u) = Some a \<Longrightarrow> releasable (reg sh) a"
    "frees (pcs u) = Some a \<Longrightarrow> v \<noteq> u \<Longrightarrow> frees (pcs v) \<noteq> Some a" for u v a
    using old [of u] unfolding safe_task_def by blast+
  have new: "frees (pcs u) \<noteq> Some a" if "frees p = Some a" "u \<noteq> t" for u a
    using m(4) [OF that(1)] o(3) [of u a] o(4) [of u a t] that(2) unfolding releasable_def by blast
  show ?thesis
  proof (cases "u = t")
    case True
    with m(1,2,4) new show ?thesis by (simp add: safe_task_def)
  next
    case False
    have uniq: "frees ((pcs(t := p)) v) \<noteq> Some a" if "frees (pcs u) = Some a" "v \<noteq> u" for v a
      using o(4) [OF that] new [of a u] that(1) False by (cases "v = t") auto
    have rel: "releasable (reg sh') a" if "frees (pcs u) = Some a" for a
      using m(5) [OF o(3) [OF that]] o(4) [OF that, of t] False by blast
    have sect: "own (q_muts e) (allq_mux (reg sh')) = Some u" if "in_section (pcs u)"
      using m(3) [OF False] o(2) [OF that] by blast
    from False o(1) [of u] uniq rel sect show ?thesis by (simp add: safe_task_def)
  qed
qed

interpretation mqs: invariant_system sys_ok mq_running "\<lambda>p. tstep (mq_prog (fst p))" safe_state
proof unfold_locales
  fix p :: "('t, 'q, 'm, 'h) mq_sys" and s s' :: "('t, ('q, 'm, 'h) mq_shared, mq_pc, mq_reply) threads"
  obtain e live where p: "p = (e, live)" by (cases p)
  show "sys_ok p \<Longrightarrow> mq_running p s \<Longrightarrow> safe_state p s" by (auto simp: p safe_task_def)
  assume ok: "sys_ok p" and inv: "safe_state p s" and "tstep (mq_prog (fst p)) s s'"
  then have task: "safe_task e (reg (shared s)) (pc_of s) u" for u by (simp add: p)
  from \<open>tstep (mq_prog (fst p)) s s'\<close> show "safe_state p s'"
  proof (cases rule: tstep_cases)
    case (call t q)
    with safe_quiet [OF task, of q t] safe_entry [of q] inv show ?thesis by (auto simp: p)
  next
    case (move t sh q)
    then have code: "mq_code e t (shared s) (pc_of s t) = Some (sh, q)" by (simp add: p)
    have "good_move (e, live) t (shared s) (pc_of s t) sh q"
      by (rule good_step [OF _ _ _ _ _ _ code]) (use ok inv task [of t] in \<open>auto simp: p safe_task_def\<close>)
    from this safe_move [OF this task] move(2) show ?thesis
      by (simp add: p good_move_def) (rule allI, simp)
  next
    case (expire t sh q)
    then show ?thesis by simp
  next
    case (return t r)
    with safe_quiet [OF task, of MqOut t] inv show ?thesis by (auto simp: p)
  qed
qed

lemma reachable_safe:
  assumes "sys_ok (e, live)" and "reachable (mq_running (e, live)) (tstep (mq_prog e)) s"
  shows "reg_good live (reg (shared s))" and "safe_task e (reg (shared s)) (pc_of s) t"
proof -
  have "safe_state (e, live) s"
    by (rule mqs.inv_reachable [OF assms(1)]) (use assms(2) in \<open>simp only: fst_conv\<close>)
  then show "reg_good live (reg (shared s))" and "safe_task e (reg (shared s)) (pc_of s) t"
    unfolding safe_state.simps by blast+
qed

section \<open>What the locked steps do to the registry\<close>

text \<open>
  The specification of one critical section on the map from names to entries: the map
  afterwards and the reply the call is going to give. Transfers and \<open>mq_getattr\<close> leave the map
  alone. A created queue has any address and is not entered into the map.
\<close>

fun locked_spec ::
    "('t, 'q, 'm, 'h) mq_env \<Rightarrow> mq_call \<Rightarrow> (string \<Rightarrow> entry option) \<Rightarrow> (string \<Rightarrow> entry option) \<Rightarrow>
       mq_reply option \<Rightarrow> bool" where
  "locked_spec e (DoClose d) R R' reply \<longleftrightarrow>
     (case reg_spec (CloseQ d) (R, {}) of ((v, err), R'', L) \<Rightarrow>
        R' = R'' \<and> reply = Some (ClosedQ (projr v), err))"
| "locked_spec e (DoUnlink n) R R' reply \<longleftrightarrow>
     (case R n of
        None \<Rightarrow> R' = R \<and> reply = Some (UnlinkedQ MinusOne, Some ENOENT)
      | Some (a, b, c, u) \<Rightarrow>
          R' = R(n := if c = 0 then None else Some (a, b, c, True)) \<and> reply = Some (UnlinkedQ OK, None))"
| "locked_spec e (DoOpen n oflag mode attr) R R' reply \<longleftrightarrow>
     (case R n of
        None \<Rightarrow> R' = R \<and>
          (reply = Some (OpenedQ MqdError, Some ENOENT) \<or>
           oflag AND O_CREAT e \<noteq> 0 \<and> (\<exists>a. reply = Some (OpenedQ (Mqd a), None)))
      | Some (a, b, c, u) \<Rightarrow>
          if oflag AND O_EXCL e \<noteq> 0 \<and> oflag AND O_CREAT e \<noteq> 0
          then R' = R \<and> reply = Some (OpenedQ MqdError, Some EEXIST)
          else R' = R(n \<mapsto> (a, b, c + 1, u)) \<and> reply = Some (OpenedQ (Mqd a), None))"
| "locked_spec e c R R' reply \<longleftrightarrow> R' = R"

text \<open>The reply a call is going to give, once that is settled.\<close>

fun reply_of :: "mq_pc \<Rightarrow> mq_reply option" where
  "reply_of (MqUnlock (Finished r)) = Some r"
| "reply_of (MqUnlock (FreeQ c a r)) = Some r"
| "reply_of (MqRest (Finished r)) = Some r"
| "reply_of (MqRest (FreeQ c a r)) = Some r"
| "reply_of pc = None"

lemma registry_of_cong: "allq w' = allq w \<Longrightarrow> q_obj w' = q_obj w \<Longrightarrow> registry_of w' = registry_of w"
  by (simp add: registry_of_def entry_at_def [abs_def] mq_at_def fun_eq_iff)

lemma registry_of_other:
  assumes "a \<notin> set (allq w)" and "allq w' = allq w" and "\<And>b. b \<noteq> a \<Longrightarrow> q_obj w' b = q_obj w b"
  shows "registry_of w' = registry_of w"
proof
  fix n
  have at: "mq_at w' b = mq_at w b" "entry_at w' b = entry_at w b" if "b \<in> set (allq w)" for b
  proof -
    have "q_obj w' b = q_obj w b" using assms(1,3) that by metis
    then show "mq_at w' b = mq_at w b" "entry_at w' b = entry_at w b" by (simp_all add: mq_at_def entry_at_def)
  qed
  then have "List.find (\<lambda>b. d_name (mq_at w' b) = n) (allq w) = List.find (\<lambda>b. d_name (mq_at w b) = n) (allq w)"
    by (intro find_cong) simp_all
  moreover have "map_option (entry_at w') (List.find (\<lambda>b. d_name (mq_at w b) = n) (allq w)) =
      map_option (entry_at w) (List.find (\<lambda>b. d_name (mq_at w b) = n) (allq w))"
    using at(2) by (intro option.map_cong refl) (auto simp: find_Some_iff dest: nth_mem)
  ultimately show "registry_of w' n = registry_of w n" by (simp add: registry_of_def assms(2))
qed

text \<open>The lemmas of the sequential registry, at the moment the lock is free.\<close>

lemma good_wf:
  fixes e :: "('t, 'q, 'm, 'h) mq_env" and w :: "('q, 'm, 'h) mq_world"
  assumes "sys_ok (e, live)" and "reg_good live w"
  shows "reg_wf (e, t, live) (w\<lparr>allq_mux := mut_init (q_muts e)\<rparr>)"
  using assms mutex_lawsD(1) [of "q_muts e"] by (simp add: reg_good_def mq_at_def)

lemma free_at [simp]:
  "mq_at (w\<lparr>allq_mux := m\<rparr>) a = mq_at w a" "entry_at (w\<lparr>allq_mux := m\<rparr>) a = entry_at w a"
  "registry_of (w\<lparr>allq_mux := m\<rparr>) = registry_of w"
  by (simp_all add: mq_at_def entry_at_def registry_of_cong [of "w\<lparr>allq_mux := m\<rparr>" w])

lemma good_registry_put:
  fixes e :: "('t, 'q, 'm, 'h) mq_env" and w :: "('q, 'm, 'h) mq_world"
  assumes "sys_ok (e, live)" and "reg_good live w" and "a \<in> set (allq w)"
    and "d_name mq = d_name (mq_at w a)" and "d_buf mq = d_buf (mq_at w a)"
  shows "registry_of (put_mq a mq w) = (registry_of w)
      (d_name (mq_at w a) \<mapsto> (a, the (d_buf mq), d_open_count mq, d_pending_unlink mq \<noteq> 0))"
  using registry_put(2) [OF good_wf [OF assms(1,2)], of a mq "put_mq a mq (w\<lparr>allq_mux := mut_init (q_muts e)\<rparr>)"]
    assms mutex_lawsD(1) [of "q_muts e"]
    registry_of_cong [of "put_mq a mq (w\<lparr>allq_mux := mut_init (q_muts e)\<rparr>)" "put_mq a mq w"]
  by (simp add: reg_good_def)

lemma good_registry_remove:
  fixes e :: "('t, 'q, 'm, 'h) mq_env" and w w' :: "('q, 'm, 'h) mq_world"
  assumes "sys_ok (e, live)" and "reg_good live w" and "a \<in> set (allq w)"
    and "allq w' = remove1 a (allq w)" and "\<And>b. b \<noteq> a \<Longrightarrow> q_obj w' b = q_obj w b" and "mq_inited w' \<noteq> 0"
  shows "registry_of w' = (registry_of w)(d_name (mq_at w a) := None)"
  using registry_remove(2) [OF good_wf [OF assms(1,2)], of a "w'\<lparr>allq_mux := mut_init (q_muts e)\<rparr>"]
    assms mutex_lawsD(1) [of "q_muts e"]
  by simp

lemma good_entry:
  assumes "reg_good live w" and "a \<in> set (allq w)"
  shows "registry_of w (d_name (mq_at w a)) = Some (entry_at w a)"
proof -
  have "distinct (map (\<lambda>a. d_name (mq_at w a)) (allq w))" using assms(1) by (simp only: reg_good_def)
  then have "List.find (\<lambda>b. d_name (mq_at w b) = d_name (mq_at w a)) (allq w) = Some a"
    using assms(2) by (simp add: find_distinct)
  then show ?thesis by (simp add: registry_of_def)
qed

lemma good_registry_None:
  assumes "reg_good live w"
  shows "List.find (\<lambda>a. d_name (mq_at w a) = n) (allq w) = None \<longleftrightarrow> registry_of w n = None"
  by (simp add: registry_of_def)

lemma find_name: "List.find (\<lambda>a. d_name (mq_at w a) = n) (allq w) = Some a \<Longrightarrow>
    a \<in> set (allq w) \<and> d_name (mq_at w a) = n"
  by (auto simp: find_Some_iff)

text \<open>Each call's critical section against the specification.\<close>

lemma commits_close:
  fixes e :: "('t, 'q, 'm, 'h) mq_env" and w w' :: "('q, 'm, 'h) mq_world"
  assumes ok: "sys_ok (e, live)" and good: "reg_good live w"
    and run: "mq_critical e (DoClose d) w = Returns (w', p)"
  shows "locked_spec e (DoClose d) (registry_of w) (registry_of w') (reply_of p)"
proof (cases "\<exists>a\<in>set (allq w). d = Mqd a")
  case False
  then have "mq_extract_locked (q_obj w) (allq w) d = Returns None"
    using good by (auto simp: good_searches split: mqd.splits)
  then have "w' = w" "reply_of p = Some (ClosedQ MinusOne, Some EBADF)"
    using run by (auto simp: mq_close_locked_def)
  moreover have "\<not> registered d (registry_of w)"
    using registered_iff [OF good_wf [OF ok good], of d] False by simp
  ultimately show ?thesis by simp
next
  case True
  then obtain a where a: "a \<in> set (allq w)" "d = Mqd a" by blast
  then obtain mq where mq: "q_obj w a = Some mq" "mq_at w a = mq" using good_linked [OF good] by metis
  let ?mq = "drop_descriptor mq" and ?n = "d_name mq"
  have keep: "d_name ?mq = ?n" "d_buf ?mq = d_buf mq" by (simp_all add: drop_descriptor_def)
  have found: "mq_extract_locked (q_obj w) (allq w) d = Returns (Some a)"
    using a good by (simp add: good_searches)
  have spec: "reg_spec (CloseQ d) (registry_of w, {}) = ((Inr OK, None),
      (registry_of w)(?n := closed_entry (entry_at w a)),
      {} - (if closed_entry (entry_at w a) = None then entry_blocks (entry_at w a) else {}))"
    unfolding a(2)
  proof (rule spec_close)
    show "registry_of w ?n = Some (entry_at w a)" using good_entry [OF good a(1)] mq(2) by simp
    show "fst (entry_at w a) = a" by (simp add: entry_at_def Let_def)
    show "m = ?n" if "registry_of w m = Some y" "fst y = a" for m y
      using entry_unique [OF good_wf [OF ok good], of a m y] a(1) that mq(2) by simp
  qed
  show ?thesis
  proof (cases "d_open_count ?mq = 0 \<and> d_pending_unlink ?mq \<noteq> 0")
    case True
    then have w': "w' = (put_mq a ?mq w)\<lparr>allq := remove1 a (allq w)\<rparr>" "reply_of p = Some (ClosedQ OK, None)"
      using run found mq(1) by (auto simp: mq_close_locked_def Let_def)
    have "registry_of w' = (registry_of w)(?n := None)"
      using good_registry_remove [OF ok good a(1), of w'] w' good mq(2) by (simp add: reg_good_def)
    moreover have "closed_entry (entry_at w a) = None"
      using True by (simp add: entry_at_def mq(2) Let_def drop_descriptor_def split: if_splits)
    ultimately show ?thesis using spec w'(2) by (simp del: reg_spec.simps)
  next
    case False
    let ?mq2 = "if d_open_count ?mq = 0 then ?mq\<lparr>d_pending_unlink := 1\<rparr> else ?mq"
    have w': "w' = put_mq a ?mq2 w" "reply_of p = Some (ClosedQ OK, None)"
      using run found mq(1) False by (auto simp: mq_close_locked_def Let_def split: if_splits)
    have "registry_of w' = (registry_of w)(?n \<mapsto> (a, the (d_buf mq), d_open_count ?mq2, d_pending_unlink ?mq2 \<noteq> 0))"
      using good_registry_put [OF ok good a(1), of ?mq2] w' keep mq(2) by simp
    moreover have "closed_entry (entry_at w a) =
        Some (a, the (d_buf mq), d_open_count ?mq2, d_pending_unlink ?mq2 \<noteq> 0)"
      using False by (auto simp: entry_at_def mq(2) Let_def drop_descriptor_def)
    ultimately show ?thesis using spec w'(2) by (simp del: reg_spec.simps)
  qed
qed

lemma commits_unlink:
  fixes e :: "('t, 'q, 'm, 'h) mq_env" and w w' :: "('q, 'm, 'h) mq_world"
  assumes ok: "sys_ok (e, live)" and good: "reg_good live w"
    and run: "mq_critical e (DoUnlink n) w = Returns (w', p)"
  shows "locked_spec e (DoUnlink n) (registry_of w) (registry_of w') (reply_of p)"
proof (cases "List.find (\<lambda>a. d_name (mq_at w a) = n) (allq w)")
  case None
  with run good good_registry_None [OF good, of n] show ?thesis
    by (auto simp: mq_unlink_locked_def good_searches)
next
  case (Some a)
  have a: "a \<in> set (allq w)" "d_name (mq_at w a) = n" using find_name [OF Some] by blast+
  obtain mq where mq: "q_obj w a = Some mq" "mq_at w a = mq" using good_linked [OF good a(1)] by metis
  have entry: "registry_of w n = Some (a, the (d_buf mq), d_open_count mq, d_pending_unlink mq \<noteq> 0)"
    using good_entry [OF good a(1)] a(2) mq(2) by (simp add: entry_at_def)
  show ?thesis
  proof (cases "d_open_count mq = 0")
    case True
    then have w': "w' = w\<lparr>allq := remove1 a (allq w)\<rparr>" "reply_of p = Some (UnlinkedQ OK, None)"
      using run Some mq(1) good by (auto simp: mq_unlink_locked_def good_searches Let_def)
    have "registry_of w' = (registry_of w)(n := None)"
      using good_registry_remove [OF ok good a(1), of w'] w' good a(2) by (simp add: reg_good_def)
    with entry True w' show ?thesis by simp
  next
    case False
    then have w': "w' = put_mq a (mq\<lparr>d_pending_unlink := 1\<rparr>) w" "reply_of p = Some (UnlinkedQ OK, None)"
      using run Some mq(1) good by (auto simp: mq_unlink_locked_def good_searches Let_def)
    with good_registry_put [OF ok good a(1), of "mq\<lparr>d_pending_unlink := 1\<rparr>"] mq(2) a(2) entry False
    show ?thesis by simp
  qed
qed

lemma create_registry:
  assumes "sys_ok (e, live)" and "reg_good live w" and "mq_create e n f attr None w = Returns (d, out, err, w')"
  shows "registry_of w' = registry_of w"
    and "d = MqdError \<and> err = Some ENOENT \<or> (\<exists>a. d = Mqd a \<and> err = None)"
proof -
  obtain al fr where m: "mem_laws live al fr" "hcos_posix_alloc (q_mem e) = Some al"
    using assms(1) by auto
  have fresh: "a \<notin> set (allq w)" if "al POSIX_MQUEUE sz (q_heap w) = (Some a, h)" for a sz h
    using mem_lawsD(1) [OF m(1) that] assms(2) unfolding reg_good_def by blast
  obtain o1 h where o1: "al POSIX_MQUEUE (sizeof_mqd e) (q_heap w) = (o1, h)" by fastforce
  have allq: "allq w' = allq w" by (rule mq_create_allq [OF assms(3)])
  show "registry_of w' = registry_of w"
  proof (cases o1)
    case None
    with assms(3) m(2) o1 have "q_obj w' = q_obj w" by (auto simp: mq_create_def)
    with allq show ?thesis by (rule registry_of_cong)
  next
    case (Some a)
    have "q_obj w' b = q_obj w b" if "b \<noteq> a" for b
      using assms(3) m(2) o1 Some that
      by (auto simp: mq_create_def Let_def split: prod.splits option.splits if_splits)
    with registry_of_other [of a w w'] allq fresh o1 Some show ?thesis by blast
  qed
  show "d = MqdError \<and> err = Some ENOENT \<or> (\<exists>a. d = Mqd a \<and> err = None)"
    using assms(3) by (auto simp: mq_create_def Let_def split: prod.splits option.splits if_splits)
qed

lemma commits_open:
  fixes e :: "('t, 'q, 'm, 'h) mq_env" and w w' :: "('q, 'm, 'h) mq_world"
  assumes ok: "sys_ok (e, live)" and good: "reg_good live w"
    and run: "mq_critical e (DoOpen n f m attr) w = Returns (w', p)"
  shows "locked_spec e (DoOpen n f m attr) (registry_of w) (registry_of w') (reply_of p)"
proof (cases "List.find (\<lambda>a. d_name (mq_at w a) = n) (allq w)")
  case None
  show ?thesis
  proof (cases "f AND O_CREAT e = 0")
    case True
    with run None good good_registry_None [OF good, of n] show ?thesis
      by (auto simp: mq_open_locked_def good_searches)
  next
    case False
    with run None good obtain d out err where c: "mq_create e n f attr None w = Returns (d, out, err, w')"
      and p: "p = (if out then MqRest else MqUnlock) (Finished (OpenedQ d, err))"
      by (auto simp: mq_open_locked_def good_searches run_bind_Returns)
    have "reply_of p = Some (OpenedQ d, err)" by (simp add: p)
    with create_registry [OF ok good c] None False good_registry_None [OF good, of n] show ?thesis by auto
  qed
next
  case (Some a)
  have a: "a \<in> set (allq w)" "d_name (mq_at w a) = n" using find_name [OF Some] by blast+
  obtain mq where mq: "q_obj w a = Some mq" "mq_at w a = mq" using good_linked [OF good a(1)] by metis
  have entry: "registry_of w n = Some (a, the (d_buf mq), d_open_count mq, d_pending_unlink mq \<noteq> 0)"
    using good_entry [OF good a(1)] a(2) mq(2) by (simp add: entry_at_def)
  show ?thesis
  proof (cases "f AND O_EXCL e \<noteq> 0 \<and> f AND O_CREAT e \<noteq> 0")
    case True
    with run Some good entry show ?thesis by (auto simp: mq_open_locked_def good_searches)
  next
    case False
    then have w': "w' = put_mq a (mq\<lparr>d_open_count := d_open_count mq + 1\<rparr>) w" "reply_of p = Some (OpenedQ (Mqd a), None)"
      using run Some mq(1) good by (auto simp: mq_open_locked_def good_searches Let_def)
    with good_registry_put [OF ok good a(1), of "mq\<lparr>d_open_count := d_open_count mq + 1\<rparr>"] mq(2) a(2) entry False
    show ?thesis by simp
  qed
qed

lemma commits:
  assumes "sys_ok (e, live)" and "reg_good live w" and "mq_critical e c w = Returns (w', p)"
  shows "locked_spec e c (registry_of w) (registry_of w') (reply_of p)"
proof (cases c)
  case (DoClose d)
  show ?thesis using assms unfolding DoClose by (rule commits_close)
next
  case (DoUnlink n)
  show ?thesis using assms unfolding DoUnlink by (rule commits_unlink)
next
  case (DoOpen n f m attr)
  show ?thesis using assms unfolding DoOpen by (rule commits_open)
qed (use assms(3) in \<open>auto simp: run_bind_Returns\<close>)

text \<open>Steps outside the critical sections leave the map alone, and replies are kept.\<close>

lemma transfer_registry:
  fixes e :: "('t, 'q, 'm, 'h) mq_env" and w :: "('q, 'm, 'h) mq_world"
  assumes "sys_ok (e, live)" and "reg_good live w" and "q_obj w a = Some mq"
  shows "registry_of (put_mq a (mq\<lparr>d_q := q\<rparr>) w) = registry_of w"
proof (cases "a \<in> set (allq w)")
  case True
  have mq: "mq_at w a = mq" using assms(3) by (simp add: mq_at_def)
  have "registry_of w (d_name mq) = Some (a, the (d_buf mq), d_open_count mq, d_pending_unlink mq \<noteq> 0)"
    using good_entry [OF assms(2) True] mq by (simp add: entry_at_def)
  with good_registry_put [OF assms(1,2) True, of "mq\<lparr>d_q := q\<rparr>"] mq show ?thesis
    by (simp add: fun_upd_idem)
next
  case False
  then show ?thesis by (rule registry_of_other) simp_all
qed

lemma quiet_registry:
  fixes e :: "('t, 'q, 'm, 'h) mq_env"
  assumes ok: "sys_ok (e, live)" and good: "reg_good live (reg sh)" and "sound pc"
    and fr: "\<And>a. frees pc = Some a \<Longrightarrow> releasable (reg sh) a"
    and step: "mq_code e t sh pc = Some (sh', pc')" and "\<And>c. pc \<noteq> MqLocked c"
  shows "registry_of (reg sh') = registry_of (reg sh)"
    and "reply_of pc = Some r \<Longrightarrow> reply_of pc' = Some r"
proof -
  have "registry_of (reg sh') = registry_of (reg sh) \<and> (reply_of pc = Some r \<longrightarrow> reply_of pc' = Some r)"
  proof (cases pc)
    case (MqLock c)
    with step show ?thesis
      using registry_of_cong [of "reg sh'" "reg sh"] by (auto simp: lock_allq_def split: if_splits option.splits)
  next
    case (MqUnlock q)
    with step show ?thesis
      using registry_of_cong [of "reg sh'" "reg sh"] by (cases q) auto
  next
    case (MqRest q)
    show ?thesis
    proof (cases q)
      case (Finished v)
      with MqRest step show ?thesis by simp
    next
      case (FreeQ c a v)
      with MqRest fr have rel: "releasable (reg sh) a" by simp
      from good_free [OF ok good this] obtain w where w: "mq_free e a (reg sh) = Returns w"
        "allq w = allq (reg sh)" "q_obj w = (q_obj (reg sh))(a := None)" by metis
      have "registry_of w = registry_of (reg sh)"
        using rel w by (intro registry_of_other [of a]) (simp_all add: releasable_def)
      with FreeQ MqRest step w show ?thesis by auto
    next
      case (Transfer c a n)
      with MqRest step transfer_registry [OF ok good, of a] show ?thesis
        by (auto split: option.splits prod.splits)
    qed
  qed (use assms in \<open>auto split: option.splits if_splits\<close>)
  then show "registry_of (reg sh') = registry_of (reg sh)"
    and "reply_of pc = Some r \<Longrightarrow> reply_of pc' = Some r" by blast+
qed

section \<open>Properties\<close>

text \<open>
  C6: the lock of the registry works once it is initialised. From a good registry, in every
  state that interleaved calls of any tasks lead to, at most one task is in the section that
  \<open>allq_mux\<close> protects, the registry is good (its queues exist, under different names), a queue
  that a task is about to free exists, is not linked and is freed by no other task, and a task
  faults only in \<open>mq_send\<close> or \<open>mq_receive\<close>, in \<open>mq_getattr\<close> without a result, or in
  \<open>mq_open\<close> with a name that does not fit: closing and unlinking never fault.
\<close>

theorem mq_interleaved_safe:
  assumes "sys_ok (e, live)" and "reachable (mq_running (e, live)) (tstep (mq_prog e)) s"
  shows "(\<forall>t u. in_section (pc_of s t) \<and> in_section (pc_of s u) \<longrightarrow> t = u) \<and>
    reg_good live (reg (shared s)) \<and>
    (\<forall>t a. frees (pc_of s t) = Some a \<longrightarrow> q_obj (reg (shared s)) a \<noteq> None \<and>
      a \<notin> set (allq (reg (shared s))) \<and> (\<forall>u. u \<noteq> t \<longrightarrow> frees (pc_of s u) \<noteq> Some a)) \<and>
    (\<forall>t c. pc_of s t = MqFault c \<longrightarrow> may_fault c)"
proof -
  note good = reachable_safe(1) [OF assms(1,2)] and task = reachable_safe(2) [OF assms(1,2)]
  have "t = u" if "in_section (pc_of s t)" "in_section (pc_of s u)" for t u
    using task [of t] task [of u] that by (simp add: safe_task_def)
  moreover have "q_obj (reg (shared s)) a \<noteq> None \<and> a \<notin> set (allq (reg (shared s))) \<and>
      (\<forall>u. u \<noteq> t \<longrightarrow> frees (pc_of s u) \<noteq> Some a)" if "frees (pc_of s t) = Some a" for t a
    using task [of t] that by (simp add: safe_task_def releasable_def)
  moreover have "may_fault c" if "pc_of s t = MqFault c" for t c
    using task [of t] that by (simp add: safe_task_def)
  ultimately show ?thesis using good by blast
qed

text \<open>The reference registry with tasks that are not in a call.\<close>

definition ref_running :: "u16 \<Rightarrow> (nat, (ref_queue, nat option, ref_heap) mq_shared, mq_pc, mq_reply) threads" where
  "ref_running c = \<lparr>shared = \<lparr>reg = ref_registered c, mux_ready = True\<rparr>, pc_of = (\<lambda>_. MqOut), returned = []\<rparr>"

abbreviation ref_sys :: "(nat, ref_queue, nat option, ref_heap) mq_sys" where
  "ref_sys \<equiv> (ref_mq_env, \<lambda>h. set (blocks h))"

lemma ref_sys_ok: "sys_ok ref_sys"
  using ref_mem_laws by (auto simp del: ref_mem_laws)

lemma ref_running: "mq_running ref_sys (ref_running c)"
  by (simp add: ref_running_def ref_registered_def reg_good_def mq_at_def)

lemma ref_run_reachable:
  "reachable (mq_running ref_sys) (tstep (mq_prog ref_mq_env)) (run_schedule (mq_prog ref_mq_env) as (ref_running c))"
  by (rule reachable_schedule, rule reach_init, rule ref_running)

lemmas ref_run_simps = ref_running_def ref_registered_def mq_enter_def mq_run_simps c_arith

theorem mq_interleaved_safe_witness:
  "let s = run_schedule (mq_prog ref_mq_env)
       [Call 2 (mq_enter (DoUnlink ''/q'')), Move 2, Move 2, Move 2, Move 2,
        Call 3 (mq_enter (DoClose (Mqd 100))), Move 3, Move 3] (ref_running 0)
   in pc_of s 2 = MqRest (FreeQ (DoUnlink ''/q'') 100 (UnlinkedQ OK, None)) \<and>
     pc_of s 3 = MqLocked (DoClose (Mqd 100)) \<and> q_obj (reg (shared s)) 100 \<noteq> None \<and>
     100 \<notin> set (allq (reg (shared s)))"
proof -
  let ?as = "[Call 2 (mq_enter (DoUnlink ''/q'')), Move 2, Move 2, Move 2, Move 2,
        Call 3 (mq_enter (DoClose (Mqd 100))), Move 3, Move 3]"
  let ?s = "run_schedule (mq_prog ref_mq_env) ?as (ref_running 0)"
  have pcs: "pc_of ?s 2 = MqRest (FreeQ (DoUnlink ''/q'') 100 (UnlinkedQ OK, None))"
    "pc_of ?s 3 = MqLocked (DoClose (Mqd 100))"
    by (simp_all add: ref_run_simps)
  have "\<forall>t a. frees (pc_of ?s t) = Some a \<longrightarrow> q_obj (reg (shared ?s)) a \<noteq> None \<and>
      a \<notin> set (allq (reg (shared ?s))) \<and> (\<forall>u. u \<noteq> t \<longrightarrow> frees (pc_of ?s u) \<noteq> Some a)"
    using mq_interleaved_safe [OF ref_sys_ok ref_run_reachable] by blast
  with pcs show ?thesis unfolding Let_def by (metis frees.simps(2))
qed

text \<open>
  C5: calls on the registry are atomic. Every step leaves the map from names to queues
  alone, except the one that a call takes with the lock held, which changes the map and
  settles the reply as the specification says; once settled, the reply is the one that the
  call returns.
\<close>

theorem mq_registry_linearizable:
  assumes "sys_ok (e, live)" and "reachable (mq_running (e, live)) (tstep (mq_prog e)) s"
    and "act (mq_prog e) a s = Some s'"
  shows "(case a of
      Move t \<Rightarrow>
        (case pc_of s t of
           MqLocked c \<Rightarrow>
             if pc_of s' t = MqFault c then registry_of (reg (shared s')) = registry_of (reg (shared s))
             else locked_spec e c (registry_of (reg (shared s))) (registry_of (reg (shared s')))
               (reply_of (pc_of s' t))
         | _ \<Rightarrow> registry_of (reg (shared s')) = registry_of (reg (shared s)))
    | _ \<Rightarrow> registry_of (reg (shared s')) = registry_of (reg (shared s))) \<and>
    (\<forall>t r. reply_of (pc_of s t) = Some r \<longrightarrow>
       reply_of (pc_of s' t) = Some r \<or> a = Return t \<and> returned s' = r # returned s)"
proof -
  note good = reachable_safe(1) [OF assms(1,2)] and task = reachable_safe(2) [OF assms(1,2)]
  show ?thesis
  proof (cases a)
    case (Call t p)
    with assms(3) show ?thesis by (auto split: if_splits)
  next
    case (Move t)
    then obtain sh p where code: "mq_code e t (shared s) (pc_of s t) = Some (sh, p)"
      and s': "s' = s\<lparr>shared := sh, pc_of := (pc_of s)(t := p)\<rparr>"
      using assms(3) by (auto split: option.splits)
    have t: "sound (pc_of s t)" "\<And>b. frees (pc_of s t) = Some b \<Longrightarrow> releasable (reg (shared s)) b"
      using task [of t] by (simp_all add: safe_task_def)
    show ?thesis
    proof (cases "\<exists>c. pc_of s t = MqLocked c")
      case False
      with quiet_registry [OF assms(1) good t code] s' Move show ?thesis
        by (auto split: mq_pc.splits)
    next
      case True
      then obtain c where c: "pc_of s t = MqLocked c" by blast
      show ?thesis
      proof (cases "mq_critical e c (reg (shared s))")
        case (Returns x)
        with code c obtain w where "mq_critical e c (reg (shared s)) = Returns (w, p)" "reg sh = w"
          by (cases x) auto
        with commits [OF assms(1) good, of c w p] critical_good [OF assms(1) good, of c] c s' Move Returns
        show ?thesis by auto
      qed (use code c s' Move in auto)
    qed
  next
    case (Expire t)
    with assms(3) show ?thesis by simp
  next
    case (Return t)
    with assms(3) obtain r where r: "pc_of s t = MqRest (Finished r)"
      and s': "s' = s\<lparr>pc_of := (pc_of s)(t := MqOut), returned := r # returned s\<rparr>"
      by (auto split: option.splits elim!: mq_result.elims)
    have "reply_of (pc_of s' u) = Some v \<or> a = Return u \<and> returned s' = v # returned s"
      if "reply_of (pc_of s u) = Some v" for u v
      using that r s' Return by (cases "u = t") simp_all
    then show ?thesis using Return s' by simp
  qed
qed

theorem mq_registry_linearizable_witness:
  "let s = run_schedule (mq_prog ref_mq_env)
       [Call 2 (mq_enter (DoClose (Mqd 100))), Move 2, Move 2] (ref_running 4);
     s' = run_schedule (mq_prog ref_mq_env)
       [Call 2 (mq_enter (DoClose (Mqd 100))), Move 2, Move 2, Move 2] (ref_running 4)
   in locked_spec ref_mq_env (DoClose (Mqd 100)) (registry_of (reg (shared s)))
       (registry_of (reg (shared s'))) (Some (ClosedQ OK, None))"
proof -
  let ?as = "[Call 2 (mq_enter (DoClose (Mqd 100))), Move 2, Move 2]"
  let ?s = "run_schedule (mq_prog ref_mq_env) ?as (ref_running 4)"
  let ?s' = "run_schedule (mq_prog ref_mq_env) (?as @ [Move 2]) (ref_running 4)"
  have "act (mq_prog ref_mq_env) (Move 2) ?s = Some ?s'"
    by (simp add: ref_run_simps mq_close_locked_def drop_descriptor_def)
  note spec = mq_registry_linearizable [OF ref_sys_ok ref_run_reachable this]
  have "pc_of ?s 2 = MqLocked (DoClose (Mqd 100))" "pc_of ?s' 2 = MqUnlock (Finished (ClosedQ OK, None))"
    by (simp_all add: ref_run_simps mq_close_locked_def drop_descriptor_def)
  with spec show ?thesis
    by (simp del: run_schedule.simps locked_spec.simps append.simps add: Let_def) simp
qed

end
