(* ===== verification/Spec2Isabelle.thy ===== *)
theory Spec2Isabelle
  imports Barrier Cond Timer_Spec Thread_End Thread_Memory Mutex_Spec Mq_Safety
begin

text \<open>
  A verification of libposix, the POSIX layer of the hyperC operating system: clocks and
  sleeping, semaphores, mutexes, barriers, condition variables, threads, timers and message
  queues, in C over the kernel's tasks, semaphores, mutexes, timers and queues.

  \<^bold>\<open>The program and the theories.\<close>
  Every blocking call with a deadline reads the clock (\<open>posix_clock.c\<close>), converts the deadline
  to ticks (\<open>utils.c\<close>) and hands the ticks to the kernel. Timers and threads get their memory
  through the two function pointers of \<open>hcos_posix.h\<close>; a condition variable releases and takes
  back a mutex of \<open>posix_pthread_mutex.c\<close>; a timer may create a thread to notify.

  \<^item> \<open>Prelude\<close>: the C integers, error codes, runs that return, fault or block, counting threads at
    a program point; the locales \<open>invariant_system\<close> (reachable states of a step relation) and
    \<open>simulation\<close> (calls that refine a specification).
  \<^item> \<open>Kernel\<close>: the kernel's semaphores and mutexes and the configuration, as parameters with
    their laws, and reference instances of them.
  \<^item> \<open>Timespec\<close>: \<open>utils.c\<close> and the time constants of \<open>time.h\<close>; the locale
    \<open>deadline_conversion\<close>, the contract of \<open>abs_timespec2ticks\<close> on which all timed waits rest.
  \<^item> \<open>Clock\<close>: \<open>posix_clock.c\<close>, \<open>posix_unistd.c\<close>, \<open>posix_sched.c\<close>.
  \<^item> \<open>Semaphore\<close>: \<open>posix_semaphore.c\<close>. \<open>Mutex\<close>: \<open>posix_pthread_mutex.c\<close>, and \<open>Mutex_Spec\<close> the
    calls on one mutex against a record of who holds it.
  \<^item> \<open>Threads\<close>: any number of threads whose calls are interleaved at every access to shared
    state; mutual exclusion from the kernel's mutex; the locale \<open>terminating_program\<close>.
  \<^item> \<open>Barrier\<close>: \<open>posix_pthread_barrier.c\<close>. \<open>Cond\<close>: \<open>posix_pthread_cond.c\<close>. Both are
    programs in the sense of \<open>Threads\<close>.
  \<^item> \<open>Attr\<close>: the attribute functions of \<open>posix_pthread.c\<close>, on the 16-bit status word; the locales
    \<open>attribute\<close> and \<open>independent_attributes\<close>.
  \<^item> \<open>Memory\<close>: \<open>hcos_posix.h\<close>, \<open>hcos_posix.c\<close>.
  \<^item> \<open>Thread\<close>: creation, exit and join of \<open>posix_pthread.c\<close>; exit and join are a program.
    \<open>Thread_End\<close>: runs of that program in which the memory of a thread ends up wrong.
    \<open>Thread_Life\<close>: creation, exit and join as one program, in which the application joins a
    thread at most once and only when it is over; \<open>Thread_Memory\<close>: what then holds of it.
  \<^item> \<open>Timer\<close>: \<open>posix_timer.c\<close>; \<open>Timer_Spec\<close> a timer against the specification of an alarm.
  \<^item> \<open>Mqueue\<close>: \<open>posix_mqueue.c\<close>, with what holds of all calls; \<open>Mq_Registry\<close>: its registry
    against a map from names to queues. \<open>Mq_Threads\<close>: the same calls as a program in the sense
    of \<open>Threads\<close>, made of the same critical sections; \<open>Mq_Safety\<close>: its invariants.

  Each component theory has its state (a record for each struct of \<open>hcos_types.h\<close>), its
  operations under the names of the C functions, facts about them, and its properties.

  \<^bold>\<open>Conventions.\<close>
  \<open>unsigned\<close> and \<open>size_t\<close> are 32-bit words, \<open>unsigned short\<close> 16-bit words; signed integers are
  HOL integers with the wrap-around of their type written out (\<open>s32\<close>, \<open>s64\<close>, and \<open>swrap\<close> for
  \<open>time_t\<close>, whose width is a parameter from 32 to 64). A pointer that may be null is an
  option; an out-parameter is passed with its old and returned with its new contents;
  \<open>errno\<close> is an argument and a result. Undefined behaviour (a null pointer used, a write
  past a buffer, an object used after its release or before its initialisation) is the
  result \<open>Faults\<close>, or the program point of that name. A reading of the tick counter is an
  argument. Calls of the kernel that only have an effect, such as \<open>task_sleep\<close>, are
  collected in a list.

  \<^bold>\<open>The kernel and other code outside the sources.\<close>
  The kernel objects are record parameters, and what the code relies on is a predicate on
  them: \<open>counting_sem\<close>, \<open>polling_sem\<close>, \<open>mutex_laws\<close>, \<open>polling_mut\<close>, \<open>timer_laws\<close>,
  \<open>taker_owns\<close>, and \<open>mem_laws\<close> for the application's allocator. The theorems name those
  they need, and reference instances (\<open>ref_sem\<close>, \<open>ref_mut\<close>, \<open>ref_mem\<close>, \<open>ref_tmr\<close>,
  \<open>ref_mq_ops\<close>) show that they can hold. That the kernel stops a timer that has run
  out is an assumption of \<open>Timer_Spec\<close> (\<open>timer_sys_ok\<close>); how late it calls \<open>timer_do\<close> is left
  open. The value of a kernel semaphore is a natural number: a limit of its counter is not
  modelled. A blocking kernel call is, in the interleaved components,
  a step that is possible once the object is free, and otherwise a whole call whose result is the
  kernel's.

  \<^bold>\<open>What the theorems show.\<close>
  Time: differences and clock readings are exact; a duration is converted to the specified
  ticks \<open>span_ticks\<close>, which cover it and exceed it by less than a tick, as long as nothing leaves
  64 bits, and where the code wraps is shown by example. Every timed wait (semaphore, mutex,
  message queue, timer) is determined exactly from the deadline, the time and these ticks,
  including what happens where they do not fit \<open>unsigned\<close>, which each does differently; where the
  tick rate divides $10^9$ all of them end at the same tick (\<open>deadlines_are_ticks\<close>).
  Semaphores and mutexes: one kernel call per wait with the right timeout and error; calls on
  an error-checking mutex refine a record of the owner whose \<open>EBUSY\<close> the code reports as 0.
  Barriers: nobody passes before all are counted, exactly one gets the serial value, a full
  barrier opens, and it serves once. Condition variables: the count of waiters is exact up to
  $2^{32}$ with any timeouts; where no wait has a deadline (and for fewer than $2^{31} - 2$ tasks) it
  is exact, no wake-up is lost, and a broadcast releases every thread; a timeout that races with
  a signal breaks the count, and a woken wait may return without the mutex. Threads: creation is
  all or nothing; the join mutex excludes other joins while it is held; a join does not
  wait for the thread, two joins can release it twice, and \<open>pthread_exit\<close> returns to its
  caller. Where threads end by returning and are joined at most once and after their end, the
  memory in use is exactly that of the threads there are, nothing faults but a failed
  allocation, no join blocks, and a join gives the value returned. Timers: what is set is read
  back, and any sequence of settings whose ticks fit 32 bits, readings and expiries of a timer
  refines an alarm that notifies once per expiry and that drifts by the latencies of its expiries.
  Message queues: the registry refines a map from names to queues, call by call and with calls
  interleaved, where at most one task is in a critical section once the lock is initialised; the
  first calls of two tasks can both initialise the lock; an open that fails for lack of memory
  leaves it held. No queue is ever registered, which \<open>mq_registry_empty\<close> shows for calls one
  after the other and \<open>mq_interleaved_empty\<close> for interleaved ones: an application only meets the
  empty registry, on which every call but \<open>mq_open\<close> is refused. So what the kernel's queues do
  with messages is not the subject of any theorem.

  \<^bold>\<open>Ranges.\<close>
  \<open>platform_ok\<close> bounds the tick rate by 1 and $10^9$; where a tick of one second would make
  \<open>NANOSECONDS_PER_TICK\<close> equal to a second, a rate above 1 is asked for. \<open>near\<close> asks that the
  deadline and the current time are valid and that their distance fits \<open>time_t\<close> and is at most
  $2^{32} - 1$ seconds. Message queue sizes are those whose products fit 32 bits. No fuel is used;
  the bounds on the steps of calls on barriers and condition variables come from a weight for
  each program point, at most 11. The one count of steps in a statement is that of the lemmas
  \<open>mq_call_alone\<close> and \<open>pthread_create_alone\<close>: a call on a message queue has at most eight steps
  and a creation six.

  \<^bold>\<open>Not modelled.\<close>
  The kernel and the C library; the function of a thread and the notification function of a
  timer, which are the application's; an \<open>ovalue\<close> of \<open>timer_settime\<close> that is the same object
  as \<open>value\<close>; the union \<open>sigval\<close>, of which only the pointer is used; interference between
  calls on one timer and its expiry, since the sources do not say in which context the kernel
  calls \<open>timer_do\<close>; interference within a critical section of the message queues, which is one
  step; the Makefile and the prototypes in the headers.
\<close>

section \<open>Properties that span components\<close>

text \<open>
  Where the tick rate divides $10^9$, the time between two readings of the clock is as many ticks
  as there are between them.
\<close>

lemma span_whole:
  assumes "platform_ok P" and "uint (tmr_hz P) dvd 1000000000" and "0 \<le> k"
  shows "span_ticks P (k * NANOSECONDS_PER_TICK P) = k"
proof -
  let ?n = "NANOSECONDS_PER_TICK P" and ?h = "uint (tmr_hz P)"
  have n: "1 \<le> ?n" using npt_pos assms(1) by simp
  have "k * 1000000000 = k * ?n * ?h" using npt_hz_eq [OF assms(1,2)] by (simp add: algebra_simps)
  also have "\<dots> \<le> span_ticks P (k * ?n) * 1000000000" by (rule span_covers) fact
  finally have "k \<le> span_ticks P (k * ?n)" by simp
  moreover have "(span_ticks P (k * ?n) - 1) * ?n < k * ?n"
    using assms(3) n by (intro span_nominal assms(1)) simp
  then have "span_ticks P (k * ?n) - 1 < k" using n by (simp add: mult_less_cancel_right)
  ultimately show ?thesis by simp
qed

lemma clock_times_apart:
  assumes "platform_ok P" and "1 < uint (tmr_hz P)" and "n < m"
  shows "near P (clock_time P m) (clock_time P n)" and "clock_time P n < clock_time P m"
    and "nanos (clock_time P m) - nanos (clock_time P n) = (uint m - uint n) * NANOSECONDS_PER_TICK P"
proof -
  note v = clock_time_valid [OF assms(1,2)]
  have less: "uint n < uint m" using assms(3) by (simp add: word_less_def)
  show apart: "nanos (clock_time P m) - nanos (clock_time P n) = (uint m - uint n) * NANOSECONDS_PER_TICK P"
    by (simp add: v(2) algebra_simps)
  have "0 < (uint m - uint n) * NANOSECONDS_PER_TICK P" using less npt_pos [OF assms(1)] by simp
  then show "clock_time P n < clock_time P m"
    using nanos_less_iff [OF v(1) v(1), of n m] apart by linarith
  have sec: "0 \<le> tv_sec (clock_time P k) \<and> tv_sec (clock_time P k) < 2147483648" for k
  proof -
    have "tv_sec (clock_time P k) * 1000000000 \<le> nanos (clock_time P k)"
      using v(1) [of k] by (simp add: nanos_def)
    also have "\<dots> = uint k * NANOSECONDS_PER_TICK P" by (rule v(2))
    also have "\<dots> \<le> uint k * 500000000"
    proof (rule mult_left_mono)
      have "2 * NANOSECONDS_PER_TICK P \<le> uint (tmr_hz P) * NANOSECONDS_PER_TICK P"
        using npt_pos [OF assms(1)] assms(2) by (intro mult_right_mono) auto
      with npt_hz_le [OF assms(1)] show "NANOSECONDS_PER_TICK P \<le> 500000000" by linarith
    qed simp
    finally have "tv_sec (clock_time P k) < 2147483648" using u32_bounds(2) [of k] by linarith
    with v(3) show ?thesis by blast
  qed
  have "fits 32 (tv_sec (clock_time P m) - tv_sec (clock_time P n))"
    using sec [of m] sec [of n] by simp
  then show "near P (clock_time P m) (clock_time P n)"
    using v(1) [of m] v(1) [of n] fits_time32 [OF assms(1)] sec [of m] sec [of n]
    by (simp add: near_def del: fits_32 validate_iff)
qed

text \<open>
  C11: an absolute deadline is a tick of the counter, the same one for every kind of wait. Let
  the tick rate be above 1 and divide $10^9$, and let \<open>a\<close> be the time that \<open>clock_gettime\<close> reads at tick \<open>m\<close>. A
  wait until \<open>a\<close> that reads the clock at an earlier tick \<open>n\<close> asks the kernel for exactly \<open>m - n\<close>
  ticks, whether it is a semaphore, a mutex (not an error-checking one that the caller has), a
  blocking message queue or a timer that waits: whenever the wait begins, its timeout runs out
  at tick \<open>m\<close>.
\<close>

theorem deadlines_are_ticks:
  assumes "platform_ok P" and "1 < uint (tmr_hz P)" and "uint (tmr_hz P) dvd 1000000000" and "n < m"
    and "clock_gettime P m CLOCK_REALTIME (Some z) = (OK, Some a)"
    and "m_inited mux \<noteq> 0"
    and "mtype (m_attr mux) \<noteq> PTHREAD_MUTEX_ERRORCHECK \<or> owner M mux \<noteq> Some t"
    and "q_plat q = P" and "qflags AND O_NONBLOCK q = 0"
    and "t_plat (te e) = P" and "timers w x = Some timer" and "flags AND TIMER_ABSTIME = TIMER_ABSTIME"
    and "in_range P interval"
  shows "sem_timedwait P S n sem (Some a) err =
      (if fst (sem_get S sem (m - n)) then (OK, snd (sem_get S sem (m - n)), err)
       else (MinusOne, snd (sem_get S sem (m - n)), Some ETIMEDOUT)) \<and>
    pthread_mutex_timedlock P M t n sleep0 mux (Some a) =
      (OK, mux\<lparr>m_mux := snd (mut_lock M t (m_mux mux) (m - n))\<rparr>) \<and>
    get_tick_timeout q n qflags (Some a) tmo = (OK, m - n) \<and>
    (\<exists>timer'. timer_settime e n1 n now x flags \<lparr>it_interval = interval, it_value = a\<rparr> None err w =
        Returns (OK, None, err, w\<lparr>timers := (timers w)(x \<mapsto> timer')\<rparr>) \<and>
      ost timer' = tmr_on (tmrs e) now (tmr_of (tmrs e) (ost timer)) (m - n))"
proof -
  let ?now = "clock_time P n"
  have a: "a = clock_time P m" using assms(5) by simp
  note apart = clock_times_apart [OF assms(1,2,4), folded a]
  have less: "uint n < uint m" using assms(4) by (simp add: word_less_def)
  have T: "span_ticks P (nanos a - nanos ?now) = uint m - uint n"
    unfolding apart(3) using less by (intro span_whole assms(1,3)) simp
  have w: "word_of_int (uint m - uint n) = m - n" by simp
  have fit: "uint m - uint n \<le> 4294967295" using u32_bounds(2) [of m] u32_bounds(1) [of n] by linarith
  have v: "validate_timespec (Some a)" using apart(1) by (simp add: near_def)
  have plan: "deadline_ticks P a ?now r = (OK, m - n)" for r
    using dl.ahead [OF assms(1) apart(1), of r] apart(2) fit by (simp add: T)
  have nz: "m - n \<noteq> 0" using assms(4) by auto
  have sem: "wait_plan P n (Some a) = (OK, m - n)"
    using v apart(2) plan by (simp add: wait_plan_def del: validate_iff)
  have lock: "lock_plan P n sleep0 (Some a) = (OK, m - n)" using plan by (simp add: lock_plan_def)
  have set: "TIMESPEC_IS_NOT_ZERO a"
  proof -
    have "0 < uint m * NANOSECONDS_PER_TICK P"
      using less u32_bounds(1) [of n] npt_pos [OF assms(1)] by (intro mult_pos_pos) linarith+
    then have "nanos a \<noteq> 0" unfolding a clock_time_valid(2) [OF assms(1,2)] by linarith
    then show ?thesis by (auto simp: TIMESPEC_IS_NOT_ZERO_def TIMESPEC_IS_ZERO_def nanos_def)
  qed
  let ?val = "\<lparr>it_interval = interval, it_value = a\<rparr>"
  have "sem_timedwait P S n sem (Some a) err =
      (if fst (sem_get S sem (m - n)) then (OK, snd (sem_get S sem (m - n)), err)
       else (MinusOne, snd (sem_get S sem (m - n)), Some ETIMEDOUT))"
    using sem_timedwait_result [OF assms(1) _ sem, of S sem err] apart(1) by simp
  moreover have "pthread_mutex_timedlock P M t n sleep0 mux (Some a) =
      (OK, mux\<lparr>m_mux := snd (mut_lock M t (m_mux mux) (m - n))\<rparr>)"
    using assms(7) by (auto simp: timedlock_plan [OF assms(6)] lock)
  moreover have "get_tick_timeout q n qflags (Some a) tmo = (OK, m - n)"
    using assms(8,9) v plan by (simp add: get_tick_timeout_def del: validate_iff)
  moreover have "timer_settime e n1 n now x flags ?val None err w =
      Returns (OK, None, err, w\<lparr>timers := (timers w)(x \<mapsto>
        (stopped e ?val timer)\<lparr>ost := tmr_on (tmrs e) now (tmr_of (tmrs e) (ost timer)) (m - n)\<rparr>)\<rparr>)"
    using settime_absolute [OF assms(11) _ assms(12), where e = e and val = ?val and ?n2.0 = n and r = OK
        and k = "m - n" and ?n1.0 = n1 and now = now and ov = None and err = err] assms(1,10,13)
      v set plan nz by simp
  ultimately show ?thesis by (auto intro!: exI)
qed

theorem deadlines_are_ticks_witness:
  "sem_timedwait ref_platform (ref_sem\<lparr>sem_get := \<lambda>s t. (False, unat t)\<rparr>) 1234 0
      (Some \<lparr>tv_sec = 2, tv_nsec = 500000000\<rparr>) None = (MinusOne, 1266, Some ETIMEDOUT) \<and>
    get_tick_timeout ref_mq_env 1234 0 (Some \<lparr>tv_sec = 2, tv_nsec = 500000000\<rparr>) 0 = (OK, 1266)"
proof -
  let ?a = "\<lparr>tv_sec = 2, tv_nsec = 500000000\<rparr> :: timespec"
  have a: "clock_gettime ref_platform 2500 CLOCK_REALTIME (Some \<lparr>tv_sec = 0, tv_nsec = 0\<rparr>) = (OK, Some ?a)"
    by code_simp
  have timer: "timers (ref_timer_world 0) 3 = Some ref_timer" by (simp add: ref_timer_world_def)
  note all = deadlines_are_ticks [OF ref_platform_ok _ _ _ a, of 1234
      "\<lparr>m_inited = 2, m_mux = None, m_attr = \<lparr>mtype = 2\<rparr>\<rparr>" ref_mut "7 :: nat" ref_mq_env 0
      ref_timer_env "ref_timer_world 0" 3 ref_timer 1 "\<lparr>tv_sec = 0, tv_nsec = 0\<rparr>"
      "ref_sem\<lparr>sem_get := \<lambda>s t. (False, unat t)\<rparr>" 0 None]
  from all timer in_range_ref [of 0] show ?thesis
    by (simp add: owner_def TIMER_ABSTIME_def)
qed

end
